(* ===== verification/Prelude.thy ===== *)
theory Prelude
  imports Main "HOL-Library.Word" "HOL-Library.Monad_Syntax"
begin

text \<open>
  The notions every component shares: Go's byte slices with their bounds checks
  (\<open>None\<close> is a run-time panic, so a decoder that returns \<open>Some\<close> on every input
  never panics), the big-endian accessors of \<open>encoding/binary\<close>, \<open>copy\<close>, the
  signed 64-bit wrap-around of \<open>time.Duration\<close>, the byte stream behind
  \<open>io.ReadFull\<close>, and step systems with their reachable states and the
  invariant rule.
\<close>

unbundle bit_operations_syntax

named_theorems wire \<open>lengths and round trips of the byte-level helpers\<close>

type_synonym byte = "8 word"
type_synonym u16 = "16 word"
type_synonym u32 = "32 word"
type_synonym u64 = "64 word"
type_synonym bytes = "byte list"

section \<open>Checked slices\<close>

definition index_at :: "nat \<Rightarrow> 'a list \<Rightarrow> 'a option" where
  "index_at i b = (if i < length b then Some (b ! i) else None)"

definition slice :: "nat \<Rightarrow> nat \<Rightarrow> 'a list \<Rightarrow> 'a list option" where
  "slice i j b = (if i \<le> j \<and> j \<le> length b then Some (take (j - i) (drop i b)) else None)"

definition slice_from :: "nat \<Rightarrow> 'a list \<Rightarrow> 'a list option" where
  "slice_from i b = slice i (length b) b"

definition copy_at :: "nat \<Rightarrow> 'a list \<Rightarrow> 'a list \<Rightarrow> 'a list" where
  "copy_at i src dst = take i dst @ take (length dst - i) src @ drop (i + length src) dst"

lemma index_at_Some [simp]: "i < length b \<Longrightarrow> index_at i b = Some (b ! i)"
  by (simp add: index_at_def)

lemma slice_Some [simp]: "i \<le> j \<Longrightarrow> j \<le> length b \<Longrightarrow> slice i j b = Some (take (j - i) (drop i b))"
  by (simp add: slice_def)

lemma slice_eq_Some: "slice i j b = Some s \<longleftrightarrow> i \<le> j \<and> j \<le> length b \<and> s = take (j - i) (drop i b)"
  by (auto simp: slice_def)

lemma slice_from_Some [simp]: "i \<le> length b \<Longrightarrow> slice_from i b = Some (drop i b)"
  by (simp add: slice_from_def)

lemma slice_from_eq_Some: "slice_from i b = Some s \<longleftrightarrow> i \<le> length b \<and> s = drop i b"
  by (auto simp: slice_from_def slice_def)

lemma slice_whole: "slice 0 (length b) b = Some b"
  by simp

lemma length_copy_at [wire]: "i \<le> length dst \<Longrightarrow> length (copy_at i src dst) = length dst"
  by (simp add: copy_at_def)

lemma copy_at_append:
  "length xs = i \<Longrightarrow> length src \<le> length dst \<Longrightarrow>
     copy_at i src (xs @ dst) = xs @ src @ drop (length src) dst"
  by (simp add: copy_at_def)

lemma copy_at_fill: "length xs = i \<Longrightarrow> length src = length dst \<Longrightarrow> copy_at i src (xs @ dst) = xs @ src"
  by (simp add: copy_at_append)

section \<open>Big-endian integers (encoding/binary)\<close>

definition uint16_be :: "bytes \<Rightarrow> u16 option" where
  "uint16_be b = (if 2 \<le> length b then Some (push_bit 8 (ucast (b ! 0)) OR ucast (b ! 1)) else None)"

definition uint32_be :: "bytes \<Rightarrow> u32 option" where
  "uint32_be b = (if 4 \<le> length b
     then Some (push_bit 24 (ucast (b ! 0)) OR push_bit 16 (ucast (b ! 1))
                OR push_bit 8 (ucast (b ! 2)) OR ucast (b ! 3))
     else None)"

definition uint64_be :: "bytes \<Rightarrow> u64 option" where
  "uint64_be b = (if 8 \<le> length b
     then Some (push_bit 56 (ucast (b ! 0)) OR push_bit 48 (ucast (b ! 1))
                OR push_bit 40 (ucast (b ! 2)) OR push_bit 32 (ucast (b ! 3))
                OR push_bit 24 (ucast (b ! 4)) OR push_bit 16 (ucast (b ! 5))
                OR push_bit 8 (ucast (b ! 6)) OR ucast (b ! 7))
     else None)"

definition put_uint16 :: "u16 \<Rightarrow> bytes" where
  "put_uint16 v = [ucast (drop_bit 8 v), ucast v]"

definition put_uint32 :: "u32 \<Rightarrow> bytes" where
  "put_uint32 v = [ucast (drop_bit 24 v), ucast (drop_bit 16 v), ucast (drop_bit 8 v), ucast v]"

definition put_uint64 :: "u64 \<Rightarrow> bytes" where
  "put_uint64 v = [ucast (drop_bit 56 v), ucast (drop_bit 48 v), ucast (drop_bit 40 v),
     ucast (drop_bit 32 v), ucast (drop_bit 24 v), ucast (drop_bit 16 v),
     ucast (drop_bit 8 v), ucast v]"

lemma length_put_uint [simp, wire]:
  "length (put_uint16 a) = 2" "length (put_uint32 b) = 4" "length (put_uint64 c) = 8"
  by (simp_all add: put_uint16_def put_uint32_def put_uint64_def)

lemma bit_byte_at:
  "bit (push_bit k (ucast (ucast (drop_bit k v) :: byte)) :: 'a::len word) n
     \<longleftrightarrow> k \<le> n \<and> n < k + 8 \<and> bit (v :: 'a word) n"
  by (auto simp: bit_simps dest: bit_imp_le_length)

lemma bit_byte_at_0: "bit (ucast (ucast v :: byte) :: 'a::len word) n \<longleftrightarrow> n < 8 \<and> bit (v :: 'a word) n"
  by (auto simp: bit_simps dest: bit_imp_le_length)

lemmas be_bits = bit_or_iff bit_byte_at bit_byte_at_0

lemma uint16_be_put [simp, wire]: "uint16_be (put_uint16 v @ rest) = Some v"
  by (auto simp: uint16_be_def put_uint16_def be_bits dest: bit_imp_le_length intro!: bit_word_eqI)

lemma uint32_be_put [simp, wire]: "uint32_be (put_uint32 v @ rest) = Some v"
  by (auto simp: uint32_be_def put_uint32_def be_bits nth_append intro!: bit_word_eqI)

lemma uint64_be_put [simp, wire]: "uint64_be (put_uint64 v @ rest) = Some v"
  by (auto simp: uint64_be_def put_uint64_def be_bits nth_append intro!: bit_word_eqI)

lemma uint_be_put_exact [simp, wire]:
  "uint16_be (put_uint16 a) = Some a" "uint32_be (put_uint32 b) = Some b"
  "uint64_be (put_uint64 c) = Some c"
  using uint16_be_put[of a "[]"] uint32_be_put[of b "[]"] uint64_be_put[of c "[]"] by simp_all

lemma list2_conv: "length xs = 2 \<longleftrightarrow> (\<exists>a b. xs = [a, b])"
  by (auto simp: numeral_eq_Suc length_Suc_conv)

lemma list4_conv: "length xs = 4 \<longleftrightarrow> (\<exists>a b c d. xs = [a, b, c, d])"
  by (auto simp: numeral_eq_Suc length_Suc_conv)

lemma list8_conv: "length xs = 8 \<longleftrightarrow> (\<exists>a b c d e f g h. xs = [a, b, c, d, e, f, g, h])"
  by (auto simp: numeral_eq_Suc length_Suc_conv)

lemma put_uint16_or: "put_uint16 (push_bit 8 (ucast a) OR ucast b) = [a, b]"
  unfolding put_uint16_def list.inject
  by (intro conjI bit_word_eqI) (auto simp: bit_simps dest: bit_imp_le_length)

lemma put_uint32_or:
  "put_uint32 (push_bit 24 (ucast a) OR push_bit 16 (ucast b) OR push_bit 8 (ucast c) OR ucast d)
     = [a, b, c, d]"
  unfolding put_uint32_def list.inject
  by (intro conjI bit_word_eqI) (auto simp: bit_simps dest: bit_imp_le_length)

lemma put_uint64_or:
  "put_uint64 (push_bit 56 (ucast a) OR push_bit 48 (ucast b) OR push_bit 40 (ucast c)
      OR push_bit 32 (ucast d) OR push_bit 24 (ucast e) OR push_bit 16 (ucast f)
      OR push_bit 8 (ucast g) OR ucast h) = [a, b, c, d, e, f, g, h]"
  unfolding put_uint64_def list.inject
  by (intro conjI bit_word_eqI) (auto simp: bit_simps dest: bit_imp_le_length)

lemma put_uint16_be: "length b = 2 \<Longrightarrow> uint16_be b = Some v \<Longrightarrow> put_uint16 v = b"
  unfolding list2_conv by (auto simp: uint16_be_def put_uint16_or)

lemma put_uint32_be: "length b = 4 \<Longrightarrow> uint32_be b = Some v \<Longrightarrow> put_uint32 v = b"
  unfolding list4_conv by (auto simp: uint32_be_def put_uint32_or)

lemma put_uint64_be: "length b = 8 \<Longrightarrow> uint64_be b = Some v \<Longrightarrow> put_uint64 v = b"
  unfolding list8_conv by (auto simp: uint64_be_def put_uint64_or)

lemma uint_be_total:
  "2 \<le> length b \<Longrightarrow> \<exists>v. uint16_be b = Some v"
  "4 \<le> length b \<Longrightarrow> \<exists>v. uint32_be b = Some v"
  "8 \<le> length b \<Longrightarrow> \<exists>v. uint64_be b = Some v"
  by (simp_all add: uint16_be_def uint32_be_def uint64_be_def)

lemma unat_of_nat_small: "n < 2 ^ LENGTH('a::len) \<Longrightarrow> unat (of_nat n :: 'a word) = n"
  by (simp add: unat_of_nat)

section \<open>Durations: int64 nanoseconds\<close>

type_synonym duration = int

definition wrap64 :: "int \<Rightarrow> int" where
  "wrap64 x = (x + 2 ^ 63) mod 2 ^ 64 - 2 ^ 63"

definition int64 :: "int \<Rightarrow> bool" where
  "int64 x \<longleftrightarrow> - (2 ^ 63) \<le> x \<and> x < 2 ^ 63"

definition trunc_div :: "int \<Rightarrow> int \<Rightarrow> int" where
  "trunc_div a b = sgn a * sgn b * (\<bar>a\<bar> div \<bar>b\<bar>)"

abbreviation millisecond :: duration where "millisecond \<equiv> 1000000"
abbreviation second :: duration where "second \<equiv> 1000000000"

lemma wrap64_id [simp]: "int64 x \<Longrightarrow> wrap64 x = x"
  by (simp add: wrap64_def int64_def)

lemma int64_wrap64 [simp]: "int64 (wrap64 x)"
  unfolding wrap64_def int64_def
  using pos_mod_bound[of "2 ^ 64" "x + 2 ^ 63"] pos_mod_sign[of "2 ^ 64" "x + 2 ^ 63"] by simp

lemma trunc_div_nonneg: "0 \<le> a \<Longrightarrow> 0 < b \<Longrightarrow> trunc_div a b = a div b"
  by (cases "a = 0") (simp_all add: trunc_div_def)

lemma trunc_div_neg: "a < 0 \<Longrightarrow> 0 < b \<Longrightarrow> trunc_div a b = - ((- a) div b)"
  by (simp add: trunc_div_def)

section \<open>Step systems\<close>

inductive reach :: "('s \<Rightarrow> bool) \<Rightarrow> ('s \<Rightarrow> 'l \<Rightarrow> 's \<Rightarrow> bool) \<Rightarrow> 's \<Rightarrow> bool"
  for start :: "'s \<Rightarrow> bool" and stp :: "'s \<Rightarrow> 'l \<Rightarrow> 's \<Rightarrow> bool"
where
  reach_start: "start s \<Longrightarrow> reach start stp s"
| reach_step: "reach start stp s \<Longrightarrow> stp s l t \<Longrightarrow> reach start stp t"

fun run_steps :: "('s \<Rightarrow> 'l \<Rightarrow> 's option) \<Rightarrow> 's \<Rightarrow> 'l list \<Rightarrow> 's option" where
  "run_steps f s [] = Some s"
| "run_steps f s (l # ls) = (case f s l of None \<Rightarrow> None | Some t \<Rightarrow> run_steps f t ls)"

lemma run_steps_append:
  "run_steps f s (ls @ ms) = (case run_steps f s ls of None \<Rightarrow> None | Some t \<Rightarrow> run_steps f t ms)"
  by (induction ls arbitrary: s) (auto split: option.split)

lemma reach_run_steps:
  assumes "\<And>s l t. f s l = Some t \<Longrightarrow> stp s l t"
    and "reach start stp s" and "run_steps f s ls = Some t"
  shows "reach start stp t"
  using assms(2,3)
proof (induction ls arbitrary: s)
  case Nil
  then show ?case by simp
next
  case (Cons l ls)
  then obtain u where "f s l = Some u" and "run_steps f u ls = Some t"
    by (auto split: option.splits)
  with Cons.IH Cons.prems(1) assms(1) show ?case
    by (blast intro: reach_step)
qed

locale inductive_invariant =
  fixes start :: "'s \<Rightarrow> bool"
    and stp :: "'s \<Rightarrow> 'l \<Rightarrow> 's \<Rightarrow> bool"
    and inv :: "'s \<Rightarrow> bool"
  assumes start_inv: "start s \<Longrightarrow> inv s"
    and step_inv: "inv s \<Longrightarrow> stp s l t \<Longrightarrow> inv t"
begin

lemma reach_inv: "reach start stp s \<Longrightarrow> inv s"
  by (induction rule: reach.induct) (auto intro: start_inv step_inv)

lemma reach_step_inv: "reach start stp s \<Longrightarrow> stp s l t \<Longrightarrow> inv t"
  by (blast intro: reach_inv step_inv)

end

end
