(* ===== verification/GoErrors.thy ===== *)
theory GoErrors
  imports Prelude "HOL-Library.AList"
begin

text \<open>
  Errors as values. An \<open>err\<close> is the tree Go's \<open>fmt.Errorf\<close> (\<open>%w\<close>) and the typed
  errors of \<open>client/errors.go\<close> build; \<open>errors_is\<close> and the \<open>as_\<close> functions walk it
  in the pre-order of \<open>errors.Is\<close> and \<open>errors.As\<close>. A nil error is \<open>None\<close>.
  Texts that no code branches on are short labels.
\<close>

named_theorems errs \<open>classification of errors\<close>

section \<open>Strings\<close>

text \<open>A Go string is its bytes; \<open>string\<close> has one character per byte.\<close>

definition string_of_bytes :: "bytes \<Rightarrow> string" where
  "string_of_bytes b = map (\<lambda>w. char_of (unat w)) b"

definition bytes_of_string :: "string \<Rightarrow> bytes" where
  "bytes_of_string s = map (\<lambda>c. of_nat (of_char c)) s"

lemma string_of_bytes_of_string [simp]: "string_of_bytes (bytes_of_string s) = s"
  by (simp add: string_of_bytes_def bytes_of_string_def comp_def unat_of_nat map_idI)

lemma byte_unat_mod [simp]: "unat (x :: byte) mod 256 = unat x"
  using unsigned_less[of x, where ?'a = nat] by simp

lemma bytes_of_string_of_bytes [simp]: "bytes_of_string (string_of_bytes b) = b"
  by (simp add: string_of_bytes_def bytes_of_string_def comp_def map_idI of_char_of)

lemma length_string_bytes [simp]:
  "length (string_of_bytes b) = length b" "length (bytes_of_string s) = length s"
  by (simp_all add: string_of_bytes_def bytes_of_string_def)

lemma string_of_bytes_inject [simp]: "string_of_bytes a = string_of_bytes b \<longleftrightarrow> a = b"
  by (metis bytes_of_string_of_bytes)

section \<open>Sentinels and error values\<close>

text \<open>
  The package-level error variables of the SDK, and those of the standard library
  and the WebSocket library the code tests with \<open>errors.Is\<close>. \<open>NetTimeout\<close> stands
  for any \<open>net.Error\<close> whose \<open>Timeout()\<close> is true.
\<close>

datatype sentinel =
    FrameErrIncomplete | FrameErrProtocol
  | ErrNetwork | ErrTimeout | ErrProtocol | ClientErrClosed
  | ErrNoSessionProtocol | ErrSessionReplyUnresolved | ErrSessionCredentialsEmpty
  | ErrFlowIDShort | ErrHelloMalformed | ErrHelloTooLong
  | ErrPayloadVersion | ErrTransportUnknown | ErrTransportNotFound
  | ErrNotifyMalformed | ErrNotifyNoTicket | ErrNotifyNoEndpoint
  | ErrFlowIDMismatch | ErrRejected | ErrTicketExpired | ErrTicketInvalid | ErrClosed
  | ErrBattleEnded | ErrBattleNotFound | ErrBattleFull | ErrFrameTargetMismatch
  | ErrFlowDead
  | CtxCanceled | CtxDeadlineExceeded | EOF | ErrUnexpectedEOF | NetTimeout | WsErrReadLimit

type_synonym int32 = "32 word"

record business =
  be_code :: int32
  be_reason :: string
  be_message :: string
  be_metadata :: "(string \<times> string) list"
  be_class :: int32

datatype dead_reason = DeadIdle | DeadSwallow

datatype err =
    Msg string
  | Sentinel sentinel
  | Wrap string "err list"
  | NetworkError err
  | TimeoutError err
  | ProtocolError err
  | BusinessError business
  | FlowDeadError dead_reason "err option"

fun errors_is :: "err \<Rightarrow> sentinel \<Rightarrow> bool" where
  "errors_is (Msg _) t = False"
| "errors_is (Sentinel s) t = (s = t)"
| "errors_is (Wrap _ es) t = list_ex (\<lambda>e. errors_is e t) es"
| "errors_is (NetworkError c) t = (t = ErrNetwork \<or> errors_is c t)"
| "errors_is (TimeoutError c) t = (t = ErrTimeout \<or> errors_is c t)"
| "errors_is (ProtocolError c) t = (t = ErrProtocol \<or> errors_is c t)"
| "errors_is (BusinessError _) t = False"
| "errors_is (FlowDeadError _ _) t = (t = ErrFlowDead)"

fun first_some :: "('a \<Rightarrow> 'b option) \<Rightarrow> 'a list \<Rightarrow> 'b option" where
  "first_some f [] = None"
| "first_some f (x # xs) = (case f x of Some y \<Rightarrow> Some y | None \<Rightarrow> first_some f xs)"

lemma first_some_cong [fundef_cong]:
  "xs = ys \<Longrightarrow> (\<And>x. x \<in> set ys \<Longrightarrow> f x = g x) \<Longrightarrow> first_some f xs = first_some g ys"
proof (induction xs arbitrary: ys)
  case (Cons x xs)
  then show ?case by (auto split: option.splits)
qed simp

fun as_business :: "err \<Rightarrow> business option" where
  "as_business (BusinessError b) = Some b"
| "as_business (Wrap _ es) = first_some as_business es"
| "as_business (NetworkError c) = as_business c"
| "as_business (TimeoutError c) = as_business c"
| "as_business (ProtocolError c) = as_business c"
| "as_business _ = None"

fun as_protocol :: "err \<Rightarrow> err option" where
  "as_protocol (ProtocolError c) = Some (ProtocolError c)"
| "as_protocol (Wrap _ es) = first_some as_protocol es"
| "as_protocol (NetworkError c) = as_protocol c"
| "as_protocol (TimeoutError c) = as_protocol c"
| "as_protocol _ = None"

fun as_flow_dead :: "err \<Rightarrow> dead_reason option" where
  "as_flow_dead (FlowDeadError r _) = Some r"
| "as_flow_dead (Wrap _ es) = first_some as_flow_dead es"
| "as_flow_dead (NetworkError c) = as_flow_dead c"
| "as_flow_dead (TimeoutError c) = as_flow_dead c"
| "as_flow_dead (ProtocolError c) = as_flow_dead c"
| "as_flow_dead _ = None"

text \<open>The constructors \<open>NewNetworkError\<close>, \<open>NewTimeoutError\<close>, \<open>NewProtocolError\<close>.\<close>

definition NewNetworkError :: "err \<Rightarrow> err" where "NewNetworkError cause = NetworkError cause"
definition NewTimeoutError :: "err \<Rightarrow> err" where "NewTimeoutError cause = TimeoutError cause"
definition NewProtocolError :: "err \<Rightarrow> err" where "NewProtocolError cause = ProtocolError cause"

lemmas new_error_defs [simp] = NewNetworkError_def NewTimeoutError_def NewProtocolError_def

definition IsBusinessError :: "err \<Rightarrow> string \<Rightarrow> bool" where
  "IsBusinessError e reason = (case as_business e of None \<Rightarrow> False | Some b \<Rightarrow> be_reason b = reason)"

fun is_protocol_error :: "err \<Rightarrow> bool" where
  "is_protocol_error (ProtocolError _) = True"
| "is_protocol_error _ = False"

fun is_network_error :: "err \<Rightarrow> bool" where
  "is_network_error (NetworkError _) = True"
| "is_network_error _ = False"

fun is_timeout_error :: "err \<Rightarrow> bool" where
  "is_timeout_error (TimeoutError _) = True"
| "is_timeout_error _ = False"

lemma as_protocol_is: "as_protocol e = Some p \<Longrightarrow> errors_is e ErrProtocol"
proof (induction e rule: as_protocol.induct)
  case (2 m es)
  then have "\<exists>e \<in> set es. errors_is e ErrProtocol"
    by (induction es) (auto split: option.splits)
  then show ?case by (auto simp: list_ex_iff)
qed auto

lemma first_some_None: "first_some f xs = None \<longleftrightarrow> (\<forall>x \<in> set xs. f x = None)"
  by (induction xs) (auto split: option.splits)

end
