(* ===== verification/FrameCodec.thy ===== *)
theory FrameCodec
  imports GoErrors
begin

text \<open>
  The frame layer: the generated codec \<open>frame/gen/codec_gen.go\<close> with its constants
  (\<open>consts_gen.go\<close>), the typed wrappers \<open>frame/frame.go\<close> and \<open>frame/message.go\<close>,
  and the stream reader and writer. Decoders return \<open>None\<close> where the Go code would
  panic on a slice bound, \<open>Some (Inl e)\<close> for an error and \<open>Some (Inr v)\<close> otherwise.
\<close>

section \<open>Constants (frame/gen/consts\_gen.go)\<close>

definition HeaderSize :: nat where "HeaderSize = 16"
definition Magic :: u32 where "Magic = 0x41544C53"
definition Version :: byte where "Version = 1"
definition Version2 :: byte where "Version2 = 2"
definition Version3 :: byte where "Version3 = 3"
definition MaxBodySize :: int where "MaxBodySize = 2097152"
definition MaxOperationLen :: nat where "MaxOperationLen = 4096"
definition MaxSessionLen :: nat where "MaxSessionLen = 256"
definition MaxRequestIDLen :: nat where "MaxRequestIDLen = 128"
definition MsgTypeRequest :: byte where "MsgTypeRequest = 1"
definition MsgTypeResponse :: byte where "MsgTypeResponse = 2"
definition MsgTypeNotify :: byte where "MsgTypeNotify = 3"
definition FlagSession :: byte where "FlagSession = 1"
definition FlagRequestID :: byte where "FlagRequestID = 2"
definition PayloadVersions :: "byte list" where "PayloadVersions = [1, 2, 3]"
definition reservedFlags :: byte where "reservedFlags = NOT (FlagSession OR FlagRequestID)"

lemmas frame_consts = HeaderSize_def Magic_def Version_def Version2_def Version3_def MaxBodySize_def
  MaxOperationLen_def MaxSessionLen_def MaxRequestIDLen_def MsgTypeRequest_def MsgTypeResponse_def
  MsgTypeNotify_def FlagSession_def FlagRequestID_def PayloadVersions_def reservedFlags_def

section \<open>The generated codec (frame/gen/codec\_gen.go)\<close>

record gen_header =
  gMagic :: u32
  gVersion :: byte
  gType :: byte
  gFlags :: byte
  gSeq :: u32
  gLength :: u32

definition NormalizeMaxBodySize :: "int \<Rightarrow> int" where
  "NormalizeMaxBodySize maxBodySize = (if maxBodySize \<le> 0 then MaxBodySize else maxBodySize)"

definition IsPayloadVersion :: "byte \<Rightarrow> bool" where
  "IsPayloadVersion ver = list_ex (\<lambda>v. v = ver) PayloadVersions"

definition CheckHeader :: "gen_header \<Rightarrow> int \<Rightarrow> err option" where
  "CheckHeader h maxBodySize =
     (if gMagic h \<noteq> Magic then Some (Msg ''invalid magic'')
      else if gSeq h = 0 then Some (Msg ''invalid seq'')
      else if gType h \<noteq> MsgTypeRequest \<and> gType h \<noteq> MsgTypeResponse \<and> gType h \<noteq> MsgTypeNotify
        then Some (Msg ''invalid type'')
      else if \<not> IsPayloadVersion (gVersion h) then Some (Msg ''invalid version'')
      else if gFlags h AND reservedFlags \<noteq> 0 then Some (Msg ''invalid flags'')
      else if uint (gLength h) > NormalizeMaxBodySize maxBodySize then Some (Msg ''body too large'')
      else None)"

text \<open>\<open>PutHeader\<close> writes into the caller's slice; it panics when that is shorter than a header.\<close>

definition PutHeader :: "bytes \<Rightarrow> gen_header \<Rightarrow> bytes option" where
  "PutHeader out h =
     (if length out < HeaderSize then None
      else Some (put_uint32 (gMagic h) @ [gVersion h, gType h, gFlags h, 0]
                 @ put_uint32 (gSeq h) @ put_uint32 (gLength h) @ drop HeaderSize out))"

definition EncodeHeader :: "gen_header \<Rightarrow> bytes option" where
  "EncodeHeader h = PutHeader (replicate HeaderSize 0) h"

definition with_defaults :: "gen_header \<Rightarrow> gen_header" where
  "with_defaults h =
     (let h = (if gMagic h = 0 then h\<lparr>gMagic := Magic\<rparr> else h)
      in if gVersion h = 0 then h\<lparr>gVersion := Version\<rparr> else h)"

definition GenEncode :: "gen_header \<Rightarrow> bytes \<Rightarrow> int \<Rightarrow> (err + bytes) option" where
  "GenEncode h body maxBodySize =
     (let limit = NormalizeMaxBodySize maxBodySize in
      if int (length body) > limit then Some (Inl (Msg ''body too large''))
      else do {
        let h = (with_defaults h)\<lparr>gLength := of_nat (length body)\<rparr>;
        out \<leftarrow> PutHeader (replicate (HeaderSize + length body) 0) h;
        Some (Inr (copy_at HeaderSize body out))
      })"

definition DecodeHeader :: "bytes \<Rightarrow> int \<Rightarrow> (err + gen_header) option" where
  "DecodeHeader datagram maxBodySize =
     (if length datagram < HeaderSize
      then Some (Inl (Wrap ''short input'' [Sentinel FrameErrIncomplete]))
      else do {
        s0 \<leftarrow> slice 0 4 datagram; magic \<leftarrow> uint32_be s0;
        ver \<leftarrow> index_at 4 datagram;
        ty \<leftarrow> index_at 5 datagram;
        fl \<leftarrow> index_at 6 datagram;
        s1 \<leftarrow> slice 8 12 datagram; seq \<leftarrow> uint32_be s1;
        s2 \<leftarrow> slice 12 16 datagram; len \<leftarrow> uint32_be s2;
        let h = \<lparr>gMagic = magic, gVersion = ver, gType = ty, gFlags = fl, gSeq = seq, gLength = len\<rparr>;
        (case CheckHeader h maxBodySize of
           Some e \<Rightarrow> Some (Inl e)
         | None \<Rightarrow> Some (Inr h))
      })"

definition GenDecode :: "bytes \<Rightarrow> int \<Rightarrow> (err + gen_header \<times> bytes) option" where
  "GenDecode datagram maxBodySize =
     do {
       r \<leftarrow> DecodeHeader datagram maxBodySize;
       (case r of
          Inl e \<Rightarrow> Some (Inl e)
        | Inr h \<Rightarrow>
            if 0 < gLength h \<and> length datagram < HeaderSize + unat (gLength h)
            then Some (Inl (Wrap ''truncated body'' [Sentinel FrameErrIncomplete]))
            else if gLength h = 0 then Some (Inr (h, []))
            else do {
              body \<leftarrow> slice HeaderSize (HeaderSize + unat (gLength h)) datagram;
              Some (Inr (h, body))
            })
     }"

definition GenDecodeMessage :: "bytes \<Rightarrow> int \<Rightarrow> (err + gen_header \<times> bytes) option" where
  "GenDecodeMessage message maxBodySize =
     (if length message < HeaderSize then Some (Inl (Msg ''message shorter than header''))
      else do {
        r \<leftarrow> DecodeHeader message maxBodySize;
        (case r of
           Inl e \<Rightarrow> Some (Inl e)
         | Inr h \<Rightarrow>
             if length message - HeaderSize \<noteq> unat (gLength h)
             then Some (Inl (Msg ''message length mismatch bodyLen''))
             else if gLength h = 0 then Some (Inr (h, []))
             else do { body \<leftarrow> slice_from HeaderSize message; Some (Inr (h, body)) })
      })"

section \<open>The typed wrappers (frame/frame.go, frame/message.go)\<close>

type_synonym MsgType = byte

record header =
  hMagic :: u32
  hVersion :: byte
  hType :: MsgType
  hFlags :: byte
  hSeq :: u32
  hLength :: u32

definition toGen :: "header \<Rightarrow> gen_header" where
  "toGen h = \<lparr>gMagic = hMagic h, gVersion = hVersion h, gType = hType h, gFlags = hFlags h,
     gSeq = hSeq h, gLength = hLength h\<rparr>"

definition fromGen :: "gen_header \<Rightarrow> header" where
  "fromGen h = \<lparr>hMagic = gMagic h, hVersion = gVersion h, hType = gType h, hFlags = gFlags h,
     hSeq = gSeq h, hLength = gLength h\<rparr>"

definition wrapProtocol :: "err \<Rightarrow> err" where
  "wrapProtocol e =
     (if errors_is e FrameErrIncomplete then e else Wrap '''' [e, Sentinel FrameErrProtocol])"

definition PayloadVersionsCopy :: "byte list" where
  "PayloadVersionsCopy = copy_at 0 PayloadVersions (replicate (length PayloadVersions) 0)"

definition Header_Check :: "header \<Rightarrow> int \<Rightarrow> err option" where
  "Header_Check h maxBodySize = map_option wrapProtocol (CheckHeader (toGen h) maxBodySize)"

definition Encode :: "header \<Rightarrow> bytes \<Rightarrow> int \<Rightarrow> (err + bytes) option" where
  "Encode h body maxBodySize = GenEncode (toGen h) body maxBodySize"

definition Decode :: "bytes \<Rightarrow> int \<Rightarrow> (err + header \<times> bytes) option" where
  "Decode datagram maxBodySize =
     do {
       r \<leftarrow> GenDecode datagram maxBodySize;
       (case r of
          Inl e \<Rightarrow> Some (Inl (wrapProtocol e))
        | Inr (h, body) \<Rightarrow> Some (Inr (fromGen h, body)))
     }"

definition DecodeMessage :: "bytes \<Rightarrow> int \<Rightarrow> (err + header \<times> bytes) option" where
  "DecodeMessage msg maxBodySize =
     do {
       r \<leftarrow> GenDecodeMessage msg maxBodySize;
       (case r of
          Inl e \<Rightarrow> Some (Inl (wrapProtocol e))
        | Inr (h, body) \<Rightarrow> Some (Inr (fromGen h, body)))
     }"

text \<open>
  The byte stream under \<open>Read\<close>: the bytes still to come and the error the connection
  reports when they run out. \<open>ReadFull\<close> is \<open>io.ReadFull\<close>: a short read consumes
  what there is, and an \<open>EOF\<close> after some bytes becomes \<open>ErrUnexpectedEOF\<close>.
\<close>

record reader =
  pending :: bytes
  fault :: err

definition ReadFull :: "reader \<Rightarrow> nat \<Rightarrow> (err + bytes) \<times> reader" where
  "ReadFull r n =
     (if n \<le> length (pending r)
      then (Inr (take n (pending r)), r\<lparr>pending := drop n (pending r)\<rparr>)
      else (Inl (if pending r \<noteq> [] \<and> fault r = Sentinel EOF
                 then Sentinel ErrUnexpectedEOF else fault r),
            r\<lparr>pending := []\<rparr>))"

definition readHeader :: "reader \<Rightarrow> int \<Rightarrow> ((err + header) \<times> reader) option" where
  "readHeader r maxBodySize =
     (case ReadFull r HeaderSize of
        (Inl e, r) \<Rightarrow> Some (Inl e, r)
      | (Inr buf, r) \<Rightarrow>
          do {
            d \<leftarrow> DecodeHeader buf maxBodySize;
            (case d of
               Inl e \<Rightarrow> Some (Inl (wrapProtocol e), r)
             | Inr h \<Rightarrow> Some (Inr (fromGen h), r))
          })"

definition Read :: "reader \<Rightarrow> int \<Rightarrow> ((err + header \<times> bytes) \<times> reader) option" where
  "Read r maxBodySize =
     do {
       hr \<leftarrow> readHeader r maxBodySize;
       (case hr of
          (Inl e, r) \<Rightarrow> Some (Inl e, r)
        | (Inr h, r) \<Rightarrow>
            if hLength h = 0 then Some (Inr (h, []), r)
            else (case ReadFull r (unat (hLength h)) of
                    (Inl e, r) \<Rightarrow> Some (Inl e, r)
                  | (Inr body, r) \<Rightarrow> Some (Inr (h, body), r)))
     }"

text \<open>
  A writer: whether it is one of the socket types that take a gathered write
  (\<open>*net.TCPConn\<close>, \<open>*net.UnixConn\<close>, \<open>*net.UDPConn\<close>), the writes done so far, and
  the outcome the next ones have (an error writes nothing).
\<close>

record writer =
  gathers :: bool
  written :: "bytes list"
  outcomes :: "err option list"

definition write_call :: "writer \<Rightarrow> bytes \<Rightarrow> err option \<times> writer" where
  "write_call w b =
     (case outcomes w of
        [] \<Rightarrow> (None, w\<lparr>written := written w @ [b]\<rparr>)
      | None # os \<Rightarrow> (None, w\<lparr>written := written w @ [b], outcomes := os\<rparr>)
      | Some e # os \<Rightarrow> (Some e, w\<lparr>outcomes := os\<rparr>))"

definition writevBuffers :: "writer \<Rightarrow> bytes \<Rightarrow> bytes \<Rightarrow> bytes list option" where
  "writevBuffers w hdr body = (if gathers w then Some [hdr, body] else None)"

definition Write :: "writer \<Rightarrow> header \<Rightarrow> bytes \<Rightarrow> int \<Rightarrow> (err option \<times> writer) option" where
  "Write w h body maxBodySize =
     (let limit = (if maxBodySize \<le> 0 then MaxBodySize else maxBodySize) in
      if int (length body) > limit then Some (Some (Msg ''body too large''), w)
      else
        let h = (if hMagic h = 0 then h\<lparr>hMagic := Magic\<rparr> else h);
            h = (if hVersion h = 0 then h\<lparr>hVersion := Version\<rparr> else h);
            h = h\<lparr>hLength := of_nat (length body)\<rparr>
        in do {
          buf \<leftarrow> PutHeader (replicate HeaderSize 0) (toGen h);
          (case (if body = [] then None else writevBuffers w buf body) of
             Some bufs \<Rightarrow> Some (write_call w (concat bufs))
           | None \<Rightarrow>
               (case write_call w buf of
                  (Some e, w) \<Rightarrow> Some (Some e, w)
                | (None, w) \<Rightarrow> if body = [] then Some (None, w) else Some (write_call w body)))
        })"

section \<open>Header layout\<close>

definition header_bytes :: "gen_header \<Rightarrow> bytes" where
  "header_bytes h = put_uint32 (gMagic h) @ [gVersion h, gType h, gFlags h, 0]
     @ put_uint32 (gSeq h) @ put_uint32 (gLength h)"

lemma length_header_bytes [simp, wire]: "length (header_bytes h) = 16"
  by (simp add: header_bytes_def)

lemma PutHeader_replicate:
  "16 \<le> n \<Longrightarrow> PutHeader (replicate n 0) h = Some (header_bytes h @ replicate (n - 16) 0)"
  by (simp add: PutHeader_def header_bytes_def HeaderSize_def)

lemma EncodeHeader_eq: "EncodeHeader h = Some (header_bytes h)"
  by (simp add: EncodeHeader_def PutHeader_replicate HeaderSize_def)

lemma DecodeHeader_header_bytes:
  "DecodeHeader (header_bytes h @ rest) maxb =
     Some (case CheckHeader h maxb of Some e \<Rightarrow> Inl e | None \<Rightarrow> Inr h)"
proof -
  let ?d = "header_bytes h @ rest"
  have "slice 0 4 ?d = Some (put_uint32 (gMagic h))"
    and "index_at 4 ?d = Some (gVersion h)"
    and "index_at 5 ?d = Some (gType h)"
    and "index_at 6 ?d = Some (gFlags h)"
    and "slice 8 12 ?d = Some (put_uint32 (gSeq h))"
    and "slice 12 16 ?d = Some (put_uint32 (gLength h))"
    by (simp_all add: slice_def header_bytes_def index_at_def nth_append)
  then show ?thesis
    by (cases h) (simp add: DecodeHeader_def HeaderSize_def Let_def split: option.split)
qed

lemma DecodeHeader_short: "length d < 16 \<Longrightarrow>
  DecodeHeader d maxb = Some (Inl (Wrap ''short input'' [Sentinel FrameErrIncomplete]))"
  by (simp add: DecodeHeader_def HeaderSize_def)

text \<open>Every 16-byte prefix is the image of a header, up to the pad byte.\<close>

lemma header_bytes_surj:
  assumes "length d = 16"
  shows "\<exists>h. header_bytes h = d[7 := 0]"
proof -
  from assms obtain a b c e ver ty fl pad f g h i j k l m where
    d: "d = [a, b, c, e, ver, ty, fl, pad, f, g, h, i, j, k, l, m]"
    by (auto simp: numeral_eq_Suc length_Suc_conv)
  obtain mg sq ln where "uint32_be [a, b, c, e] = Some mg" "uint32_be [f, g, h, i] = Some sq"
    "uint32_be [j, k, l, m] = Some ln"
    by (simp add: uint32_be_def)
  then have "put_uint32 mg = [a, b, c, e]" "put_uint32 sq = [f, g, h, i]" "put_uint32 ln = [j, k, l, m]"
    by (simp_all add: put_uint32_be)
  then have "header_bytes \<lparr>gMagic = mg, gVersion = ver, gType = ty, gFlags = fl, gSeq = sq, gLength = ln\<rparr>
      = d[7 := 0]"
    by (simp add: header_bytes_def d numeral_eq_Suc)
  then show ?thesis by blast
qed

lemma pad_irrelevant:
  assumes "16 \<le> length d"
  shows "DecodeHeader (d[7 := 0]) maxb = DecodeHeader d maxb"
  using assms by (simp add: DecodeHeader_def HeaderSize_def slice_def index_at_def drop_update_swap take_update_swap list_update_beyond)

section \<open>Encoding and decoding\<close>

text \<open>What actually goes on the wire for a header and a body: defaults filled in, length set.\<close>

definition on_wire :: "header \<Rightarrow> bytes \<Rightarrow> header" where
  "on_wire h body = (fromGen (with_defaults (toGen h)))\<lparr>hLength := of_nat (length body)\<rparr>"

definition sendable :: "header \<Rightarrow> bytes \<Rightarrow> int \<Rightarrow> bool" where
  "sendable h body maxb \<longleftrightarrow>
     int (length body) \<le> NormalizeMaxBodySize maxb \<and> length body < 2 ^ 32
     \<and> Header_Check (on_wire h body) maxb = None"

lemma toGen_fromGen [simp]: "toGen (fromGen g) = g" "fromGen (toGen h) = h"
  by (simp_all add: toGen_def fromGen_def)

lemma toGen_update_length [simp]: "toGen (h\<lparr>hLength := n\<rparr>) = (toGen h)\<lparr>gLength := n\<rparr>"
  by (simp add: toGen_def)

lemma fromGen_update_length: "fromGen (g\<lparr>gLength := n\<rparr>) = (fromGen g)\<lparr>hLength := n\<rparr>"
  by (simp add: fromGen_def)

lemma Header_Check_None [simp]: "Header_Check h maxb = None \<longleftrightarrow> CheckHeader (toGen h) maxb = None"
  by (simp add: Header_Check_def)

lemma toGen_on_wire: "toGen (on_wire h body) = (with_defaults (toGen h))\<lparr>gLength := of_nat (length body)\<rparr>"
  by (simp add: on_wire_def)

lemma Encode_eq:
  assumes "int (length body) \<le> NormalizeMaxBodySize maxb"
  shows "Encode h body maxb = Some (Inr (header_bytes (toGen (on_wire h body)) @ body))"
  using assms
  by (simp add: Encode_def GenEncode_def PutHeader_replicate toGen_on_wire copy_at_fill
      HeaderSize_def Let_def)

lemma Encode_too_large:
  "NormalizeMaxBodySize maxb < int (length body) \<Longrightarrow> Encode h body maxb = Some (Inl (Msg ''body too large''))"
  by (simp add: Encode_def GenEncode_def Let_def)

lemma hLength_on_wire:
  "length body < 2 ^ 32 \<Longrightarrow> unat (hLength (on_wire h body)) = length body"
  "length body < 2 ^ 32 \<Longrightarrow> unat (gLength (toGen (on_wire h body))) = length body"
  by (simp_all add: on_wire_def toGen_def unat_of_nat_small)

lemma gLength_0_iff: "length body < 2 ^ 32 \<Longrightarrow> gLength (toGen (on_wire h body)) = 0 \<longleftrightarrow> body = []"
  by (metis hLength_on_wire(2) length_0_conv unat_eq_zero)

lemma sendable_decode_header:
  "sendable h body maxb \<Longrightarrow>
     DecodeHeader (header_bytes (toGen (on_wire h body)) @ rest) maxb = Some (Inr (toGen (on_wire h body)))"
  by (simp add: sendable_def DecodeHeader_header_bytes)

lemma Decode_on_wire:
  assumes "sendable h body maxb"
  shows "Decode (header_bytes (toGen (on_wire h body)) @ body @ rest) maxb = Some (Inr (on_wire h body, body))"
proof -
  have len: "length body < 2 ^ 32" using assms by (simp add: sendable_def)
  show ?thesis
    using gLength_0_iff[OF len, of h] hLength_on_wire(2)[OF len, of h]
    by (auto simp: Decode_def GenDecode_def sendable_decode_header[OF assms] HeaderSize_def)
qed

lemma DecodeMessage_on_wire:
  assumes "sendable h body maxb"
  shows "DecodeMessage (header_bytes (toGen (on_wire h body)) @ body) maxb = Some (Inr (on_wire h body, body))"
proof -
  have len: "length body < 2 ^ 32" using assms by (simp add: sendable_def)
  show ?thesis
    using gLength_0_iff[OF len, of h] hLength_on_wire(2)[OF len, of h]
    by (auto simp: DecodeMessage_def GenDecodeMessage_def sendable_decode_header[OF assms] HeaderSize_def)
qed

text \<open>A header that fails its check on the wire fails both decoders, whatever follows it.\<close>

lemma decode_bad_header:
  assumes "Header_Check (on_wire h body) maxb = Some x"
  shows "Decode (header_bytes (toGen (on_wire h body)) @ rest) maxb = Some (Inl x)"
    and "DecodeMessage (header_bytes (toGen (on_wire h body)) @ rest) maxb = Some (Inl x)"
  using assms
  by (auto simp: Decode_def GenDecode_def DecodeMessage_def GenDecodeMessage_def DecodeHeader_header_bytes Header_Check_def HeaderSize_def)

lemma on_wire_fields:
  "hType (on_wire h body) = hType h \<and> hFlags (on_wire h body) = hFlags h \<and> hSeq (on_wire h body) = hSeq h
   \<and> hMagic (on_wire h body) = (if hMagic h = 0 then Magic else hMagic h)
   \<and> hVersion (on_wire h body) = (if hVersion h = 0 then Version else hVersion h)
   \<and> hLength (on_wire h body) = of_nat (length body)"
  by (simp add: on_wire_def with_defaults_def toGen_def fromGen_def Let_def)

text \<open>
  C1: Encoding and then decoding, for every header and body. A body over the limit is refused. Any other
  frame is encoded, header unchecked: with the type, flags and sequence number given, a zero magic
  and version filled in and the body's length. Whether it can be read back is up to that header: when it
  passes its check both decoders give back exactly it and the body, \<open>DecodeMessage\<close> on the exact
  message, \<open>Decode\<close> also with trailing bytes behind it; when it does not, both fail with the check's error.
\<close>

theorem frame_roundtrip:
  assumes "length body < 2 ^ 32"
  shows "if int (length body) > NormalizeMaxBodySize maxb then Encode h body maxb = Some (Inl (Msg ''body too large''))
    else \<exists>msg w. Encode h body maxb = Some (Inr msg) \<and> length msg = HeaderSize + length body
      \<and> w = \<lparr>hMagic = (if hMagic h = 0 then Magic else hMagic h), hVersion = (if hVersion h = 0 then Version else hVersion h),
           hType = hType h, hFlags = hFlags h, hSeq = hSeq h, hLength = of_nat (length body)\<rparr>
      \<and> DecodeMessage msg maxb = Some (case Header_Check w maxb of None \<Rightarrow> Inr (w, body) | Some x \<Rightarrow> Inl x)
      \<and> Decode (msg @ trailing) maxb = Some (case Header_Check w maxb of None \<Rightarrow> Inr (w, body) | Some x \<Rightarrow> Inl x)"
proof (cases "int (length body) > NormalizeMaxBodySize maxb")
  case False
  let ?w = "on_wire h body" and ?msg = "header_bytes (toGen (on_wire h body)) @ body"
  have w: "?w = \<lparr>hMagic = (if hMagic h = 0 then Magic else hMagic h), hVersion = (if hVersion h = 0 then Version else hVersion h),
      hType = hType h, hFlags = hFlags h, hSeq = hSeq h, hLength = of_nat (length body)\<rparr>"
    by (intro header.equality) (simp_all add: on_wire_fields)
  have enc: "Encode h body maxb = Some (Inr ?msg)" using False by (simp add: Encode_eq)
  have dec: "DecodeMessage ?msg maxb = Some (case Header_Check ?w maxb of None \<Rightarrow> Inr (?w, body) | Some x \<Rightarrow> Inl x)
      \<and> Decode (?msg @ trailing) maxb = Some (case Header_Check ?w maxb of None \<Rightarrow> Inr (?w, body) | Some x \<Rightarrow> Inl x)"
  proof (cases "Header_Check ?w maxb")
    case None
    then have "sendable h body maxb" using False assms by (simp add: sendable_def)
    then show ?thesis
      using None Decode_on_wire[of h body maxb trailing] DecodeMessage_on_wire[of h body maxb] by (simp del: Header_Check_None)
  next
    case (Some x)
    then show ?thesis using decode_bad_header[OF Some] by simp
  qed
  show ?thesis
    unfolding if_not_P[OF False]
    by (intro exI[of _ ?msg] exI[of _ ?w] conjI enc w dec[THEN conjunct1] dec[THEN conjunct2]) (simp add: HeaderSize_def)
qed (simp add: Encode_too_large)

theorem frame_roundtrip_witness:
  "\<exists>msg w. Encode \<lparr>hMagic = 0, hVersion = 0, hType = 1, hFlags = 1, hSeq = 7, hLength = 0\<rparr> [1, 2, 3] 0 = Some (Inr msg)
     \<and> DecodeMessage msg 0 = Some (Inr (w, [1, 2, 3])) \<and> hSeq w = 7 \<and> hFlags w = 1 \<and> hLength w = 3"
proof -
  let ?h = "\<lparr>hMagic = 0, hVersion = 0, hType = 1, hFlags = 1, hSeq = 7, hLength = 0\<rparr> :: header"
  have "Header_Check \<lparr>hMagic = Magic, hVersion = Version, hType = 1, hFlags = 1, hSeq = 7, hLength = 3\<rparr> 0 = None"
    by (simp add: toGen_def CheckHeader_def frame_consts NormalizeMaxBodySize_def IsPayloadVersion_def Let_def)
  then show ?thesis
    using frame_roundtrip[of "[1, 2, 3]" 0 ?h "[]"] by (auto simp: NormalizeMaxBodySize_def frame_consts simp del: Header_Check_None)
qed

section \<open>Failure classes of the decoders\<close>

lemma CheckHeader_not_incomplete:
  "CheckHeader g maxb = Some e \<Longrightarrow> \<not> errors_is e FrameErrIncomplete \<and> \<not> errors_is e FrameErrProtocol"
  by (auto simp: CheckHeader_def split: if_splits)

lemma wrapProtocol_incomplete [errs]: "errors_is (wrapProtocol e) FrameErrIncomplete \<longleftrightarrow> errors_is e FrameErrIncomplete"
  by (simp add: wrapProtocol_def)

lemma wrapProtocol_protocol [errs]:
  "\<not> errors_is e FrameErrProtocol \<Longrightarrow> errors_is (wrapProtocol e) FrameErrProtocol \<longleftrightarrow> \<not> errors_is e FrameErrIncomplete"
  by (simp add: wrapProtocol_def)

lemma DecodeHeader_cases:
  obtains (short) "length d < 16" "DecodeHeader d maxb = Some (Inl (Wrap ''short input'' [Sentinel FrameErrIncomplete]))"
  | (bad) e h where "16 \<le> length d" "CheckHeader h maxb = Some e" "DecodeHeader d maxb = Some (Inl e)"
  | (good) h where "16 \<le> length d" "CheckHeader h maxb = None" "DecodeHeader d maxb = Some (Inr h)"
      "header_bytes h = (take 16 d)[7 := 0]"
proof (cases "length d < 16")
  case True
  then show ?thesis by (auto intro: short DecodeHeader_short)
next
  case False
  then have len: "16 \<le> length d" by simp
  then obtain h where h: "header_bytes h = (take 16 d)[7 := 0]"
    using header_bytes_surj[of "take 16 d"] by auto
  have "d[7 := 0] = (take 16 d @ drop 16 d)[7 := 0]" by simp
  also have "\<dots> = header_bytes h @ drop 16 d"
    unfolding h using len by (subst list_update_append1) simp_all
  finally have "d[7 := 0] = header_bytes h @ drop 16 d" .
  then have "DecodeHeader d maxb = Some (case CheckHeader h maxb of Some e \<Rightarrow> Inl e | None \<Rightarrow> Inr h)"
    using DecodeHeader_header_bytes pad_irrelevant[OF len] by metis
  then show ?thesis using len h bad good by (cases "CheckHeader h maxb") auto
qed

lemma slice_body: "HeaderSize + n \<le> length d \<Longrightarrow> slice HeaderSize (HeaderSize + n) d = Some (take n (drop HeaderSize d))"
  by simp

lemma CheckHeader_bound:
  "CheckHeader h maxb = None \<Longrightarrow> int (unat (gLength h)) \<le> NormalizeMaxBodySize maxb"
  by (auto simp: CheckHeader_def simp flip: uint_nat split: if_splits)

lemma Decode_spec:
  obtains e where "Decode d maxb = Some (Inl e)" "errors_is e FrameErrIncomplete \<noteq> errors_is e FrameErrProtocol"
  | h where "16 \<le> length d" "CheckHeader h maxb = None" "DecodeHeader d maxb = Some (Inr h)"
      "16 + unat (gLength h) \<le> length d"
      "Decode d maxb = Some (Inr (fromGen h, take (unat (gLength h)) (drop 16 d)))"
proof (cases d maxb rule: DecodeHeader_cases)
  case short
  then show ?thesis by (auto intro!: that(1) simp: Decode_def GenDecode_def wrapProtocol_def)
next
  case (bad e h)
  then show ?thesis
    using CheckHeader_not_incomplete[of h maxb e]
    by (auto intro!: that(1) simp: Decode_def GenDecode_def wrapProtocol_def)
next
  case (good h)
  show ?thesis
  proof (cases "16 + unat (gLength h) \<le> length d")
    case True
    with good show ?thesis
      by (intro that(2)[of h]) (auto simp: Decode_def GenDecode_def HeaderSize_def)
  next
    case False
    then have "gLength h \<noteq> 0" using good(1) by auto
    with False good show ?thesis
      by (auto intro!: that(1) simp: Decode_def GenDecode_def HeaderSize_def wrapProtocol_def word_gt_0)
  qed
qed

lemma DecodeMessage_spec:
  obtains e where "DecodeMessage d maxb = Some (Inl e)" "errors_is e FrameErrProtocol" "\<not> errors_is e FrameErrIncomplete"
  | h where "CheckHeader h maxb = None" "DecodeHeader d maxb = Some (Inr h)"
      "header_bytes h = (take 16 d)[7 := 0]"
      "length d = 16 + unat (gLength h)" "DecodeMessage d maxb = Some (Inr (fromGen h, drop 16 d))"
proof (cases d maxb rule: DecodeHeader_cases)
  case short
  then show ?thesis by (auto intro!: that(1) simp: DecodeMessage_def GenDecodeMessage_def HeaderSize_def wrapProtocol_def)
next
  case (bad e h)
  then show ?thesis
    using CheckHeader_not_incomplete[of h maxb e]
    by (auto intro!: that(1) simp: DecodeMessage_def GenDecodeMessage_def HeaderSize_def wrapProtocol_def)
next
  case (good h)
  show ?thesis
  proof (cases "length d = 16 + unat (gLength h)")
    case True
    with good show ?thesis
      by (intro that(2)[of h]) (auto simp: DecodeMessage_def GenDecodeMessage_def HeaderSize_def)
  next
    case False
    with good show ?thesis
      by (auto intro!: that(1) simp: DecodeMessage_def GenDecodeMessage_def HeaderSize_def wrapProtocol_def)
  qed
qed

text \<open>
  C2: On any bytes whatsoever the datagram and the message decoder return (no slice is out
  of bounds), and a failure has exactly one of the two classes the transports branch on: a
  message failure is always a protocol error, a datagram failure is \<open>ErrIncomplete\<close>
  when bytes are missing and a protocol error otherwise.
\<close>

theorem decode_total_classified:
  "(\<exists>r. Decode d maxb = Some r
      \<and> (case r of Inl e \<Rightarrow> errors_is e FrameErrIncomplete \<noteq> errors_is e FrameErrProtocol
         | Inr (h, body) \<Rightarrow> length body = unat (hLength h) \<and> int (length body) \<le> NormalizeMaxBodySize maxb))
   \<and> (\<exists>r. DecodeMessage d maxb = Some r
      \<and> (case r of Inl e \<Rightarrow> errors_is e FrameErrProtocol \<and> \<not> errors_is e FrameErrIncomplete
         | Inr (h, body) \<Rightarrow> length body = unat (hLength h) \<and> length d = HeaderSize + length body))"
proof
  show "\<exists>r. Decode d maxb = Some r
      \<and> (case r of Inl e \<Rightarrow> errors_is e FrameErrIncomplete \<noteq> errors_is e FrameErrProtocol
         | Inr (h, body) \<Rightarrow> length body = unat (hLength h) \<and> int (length body) \<le> NormalizeMaxBodySize maxb)"
    by (rule Decode_spec[of d maxb]) (auto simp: fromGen_def dest: CheckHeader_bound)
  show "\<exists>r. DecodeMessage d maxb = Some r
      \<and> (case r of Inl e \<Rightarrow> errors_is e FrameErrProtocol \<and> \<not> errors_is e FrameErrIncomplete
         | Inr (h, body) \<Rightarrow> length body = unat (hLength h) \<and> length d = HeaderSize + length body)"
    by (rule DecodeMessage_spec[of d maxb]) (auto simp: fromGen_def HeaderSize_def)
qed

text \<open>
  The wire form is canonical: re-encoding what the message decoder accepted gives back
  the message byte for byte, except for the pad byte 7, which the encoder always clears.
\<close>

theorem decode_encode_canonical:
  assumes "DecodeMessage msg maxb = Some (Inr (h, body))"
  shows "Encode h body maxb = Some (Inr (msg[7 := 0]))"
proof -
  obtain g where chk: "CheckHeader g maxb = None" and hb: "header_bytes g = (take 16 msg)[7 := 0]"
    and len: "length msg = 16 + unat (gLength g)" and hg: "h = fromGen g" and body: "body = drop 16 msg"
    using assms by (rule_tac DecodeMessage_spec[of msg maxb]) auto
  have nz: "gMagic g \<noteq> 0" "gVersion g \<noteq> 0"
    using chk by (auto simp: CheckHeader_def frame_consts IsPayloadVersion_def split: if_splits)
  have "toGen (on_wire h body) = g"
    using nz len by (simp add: hg body toGen_on_wire with_defaults_def)
  moreover have "int (length body) \<le> NormalizeMaxBodySize maxb"
    using CheckHeader_bound[OF chk] len body by simp
  moreover have "msg[7 := 0] = header_bytes g @ body"
  proof -
    have "(take 16 msg @ drop 16 msg)[7 := 0] = (take 16 msg)[7 := 0] @ drop 16 msg"
      using len by (subst list_update_append1) simp_all
    then show ?thesis by (simp add: hb body)
  qed
  ultimately show ?thesis by (simp add: Encode_eq)
qed

theorem decode_encode_canonical_witness:
  "\<exists>h. DecodeMessage ([0x41, 0x54, 0x4C, 0x53, 2, 3, 0, 9, 0, 0, 0, 5, 0, 0, 0, 1, 42]) 0 = Some (Inr (h, [42]))
     \<and> Encode h [42] 0 = Some (Inr [0x41, 0x54, 0x4C, 0x53, 2, 3, 0, 0, 0, 0, 0, 5, 0, 0, 0, 1, 42])"
proof -
  let ?m = "[0x41, 0x54, 0x4C, 0x53, 2, 3, 0, 9, 0, 0, 0, 5, 0, 0, 0, 1, 42] :: bytes"
  have "DecodeMessage ?m 0 = Some (Inr (\<lparr>hMagic = Magic, hVersion = 2, hType = 3, hFlags = 0, hSeq = 5, hLength = 1\<rparr>, [42]))"
    by code_simp
  from this decode_encode_canonical[OF this] show ?thesis by auto
qed

section \<open>Frames on a byte stream\<close>

text \<open>Writing a list of frames, and reading as many as asked for.\<close>

fun write_all :: "writer \<Rightarrow> (header \<times> bytes) list \<Rightarrow> int \<Rightarrow> (err option \<times> writer) option" where
  "write_all w [] maxb = Some (None, w)"
| "write_all w ((h, b) # fs) maxb =
     do { r \<leftarrow> Write w h b maxb;
          (case r of (Some e, w) \<Rightarrow> Some (Some e, w) | (None, w) \<Rightarrow> write_all w fs maxb) }"

fun read_n :: "nat \<Rightarrow> reader \<Rightarrow> int \<Rightarrow> ((err + (header \<times> bytes) list) \<times> reader) option" where
  "read_n 0 r maxb = Some (Inr [], r)"
| "read_n (Suc n) r maxb =
     do { x \<leftarrow> Read r maxb;
          (case x of
             (Inl e, r) \<Rightarrow> Some (Inl e, r)
           | (Inr f, r) \<Rightarrow>
               do { y \<leftarrow> read_n n r maxb;
                    (case y of (Inl e, r) \<Rightarrow> Some (Inl e, r) | (Inr fs, r) \<Rightarrow> Some (Inr (f # fs), r)) }) }"

definition frame_bytes :: "header \<times> bytes \<Rightarrow> bytes" where
  "frame_bytes f = header_bytes (toGen (on_wire (fst f) (snd f))) @ snd f"

lemma Write_eq:
  assumes "int (length body) \<le> NormalizeMaxBodySize maxb" and "outcomes w = []"
  shows "\<exists>ws. Write w h body maxb = Some (None, w\<lparr>written := written w @ ws\<rparr>) \<and> concat ws = frame_bytes (h, body)"
proof -
  have limit: "\<not> int (length body) > (if maxb \<le> 0 then MaxBodySize else maxb)"
    using assms(1) by (auto simp: NormalizeMaxBodySize_def)
  let ?h = "(if hMagic h = 0 then h\<lparr>hMagic := Magic\<rparr> else h)"
  let ?h2 = "(if hVersion ?h = 0 then ?h\<lparr>hVersion := Version\<rparr> else ?h)"
  have hdr: "toGen (?h2\<lparr>hLength := of_nat (length body)\<rparr>) = toGen (on_wire h body)"
    by (auto simp: on_wire_def toGen_def fromGen_def with_defaults_def Let_def)
  show ?thesis
    unfolding Write_def Let_def hdr PutHeader_replicate[of HeaderSize, unfolded HeaderSize_def, simplified]
    using limit assms(2)
    by (auto simp: HeaderSize_def PutHeader_replicate writevBuffers_def write_call_def frame_bytes_def)
qed

lemma Read_frame_bytes:
  assumes "sendable h body maxb"
  shows "Read (r\<lparr>pending := frame_bytes (h, body) @ rest\<rparr>) maxb = Some (Inr (on_wire h body, body), r\<lparr>pending := rest\<rparr>)"
proof -
  have len: "length body < 2 ^ 32" using assms by (simp add: sendable_def)
  have "hLength (on_wire h body) = gLength (toGen (on_wire h body))" by (simp add: toGen_def)
  then show ?thesis
    using gLength_0_iff[OF len, of h] hLength_on_wire(1)[OF len, of h]
      sendable_decode_header[OF assms, of "[]"]
    by (simp add: Read_def readHeader_def ReadFull_def frame_bytes_def HeaderSize_def)
qed

lemma write_all_eq:
  assumes "\<forall>f \<in> set fs. int (length (snd f)) \<le> NormalizeMaxBodySize maxb" and "outcomes w = []"
  shows "\<exists>ws. write_all w fs maxb = Some (None, w\<lparr>written := written w @ ws\<rparr>)
    \<and> concat ws = concat (map frame_bytes fs)"
  using assms
proof (induction fs arbitrary: w)
  case Nil
  then show ?case by (intro exI[of _ "[]"]) simp
next
  case (Cons f fs)
  obtain h b where f: "f = (h, b)" by (cases f)
  from Cons.prems f obtain ws where w1: "Write w h b maxb = Some (None, w\<lparr>written := written w @ ws\<rparr>)"
    and c1: "concat ws = frame_bytes f"
    using Write_eq[of b maxb w h] by auto
  from Cons.prems Cons.IH[of "w\<lparr>written := written w @ ws\<rparr>"] obtain ws' where
    w2: "write_all (w\<lparr>written := written w @ ws\<rparr>) fs maxb = Some (None, w\<lparr>written := written w @ ws @ ws'\<rparr>)"
    and c2: "concat ws' = concat (map frame_bytes fs)"
    by auto
  show ?case
    by (intro exI[of _ "ws @ ws'"]) (simp add: f w1 w2 c1[unfolded f] c2)
qed

lemma read_n_frames:
  assumes "\<forall>f \<in> set fs. sendable (fst f) (snd f) maxb"
  shows "read_n (length fs) (r\<lparr>pending := concat (map frame_bytes fs) @ rest\<rparr>) maxb
    = Some (Inr (map (\<lambda>(h, b). (on_wire h b, b)) fs), r\<lparr>pending := rest\<rparr>)"
  using assms
proof (induction fs)
  case (Cons f fs)
  obtain h b where f: "f = (h, b)" by (cases f)
  have "Read (r\<lparr>pending := frame_bytes f @ concat (map frame_bytes fs) @ rest\<rparr>) maxb
      = Some (Inr (on_wire h b, b), r\<lparr>pending := concat (map frame_bytes fs) @ rest\<rparr>)"
    using Cons.prems Read_frame_bytes[of h b maxb, where r = r] by (simp add: f)
  with Cons show ?case by (simp add: f)
qed simp

text \<open>
  Stream framing: however the writer cuts its writes (one gathered write per frame or
  header and body apart), the reader at the other end of a reliable byte stream gets back
  exactly the frames written, in order, and stops right behind the last of them.
\<close>

theorem stream_framing:
  assumes "\<forall>f \<in> set fs. sendable (fst f) (snd f) maxb"
  shows "\<exists>w'. write_all \<lparr>gathers = g, written = [], outcomes = []\<rparr> fs maxb = Some (None, w')
    \<and> read_n (length fs) \<lparr>pending = concat (written w') @ rest, fault = f\<rparr> maxb
       = Some (Inr (map (\<lambda>(h, b). (on_wire h b, b)) fs), \<lparr>pending = rest, fault = f\<rparr>)"
proof -
  have "\<forall>f \<in> set fs. int (length (snd f)) \<le> NormalizeMaxBodySize maxb"
    using assms by (auto simp: sendable_def)
  then obtain ws where "write_all \<lparr>gathers = g, written = [], outcomes = []\<rparr> fs maxb
      = Some (None, \<lparr>gathers = g, written = ws, outcomes = []\<rparr>)"
    and "concat ws = concat (map frame_bytes fs)"
    using write_all_eq[of fs maxb "\<lparr>gathers = g, written = [], outcomes = []\<rparr>"] by auto
  then show ?thesis
    using read_n_frames[OF assms, where r = "\<lparr>pending = [], fault = f\<rparr>" and rest = rest] by auto
qed

theorem stream_framing_witness:
  "\<exists>w'. write_all \<lparr>gathers = False, written = [], outcomes = []\<rparr>
       [(\<lparr>hMagic = 0, hVersion = 2, hType = 1, hFlags = 0, hSeq = 1, hLength = 0\<rparr>, [8]),
        (\<lparr>hMagic = 0, hVersion = 0, hType = 1, hFlags = 0, hSeq = 2, hLength = 0\<rparr>, [])] 64 = Some (None, w')
     \<and> read_n 2 \<lparr>pending = concat (written w') @ [7], fault = Sentinel EOF\<rparr> 64
       = Some (Inr [(\<lparr>hMagic = Magic, hVersion = 2, hType = 1, hFlags = 0, hSeq = 1, hLength = 1\<rparr>, [8]),
           (\<lparr>hMagic = Magic, hVersion = 1, hType = 1, hFlags = 0, hSeq = 2, hLength = 0\<rparr>, [])],
           \<lparr>pending = [7], fault = Sentinel EOF\<rparr>)"
proof -
  let ?fs = "[(\<lparr>hMagic = 0, hVersion = 2, hType = 1, hFlags = 0, hSeq = 1, hLength = 0\<rparr>, [8]),
        (\<lparr>hMagic = 0, hVersion = 0, hType = 1, hFlags = 0, hSeq = 2, hLength = 0\<rparr>, [])]"
  have "\<forall>f \<in> set ?fs. sendable (fst f) (snd f) 64"
    by (simp add: sendable_def on_wire_def with_defaults_def toGen_def fromGen_def CheckHeader_def
        frame_consts NormalizeMaxBodySize_def IsPayloadVersion_def Let_def)
  from stream_framing[OF this, of False "[7]" "Sentinel EOF"] show ?thesis
    by (simp add: on_wire_def with_defaults_def toGen_def fromGen_def frame_consts Let_def numeral_2_eq_2)
qed

section \<open>The stream reader is the datagram decoder\<close>

lemma DecodeHeader_take: "16 \<le> length d \<Longrightarrow> DecodeHeader (take 16 d) maxb = DecodeHeader d maxb"
  by (simp add: DecodeHeader_def HeaderSize_def slice_def index_at_def drop_take)

text \<open>
  C7: Reading a frame from a stream is decoding the bytes to come: a frame that decodes is returned
  and consumed, and nothing behind it; bytes that can never be a frame fail with the decoder's
  error right behind the header, before a body is waited for; and only when the decoder calls the bytes
  incomplete does the read wait, and fails with what the connection reports when they run out, an
  end of file after some bytes of a header or a body being an unexpected one.
\<close>

theorem stream_reads_as_decoder:
  "\<exists>d. Decode p maxb = Some d \<and> Read \<lparr>pending = p, fault = f\<rparr> maxb = Some
    (case d of
       Inr (h, body) \<Rightarrow> (Inr (h, body), \<lparr>pending = drop (16 + length body) p, fault = f\<rparr>)
     | Inl e \<Rightarrow>
         if errors_is e FrameErrIncomplete
         then (Inl (if length p \<noteq> 0 \<and> length p \<noteq> 16 \<and> f = Sentinel EOF then Sentinel ErrUnexpectedEOF else f),
               \<lparr>pending = [], fault = f\<rparr>)
         else (Inl e, \<lparr>pending = drop 16 p, fault = f\<rparr>))"
proof (cases p maxb rule: DecodeHeader_cases)
  case short
  then show ?thesis
    by (auto simp: Decode_def GenDecode_def Read_def readHeader_def ReadFull_def HeaderSize_def wrapProtocol_def)
next
  case (bad e h)
  then show ?thesis
    using CheckHeader_not_incomplete[of h maxb e] DecodeHeader_take[of p maxb]
    by (auto simp: Decode_def GenDecode_def Read_def readHeader_def ReadFull_def HeaderSize_def wrapProtocol_def)
next
  case (good h)
  note header = good(1,3) DecodeHeader_take[OF good(1), of maxb]
  have n: "gLength h = 0 \<longleftrightarrow> unat (gLength h) = 0" by (simp add: unat_eq_0)
  show ?thesis
  proof (cases "16 + unat (gLength h) \<le> length p")
    case True
    then show ?thesis
      using header n by (auto simp: Decode_def GenDecode_def Read_def readHeader_def ReadFull_def HeaderSize_def fromGen_def add.commute)
  next
    case False
    then show ?thesis
      using header n by (auto simp: Decode_def GenDecode_def Read_def readHeader_def ReadFull_def HeaderSize_def fromGen_def
          wrapProtocol_def word_gt_0)
  qed
qed

end
