(* ===== verification/Body.thy ===== *)
theory Body
  imports FrameCodec
begin

text \<open>
  The request body \<open>frame/body.go\<close>: operation name, optional session slot, optional
  idempotency key and payload in one buffer, each of the first three behind a 16-bit
  length. The builder works as the code does, on a zeroed buffer with running offsets.
\<close>

section \<open>Building\<close>

definition put_uint16_at :: "nat \<Rightarrow> u16 \<Rightarrow> bytes \<Rightarrow> bytes option" where
  "put_uint16_at p v b = (if p + 2 \<le> length b then Some (copy_at p (put_uint16 v) b) else None)"

definition copy_from :: "nat \<Rightarrow> bytes \<Rightarrow> bytes \<Rightarrow> bytes option" where
  "copy_from p src b = (if p \<le> length b then Some (copy_at p src b) else None)"

definition put_segment :: "nat \<Rightarrow> bytes \<Rightarrow> bytes \<Rightarrow> (bytes \<times> nat) option" where
  "put_segment p s b =
     (if s = [] then Some (b, p)
      else do {
        b \<leftarrow> put_uint16_at p (of_nat (length s)) b;
        b \<leftarrow> copy_from (p + 2) s b;
        Some (b, p + (2 + length s))
      })"

definition buildRequestBody :: "bytes \<Rightarrow> bytes \<Rightarrow> bytes \<Rightarrow> bytes \<Rightarrow> (err + bytes) option" where
  "buildRequestBody operation session requestID payload =
     (if length operation = 0 then Some (Inl (Msg ''empty operation''))
      else if length operation > MaxOperationLen then Some (Inl (Msg ''operation too long''))
      else if length session > MaxSessionLen then Some (Inl (Msg ''session too long''))
      else if length requestID > MaxRequestIDLen then Some (Inl (Msg ''requestID too long''))
      else
        let n = 2 + length operation + length payload;
            n = (if session \<noteq> [] then n + (2 + length session) else n);
            n = (if requestID \<noteq> [] then n + (2 + length requestID) else n)
        in do {
          body \<leftarrow> put_uint16_at 0 (of_nat (length operation)) (replicate n 0);
          body \<leftarrow> copy_from 2 operation body;
          (body, p) \<leftarrow> put_segment (2 + length operation) session body;
          (body, p) \<leftarrow> put_segment p requestID body;
          body \<leftarrow> copy_from p payload body;
          Some (Inr body)
        })"

definition BuildRequestBody :: "bytes \<Rightarrow> bytes \<Rightarrow> (err + bytes) option" where
  "BuildRequestBody operation payload = buildRequestBody operation [] [] payload"

definition BuildRequestBodyWithSession :: "bytes \<Rightarrow> bytes \<Rightarrow> bytes \<Rightarrow> bytes \<Rightarrow> (err + bytes) option" where
  "BuildRequestBodyWithSession operation session requestID payload =
     buildRequestBody operation session requestID payload"

definition BuildRequestBodyFull :: "bytes \<Rightarrow> bytes \<Rightarrow> bytes \<Rightarrow> bytes \<Rightarrow> (err + bytes) option" where
  "BuildRequestBodyFull operation session requestID payload =
     buildRequestBody operation session requestID payload"

section \<open>Parsing\<close>

abbreviation protocol_err :: "string \<Rightarrow> err" where
  "protocol_err m \<equiv> Wrap m [Sentinel FrameErrProtocol]"

text \<open>One optional segment behind the flag bit that announces it.\<close>

definition take_segment :: "bool \<Rightarrow> bytes \<Rightarrow> (err + bytes \<times> bytes) option" where
  "take_segment present rest =
     (if \<not> present then Some (Inr ([], rest))
      else if length rest < 2 then Some (Inl (protocol_err ''segment length missing''))
      else do {
        l \<leftarrow> slice 0 2 rest; v \<leftarrow> uint16_be l;
        let sLen = unat v;
        (if length rest < 2 + sLen then Some (Inl (protocol_err ''segment truncated''))
         else do {
           s \<leftarrow> slice 2 (2 + sLen) rest;
           rest \<leftarrow> slice_from (2 + sLen) rest;
           Some (Inr (s, rest))
         })
      })"

definition parseRequestBody :: "bytes \<Rightarrow> byte \<Rightarrow> (err + bytes \<times> bytes \<times> bytes \<times> bytes) option" where
  "parseRequestBody body flags =
     (if length body < 2 then Some (Inl (protocol_err ''body too short''))
      else do {
        l \<leftarrow> slice 0 2 body; v \<leftarrow> uint16_be l;
        let opLen = unat v;
        (if opLen > MaxOperationLen then Some (Inl (protocol_err ''operation too long''))
         else if length body < 2 + opLen then Some (Inl (protocol_err ''operation truncated''))
         else do {
           op \<leftarrow> slice 2 (2 + opLen) body;
           rest \<leftarrow> slice_from (2 + opLen) body;
           r \<leftarrow> take_segment (flags AND FlagSession \<noteq> 0) rest;
           (case r of
              Inl e \<Rightarrow> Some (Inl e)
            | Inr (session, rest) \<Rightarrow>
                do {
                  r \<leftarrow> take_segment (flags AND FlagRequestID \<noteq> 0) rest;
                  (case r of
                     Inl e \<Rightarrow> Some (Inl e)
                   | Inr (requestID, rest) \<Rightarrow> Some (Inr (op, session, requestID, rest)))
                })
         })
      })"

definition ParseRequestBody :: "bytes \<Rightarrow> (err + bytes \<times> bytes) option" where
  "ParseRequestBody body = map_option (map_sum id (\<lambda>(op, _, _, p). (op, p))) (parseRequestBody body 0)"

definition ParseRequestBodyWithSession :: "bytes \<Rightarrow> byte \<Rightarrow> (err + bytes \<times> bytes \<times> bytes) option" where
  "ParseRequestBodyWithSession body flags =
     map_option (map_sum id (\<lambda>(op, s, _, p). (op, s, p))) (parseRequestBody body flags)"

definition ParseRequestBodyFull :: "bytes \<Rightarrow> byte \<Rightarrow> (err + bytes \<times> bytes \<times> bytes \<times> bytes) option" where
  "ParseRequestBodyFull body flags = parseRequestBody body flags"

section \<open>The layout\<close>

definition segment :: "bytes \<Rightarrow> bytes" where
  "segment s = put_uint16 (of_nat (length s)) @ s"

definition opt_segment :: "bytes \<Rightarrow> bytes" where
  "opt_segment s = (if s = [] then [] else segment s)"

lemma length_opt_segment: "length (opt_segment s) = (if s = [] then 0 else 2 + length s)"
  by (simp add: opt_segment_def segment_def)

lemma length_segment: "length (segment s) = 2 + length s"
  by (simp add: segment_def)

lemma put_segment_eq:
  assumes "length xs = p" and "length ys = length (opt_segment s) + k"
  shows "put_segment p s (xs @ ys)
    = Some (xs @ opt_segment s @ drop (length (opt_segment s)) ys, p + length (opt_segment s))"
proof (cases "s = []")
  case False
  let ?h = "put_uint16 (of_nat (length s))"
  have "copy_at p ?h (xs @ ys) = (xs @ ?h) @ drop 2 ys"
    using assms False by (simp add: copy_at_append length_opt_segment)
  moreover have "copy_at (p + 2) s ((xs @ ?h) @ drop 2 ys) = (xs @ ?h) @ s @ drop (length s) (drop 2 ys)"
    by (rule copy_at_append) (use assms False in \<open>simp_all add: length_opt_segment\<close>)
  ultimately show ?thesis
    using assms False
    by (simp add: put_segment_def put_uint16_at_def copy_from_def opt_segment_def segment_def add.commute)
qed (simp add: put_segment_def opt_segment_def)

definition body_ok :: "bytes \<Rightarrow> bytes \<Rightarrow> bytes \<Rightarrow> bool" where
  "body_ok op s r \<longleftrightarrow> op \<noteq> [] \<and> length op \<le> MaxOperationLen \<and> length s \<le> MaxSessionLen
     \<and> length r \<le> MaxRequestIDLen"

lemma buildRequestBody_eq:
  assumes "body_ok op s r"
  shows "buildRequestBody op s r payload
    = Some (Inr (segment op @ opt_segment s @ opt_segment r @ payload))"
proof -
  let ?n = "2 + length op + length payload + length (opt_segment s) + length (opt_segment r)"
  let ?k = "length (opt_segment s) + (length (opt_segment r) + length payload)"
  have n: "(if r \<noteq> [] then (if s \<noteq> [] then 2 + length op + length payload + (2 + length s)
        else 2 + length op + length payload) + (2 + length r)
      else (if s \<noteq> [] then 2 + length op + length payload + (2 + length s)
        else 2 + length op + length payload)) = ?n"
    by (simp add: length_opt_segment)
  have first: "put_segment 0 op ([] @ replicate ?n 0) = Some ([] @ segment op @ replicate ?k 0, 2 + length op)"
    using assms put_segment_eq[of "[]" 0 "replicate ?n 0" op ?k]
    by (simp add: body_ok_def opt_segment_def segment_def)
  have second: "put_segment (2 + length op) s (segment op @ replicate ?k 0)
      = Some ((segment op @ opt_segment s) @ replicate (length (opt_segment r) + length payload) 0,
          2 + length op + length (opt_segment s))"
    using put_segment_eq[of "segment op" "2 + length op" "replicate ?k 0" s] by (simp add: segment_def)
  have third: "put_segment (2 + length op + length (opt_segment s)) r
      ((segment op @ opt_segment s) @ replicate (length (opt_segment r) + length payload) 0)
      = Some ((segment op @ opt_segment s @ opt_segment r) @ replicate (length payload) 0,
          2 + length op + length (opt_segment s) + length (opt_segment r))"
    using put_segment_eq[of "segment op @ opt_segment s" "2 + length op + length (opt_segment s)"
        "replicate (length (opt_segment r) + length payload) 0" r]
    by (simp add: segment_def)
  have fourth: "copy_from (2 + length op + length (opt_segment s) + length (opt_segment r)) payload
      ((segment op @ opt_segment s @ opt_segment r) @ replicate (length payload) 0)
      = Some (segment op @ opt_segment s @ opt_segment r @ payload)"
    using copy_at_fill[of "segment op @ opt_segment s @ opt_segment r" _ payload "replicate (length payload) 0"]
    by (simp add: copy_from_def segment_def add.assoc)
  have op: "put_uint16_at 0 (of_nat (length op)) (replicate ?n 0) \<bind> copy_from 2 op
      = Some (segment op @ replicate ?k 0)"
    using first assms
    by (auto simp: put_segment_def body_ok_def numeral_2_eq_2 bind_eq_Some_conv split: if_splits Option.bind_splits)
  have "buildRequestBody op s r payload = do {
      body \<leftarrow> put_uint16_at 0 (of_nat (length op)) (replicate ?n 0) \<bind> copy_from 2 op;
      (body, p) \<leftarrow> put_segment (2 + length op) s body;
      (body, p) \<leftarrow> put_segment p r body;
      body \<leftarrow> copy_from p payload body;
      Some (Inr body) }"
    using assms unfolding buildRequestBody_def body_ok_def Let_def n by simp
  then show ?thesis
    unfolding op using second third fourth by simp
qed

lemma take_segment_segment:
  assumes "length s < 2 ^ 16"
  shows "take_segment True (segment s @ rest) = Some (Inr (s, rest))"
proof -
  have "unat (of_nat (length s) :: u16) = length s" using assms by (simp add: unat_of_nat)
  moreover have "slice 0 2 (segment s @ rest) = Some (put_uint16 (of_nat (length s)))"
    by (simp add: segment_def slice_def)
  ultimately show ?thesis
    by (simp add: take_segment_def segment_def Let_def)
qed

lemma take_segment_absent [simp]: "take_segment False rest = Some (Inr ([], rest))"
  by (simp add: take_segment_def)

lemma take_segment_opt:
  "length s < 2 ^ 16 \<Longrightarrow> take_segment (s \<noteq> []) (opt_segment s @ rest) = Some (Inr (s, rest))"
  by (cases "s = []") (simp_all add: opt_segment_def take_segment_segment)

text \<open>The parser, seen as three segments and a remainder.\<close>

lemma take_segment_cases:
  obtains e where "take_segment p b = Some (Inl e)" "errors_is e FrameErrProtocol" "\<not> errors_is e FrameErrIncomplete"
  | s rest where "take_segment p b = Some (Inr (s, rest))" "b = (if p then segment s else []) @ rest"
      "length s < 2 ^ 16" "\<not> p \<Longrightarrow> s = []"
proof (cases "p \<and> 2 \<le> length b")
  case False
  then show ?thesis
    by (cases p) (auto simp: take_segment_def intro: that)
next
  case True
  then obtain v where v: "uint16_be (take 2 b) = Some v"
    using uint_be_total(1)[of "take 2 b"] by auto
  then have put: "put_uint16 v = take 2 b" using True by (simp add: put_uint16_be)
  have lt: "unat v < 2 ^ 16" using unsigned_less[of v] by simp
  show ?thesis
  proof (cases "length b < 2 + unat v")
    case True
    with v \<open>p \<and> 2 \<le> length b\<close> show ?thesis
      by (intro that(1)) (auto simp: take_segment_def Let_def)
  next
    case len: False
    let ?s = "take (unat v) (drop 2 b)"
    have "b = take 2 b @ ?s @ drop (2 + unat v) b"
      by (metis append_take_drop_id drop_drop add.commute)
    moreover have "put_uint16 (of_nat (length ?s)) = take 2 b" using len put by simp
    ultimately have "b = segment ?s @ drop (2 + unat v) b" unfolding segment_def by simp
    with v True len lt show ?thesis
      by (intro that(2)[of ?s "drop (2 + unat v) b"]) (auto simp: take_segment_def Let_def)
  qed
qed

definition parse_tail :: "bytes \<Rightarrow> bytes \<Rightarrow> byte \<Rightarrow> (err + bytes \<times> bytes \<times> bytes \<times> bytes) option" where
  "parse_tail op rest flags =
     do {
       r \<leftarrow> take_segment (flags AND FlagSession \<noteq> 0) rest;
       (case r of
          Inl e \<Rightarrow> Some (Inl e)
        | Inr (session, rest) \<Rightarrow>
            do {
              r \<leftarrow> take_segment (flags AND FlagRequestID \<noteq> 0) rest;
              (case r of
                 Inl e \<Rightarrow> Some (Inl e)
               | Inr (requestID, rest) \<Rightarrow> Some (Inr (op, session, requestID, rest)))
            })
     }"

lemma parse_segment:
  assumes "length op < 2 ^ 16"
  shows "parseRequestBody (segment op @ rest) flags =
    (if length op > MaxOperationLen then Some (Inl (protocol_err ''operation too long''))
     else parse_tail op rest flags)"
proof -
  have u: "unat (of_nat (length op) :: u16) = length op" using assms by (simp add: unat_of_nat)
  have s: "slice 0 2 (segment op @ rest) = Some (put_uint16 (of_nat (length op)))"
    "slice 2 (2 + length op) (segment op @ rest) = Some op"
    "slice_from (2 + length op) (segment op @ rest) = Some rest"
    "length (segment op @ rest) = 2 + length op + length rest"
    by (simp_all add: segment_def slice_def slice_from_def)
  show ?thesis
    unfolding parseRequestBody_def parse_tail_def s Let_def
    by (simp add: u s del: add_2_eq_Suc add_2_eq_Suc')
qed

lemma parse_bad_head:
  assumes "take_segment True b = Some (Inl e)"
  shows "\<exists>e. parseRequestBody b flags = Some (Inl e) \<and> errors_is e FrameErrProtocol"
proof (cases "length b < 2")
  case True
  then show ?thesis by (simp add: parseRequestBody_def)
next
  case False
  then obtain v where "uint16_be (take 2 b) = Some v"
    using uint_be_total(1)[of "take 2 b"] by auto
  with False assms show ?thesis
    by (auto simp: take_segment_def parseRequestBody_def Let_def split: if_splits)
qed


definition body_flags :: "bytes \<Rightarrow> bytes \<Rightarrow> byte" where
  "body_flags s r = (if s = [] then 0 else FlagSession) OR (if r = [] then 0 else FlagRequestID)"

lemma body_flags_bits [simp]:
  "body_flags s r AND FlagSession \<noteq> 0 \<longleftrightarrow> s \<noteq> []"
  "body_flags s r AND FlagRequestID \<noteq> 0 \<longleftrightarrow> r \<noteq> []"
  by (simp_all add: body_flags_def FlagSession_def FlagRequestID_def)

lemma body_round:
  assumes "body_ok op s r"
  shows "\<exists>b. BuildRequestBodyFull op s r payload = Some (Inr b)
    \<and> length b = 2 + length op + (if s = [] then 0 else 2 + length s)
                  + (if r = [] then 0 else 2 + length r) + length payload
    \<and> ParseRequestBodyFull b (body_flags s r) = Some (Inr (op, s, r, payload))"
proof -
  have lens: "length op < 2 ^ 16" "length s < 2 ^ 16" "length r < 2 ^ 16" "\<not> MaxOperationLen < length op"
    using assms by (simp_all add: body_ok_def frame_consts)
  show ?thesis
    using lens
    by (simp add: BuildRequestBodyFull_def buildRequestBody_eq[OF assms] ParseRequestBodyFull_def
        parse_segment parse_tail_def take_segment_opt length_opt_segment length_segment)
qed

text \<open>
  C8: Body round trip: for a non-empty operation and segments within their limits the
  builder succeeds without an index out of range, fills its buffer exactly, and the parser,
  given the flag bits of the segments that are present, returns the same four parts.
\<close>

theorem body_roundtrip:
  assumes "body_ok op s r"
  shows "\<exists>b. BuildRequestBodyFull op s r payload = Some (Inr b)
    \<and> length b = 2 + length op + (if s = [] then 0 else 2 + length s)
                  + (if r = [] then 0 else 2 + length r) + length payload
    \<and> ParseRequestBodyFull b (body_flags s r) = Some (Inr (op, s, r, payload))"
  using assms by (rule body_round)

theorem body_roundtrip_witness:
  "\<exists>b. BuildRequestBodyFull [47, 97] [] [1, 2, 3] [9] = Some (Inr b) \<and> length b = 10
     \<and> ParseRequestBodyFull b 2 = Some (Inr ([47, 97], [], [1, 2, 3], [9]))"
  using body_roundtrip[of "[47, 97]" "[]" "[1, 2, 3]" "[9]"]
  by (simp add: body_ok_def body_flags_def frame_consts)

lemma take_segment_total: "\<exists>r. take_segment p b = Some r"
  by (cases p b rule: take_segment_cases) auto

lemma parse_tail_total: "\<exists>r. parse_tail op rest flags = Some r"
proof -
  obtain r1 where r1: "take_segment (flags AND FlagSession \<noteq> 0) rest = Some r1" using take_segment_total by blast
  obtain r2 where "take_segment (flags AND FlagRequestID \<noteq> 0) (snd (projr r1)) = Some r2"
    using take_segment_total by blast
  with r1 show ?thesis by (cases r1; cases r2) (auto simp: parse_tail_def)
qed

lemma BuildRequestBodyFull_bad:
  assumes "\<not> body_ok op s rid"
  shows "\<exists>x. BuildRequestBodyFull op s rid p = Some (Inl x)"
proof -
  have "length op = 0 \<or> length op > MaxOperationLen \<or> length s > MaxSessionLen \<or> length rid > MaxRequestIDLen"
    using assms by (auto simp: body_ok_def not_le)
  then show ?thesis
    unfolding BuildRequestBodyFull_def buildRequestBody_def by (auto simp del: length_0_conv)
qed

lemma parseRequestBody_total: "\<exists>r. parseRequestBody b flags = Some r"
proof (cases True b rule: take_segment_cases)
  case (1 e)
  then show ?thesis using parse_bad_head[of b e flags] by auto
next
  case (2 op rest)
  then show ?thesis using parse_tail_total[of op rest flags] by (simp add: parse_segment)
qed

text \<open>
  The parser never panics and never invents bytes: on any input and any flags it returns
  either a protocol error, or the parts whose layout is the input exactly, with the
  operation within its limit and an absent segment empty.
\<close>

theorem body_parse_total:
  "\<exists>x. ParseRequestBodyFull b flags = Some x
    \<and> (case x of
         Inl e \<Rightarrow> errors_is e FrameErrProtocol
       | Inr (op, s, r, payload) \<Rightarrow>
           length op \<le> MaxOperationLen
         \<and> b = segment op @ (if flags AND FlagSession \<noteq> 0 then segment s else [])
               @ (if flags AND FlagRequestID \<noteq> 0 then segment r else []) @ payload
         \<and> (if flags AND FlagSession = 0 then s = [] else length s < 65536)
         \<and> (if flags AND FlagRequestID = 0 then r = [] else length r < 65536))"
proof (cases True b rule: take_segment_cases)
  case (1 e)
  then show ?thesis using parse_bad_head[of b e flags] by (auto simp: ParseRequestBodyFull_def)
next
  case (2 op rest)
  then have p: "parseRequestBody b flags = (if length op > MaxOperationLen
      then Some (Inl (protocol_err ''operation too long'')) else parse_tail op rest flags)"
    by (simp add: parse_segment)
  show ?thesis
  proof (cases "flags AND FlagSession \<noteq> 0" rest rule: take_segment_cases)
    case (1 e)
    then show ?thesis by (auto simp: ParseRequestBodyFull_def p parse_tail_def)
  next
    case s: (2 s rest')
    show ?thesis
    proof (cases "flags AND FlagRequestID \<noteq> 0" rest' rule: take_segment_cases)
      case (1 e)
      then show ?thesis using s by (auto simp: ParseRequestBodyFull_def p parse_tail_def take_segment_segment)
    next
      case r: (2 r rest'')
      then show ?thesis using 2 s
        by (auto simp: ParseRequestBodyFull_def parse_segment parse_tail_def take_segment_segment)
    qed
  qed
qed

end
