(* ===== verification/Reply.thy ===== *)
theory Reply
  imports Body
begin

text \<open>
  The response envelope: the hand-written protobuf reader of \<open>frame/status.go\<close>, the
  envelope of \<open>frame/reply.go\<close> and the error classes of \<open>frame/class.go\<close>.
  As in the codec, \<open>None\<close> is a panic.
\<close>

section \<open>Error classes (frame/class.go)\<close>

type_synonym Class = int32

definition ClassUnspecified :: Class where "ClassUnspecified = 0"
definition ClassBusiness :: Class where "ClassBusiness = 1"
definition ClassRuntime :: Class where "ClassRuntime = 2"
definition ClassCanceled :: Class where "ClassCanceled = 3"

lemmas class_consts = ClassUnspecified_def ClassBusiness_def ClassRuntime_def ClassCanceled_def

definition Class_String :: "Class \<Rightarrow> string" where
  "Class_String c =
     (if c = ClassBusiness then ''business''
      else if c = ClassRuntime then ''runtime''
      else if c = ClassCanceled then ''canceled''
      else ''unspecified'')"

text \<open>
  \<open>strings.TrimSpace\<close> and \<open>strings.ToUpper\<close> on ASCII text, and \<open>strconv.Atoi\<close>: an optional
  sign, then decimal digits whose value fits 64 bits.
\<close>

definition is_space :: "char \<Rightarrow> bool" where
  "is_space c \<longleftrightarrow> c \<in> set [CHR 0x09, CHR 0x0A, CHR 0x0B, CHR 0x0C, CHR 0x0D, CHR '' '']"

definition TrimSpace :: "string \<Rightarrow> string" where
  "TrimSpace s = rev (dropWhile is_space (rev (dropWhile is_space s)))"

definition upper_char :: "char \<Rightarrow> char" where
  "upper_char c = (let n = of_char c :: nat in if 97 \<le> n \<and> n \<le> 122 then char_of (n - 32) else c)"

definition ToUpper :: "string \<Rightarrow> string" where
  "ToUpper s = map upper_char s"

definition is_digit :: "char \<Rightarrow> bool" where
  "is_digit c \<longleftrightarrow> 48 \<le> (of_char c :: nat) \<and> (of_char c :: nat) \<le> 57"

definition digits_value :: "string \<Rightarrow> int" where
  "digits_value s = fold (\<lambda>c n. n * 10 + (of_char c - 48)) s 0"

definition Atoi :: "string \<Rightarrow> int option" where
  "Atoi s =
     (let neg = (s \<noteq> [] \<and> hd s = CHR ''-'');
          ds = (if s \<noteq> [] \<and> (hd s = CHR ''-'' \<or> hd s = CHR ''+'') then tl s else s);
          n = (if neg then - digits_value ds else digits_value ds)
      in if ds = [] \<or> \<not> list_all is_digit ds \<or> \<not> int64 n then None else Some n)"

definition ParseClass :: "string \<Rightarrow> Class" where
  "ParseClass txt =
     (let u = ToUpper (TrimSpace txt) in
      if u \<in> set [''ERROR_CLASS_BUSINESS'', ''CLASS_BUSINESS'', ''BUSINESS''] then ClassBusiness
      else if u \<in> set [''ERROR_CLASS_RUNTIME'', ''CLASS_RUNTIME'', ''RUNTIME''] then ClassRuntime
      else if u \<in> set [''ERROR_CLASS_CANCELED'', ''ERROR_CLASS_CANCELLED'', ''CLASS_CANCELED'',
                         ''CLASS_CANCELLED'', ''CANCELED'', ''CANCELLED''] then ClassCanceled
      else if u \<in> set ['''', ''ERROR_CLASS_UNSPECIFIED'', ''CLASS_UNSPECIFIED'', ''UNSPECIFIED'']
        then ClassUnspecified
      else (case Atoi (TrimSpace txt) of None \<Rightarrow> ClassUnspecified | Some n \<Rightarrow> of_int n))"

section \<open>The protobuf reader (frame/status.go)\<close>

definition wireVarint :: nat where "wireVarint = 0"
definition wireBytes :: nat where "wireBytes = 2"

fun uvarint_loop :: "bytes \<Rightarrow> nat \<Rightarrow> u64 \<Rightarrow> nat \<Rightarrow> u64 \<times> int" where
  "uvarint_loop [] i x s = (0, 0)"
| "uvarint_loop (byteVal # bs) i x s =
     (if i = 10 then (0, -1)
      else if byteVal < 0x80 then
        (if i = 9 \<and> byteVal > 1 then (0, -1)
         else (x OR push_bit s (ucast byteVal), int i + 1))
      else uvarint_loop bs (i + 1) (x OR push_bit s (ucast (byteVal AND 0x7F))) (s + 7))"

definition binaryUvarint :: "bytes \<Rightarrow> u64 \<times> int" where
  "binaryUvarint b = uvarint_loop b 0 0 0"

lemma uvarint_loop_bound:
  "uvarint_loop b i x s = (v, n) \<Longrightarrow> 0 < n \<Longrightarrow> int i < n \<and> n \<le> int i + int (length b)"
proof (induction b i x s rule: uvarint_loop.induct)
  case (2 byteVal bs i x s)
  show ?case
  proof (cases "i = 10 \<or> byteVal < 0x80")
    case True
    then show ?thesis using 2(2,3) by (simp split: if_split_asm)
  next
    case False
    then show ?thesis using 2(1)[of] 2(2,3) by simp
  qed
qed simp

lemma binaryUvarint_bound:
  "binaryUvarint b = (v, n) \<Longrightarrow> 0 < n \<Longrightarrow> 0 < nat n \<and> nat n \<le> length b"
  unfolding binaryUvarint_def by (drule (1) uvarint_loop_bound) auto

text \<open>
  \<open>walkFields\<close>: the callback \<open>fn\<close> of the Go code updates captured variables, here the
  state \<open>'s\<close> it returns. The recursion is the \<open>for\<close> loop; each round consumes the key.
\<close>

type_synonym 's field_fn = "'s \<Rightarrow> nat \<Rightarrow> nat \<Rightarrow> bytes \<Rightarrow> u64 \<Rightarrow> (err + 's) option"

function walkFields :: "'s field_fn \<Rightarrow> 's \<Rightarrow> bytes \<Rightarrow> (err + 's) option" where
  "walkFields fn st b =
     (if b = [] then Some (Inr st)
      else
        let (key, n) = binaryUvarint b in
        if n \<le> 0 then Some (Inl (Msg ''bad field key''))
        else
          let b = drop (nat n) b;
              fieldNum = unat (drop_bit 3 key); wire = unat (key AND 7)
          in
          if wire = wireVarint then
            (let (num, n) = binaryUvarint b in
             if n \<le> 0 then Some (Inl (Msg ''bad varint''))
             else do {
               b \<leftarrow> slice_from (nat n) b;
               r \<leftarrow> fn st fieldNum wire [] num;
               (case r of
                  Inl e \<Rightarrow> Some (Inl e)
                | Inr st \<Rightarrow> walkFields fn st b)
             })
          else if wire = wireBytes then
            (let (l, n) = binaryUvarint b in
             if n \<le> 0 \<or> (of_nat (length b - nat n) :: u64) < l then Some (Inl (Msg ''bad bytes length''))
             else do {
               b \<leftarrow> slice_from (nat n) b;
               val \<leftarrow> slice 0 (unat l) b;
               r \<leftarrow> fn st fieldNum wire val 0;
               (case r of
                  Inl e \<Rightarrow> Some (Inl e)
                | Inr st \<Rightarrow> do { b \<leftarrow> slice_from (unat l) b; walkFields fn st b })
             })
          else Some (Inl (Msg ''unsupported wire type'')))"
  by pat_completeness auto

termination
  by (relation "measure (\<lambda>(_, _, b). length b)")
     (auto simp: slice_from_eq_Some slice_eq_Some)

declare walkFields.simps [simp del]

definition decodeMapEntry :: "bytes \<Rightarrow> (err + string \<times> string) option" where
  "decodeMapEntry b =
     walkFields (\<lambda>(k, v) fieldNum wire val _.
        if fieldNum = 1 \<and> wire = wireBytes then Some (Inr (string_of_bytes val, v))
        else if fieldNum = 2 \<and> wire = wireBytes then Some (Inr (k, string_of_bytes val))
        else Some (Inr (k, v))) ([], []) b"

record Status =
  st_code :: int32
  st_reason :: string
  st_message :: string
  st_metadata :: "(string \<times> string) list"
  st_class :: Class

definition zero_status :: Status where
  "zero_status = \<lparr>st_code = 0, st_reason = [], st_message = [], st_metadata = [], st_class = 0\<rparr>"

definition status_field :: "Status field_fn" where
  "status_field st fieldNum wire val num =
     (if fieldNum = 1 \<and> wire = wireVarint then Some (Inr (st\<lparr>st_code := ucast num\<rparr>))
      else if fieldNum = 2 \<and> wire = wireBytes then Some (Inr (st\<lparr>st_reason := string_of_bytes val\<rparr>))
      else if fieldNum = 3 \<and> wire = wireBytes then Some (Inr (st\<lparr>st_message := string_of_bytes val\<rparr>))
      else if fieldNum = 4 \<and> wire = wireBytes then
        do {
          r \<leftarrow> decodeMapEntry val;
          (case r of
             Inl e \<Rightarrow> Some (Inl e)
           | Inr (k, v) \<Rightarrow> Some (Inr (st\<lparr>st_metadata := AList.update k v (st_metadata st)\<rparr>)))
        }
      else if fieldNum = 5 \<and> wire = wireVarint then Some (Inr (st\<lparr>st_class := ucast num\<rparr>))
      else Some (Inr st))"

definition DecodeStatus :: "bytes \<Rightarrow> (err + Status) option" where
  "DecodeStatus b =
     map_option (map_sum (\<lambda>e. Wrap ''bad Status'' [e]) id) (walkFields status_field zero_status b)"

section \<open>The envelope (frame/reply.go)\<close>

definition read_uint32_at :: "nat \<Rightarrow> bytes \<Rightarrow> nat option" where
  "read_uint32_at p b = map_option unat (slice p (p + 4) b \<bind> uint32_be)"

definition DecodeReply :: "bytes \<Rightarrow> (err + bytes \<times> Status option) option" where
  "DecodeReply b =
     (if length b < 5 then Some (Inl (protocol_err ''reply too short''))
      else do {
        hasError \<leftarrow> index_at 0 b;
        let offset = 1;
        (if hasError = 0 then do {
           dataLen \<leftarrow> read_uint32_at offset b;
           (if length b < offset + 4 + dataLen then Some (Inl (protocol_err ''reply data truncated''))
            else do {
              dat \<leftarrow> slice (offset + 4) (offset + 4 + dataLen) b;
              Some (Inr (dat, None))
            })
         }
         else do {
           statusLen \<leftarrow> read_uint32_at offset b;
           let offset = offset + 4;
           (if length b < offset + statusLen then Some (Inl (protocol_err ''reply status truncated''))
            else do {
              st \<leftarrow> (if statusLen > 0
                     then do { sb \<leftarrow> slice offset (offset + statusLen) b; DecodeStatus sb }
                     else Some (Inr zero_status));
              (case st of
                 Inl e \<Rightarrow> Some (Inl e)
               | Inr st \<Rightarrow>
                   let offset = offset + statusLen in
                   if length b < offset + 4 then Some (Inl (protocol_err ''reply data truncated''))
                   else do {
                     dataLen \<leftarrow> read_uint32_at offset b;
                     (if length b < offset + 4 + dataLen
                      then Some (Inl (protocol_err ''reply data truncated''))
                      else do {
                        dat \<leftarrow> slice (offset + 4) (offset + 4 + dataLen) b;
                        Some (Inr (dat, Some st))
                      })
                   })
            })
         })
      })"

section \<open>The reader never panics\<close>

lemma unat_of_nat_le: "unat (of_nat n :: 'a::len word) \<le> n"
  by (simp add: unat_of_nat)

lemma walkFields_total:
  assumes fn: "\<And>st f w val num. \<exists>r. fn st f w val num = Some r"
  shows "\<exists>r. walkFields fn st b = Some r"
proof (induction b arbitrary: st rule: length_induct)
  case (1 b)
  show ?case
  proof (cases "b = []")
    case True
    then show ?thesis by (subst walkFields.simps) simp
  next
    case False
    obtain key n where k: "binaryUvarint b = (key, n)" by (cases "binaryUvarint b")
    let ?b = "drop (nat n) b"
    obtain num m where m: "binaryUvarint ?b = (num, m)" by (cases "binaryUvarint ?b")
    let ?f = "unat (drop_bit 3 key)" and ?w = "unat (key AND 7)" and ?rest = "drop (nat m) ?b"
    have IH: "\<exists>r. walkFields fn st' (drop k ?rest) = Some r" if "0 < n" for st' k
      using 1 False that by simp
    have rest: "slice_from (nat m) ?b = Some ?rest" if "0 < m"
      using binaryUvarint_bound[OF m that] by simp
    have val: "slice 0 (unat num) ?rest = Some (take (unat num) ?rest)"
      "slice_from (unat num) ?rest = Some (drop (unat num) ?rest)"
      if "\<not> (of_nat (length ?b - nat m) :: u64) < num"
      using that unat_of_nat_le[of "length ?b - nat m", where 'a = 64]
      by (simp_all add: word_le_nat_alt not_less add.commute)
    have cont: "\<exists>r. (fn st f w v x \<bind> case_sum (\<lambda>e. Some (Inl e)) (\<lambda>st. walkFields fn st (drop k ?rest)))
        = Some r" if "0 < n" for f w v x k
      using fn[of st f w v x] IH[OF that] by (auto split: sum.split)
    show ?thesis
      using False rest val cont[of ?f wireVarint "[]" num 0]
        cont[of ?f wireBytes "take (unat num) ?rest" 0 "unat num"]
      by (subst walkFields.simps) (auto simp: k m Let_def wireVarint_def wireBytes_def)
  qed
qed

lemma decodeMapEntry_total: "\<exists>r. decodeMapEntry b = Some r"
  unfolding decodeMapEntry_def by (rule walkFields_total) auto

lemma status_field_total: "\<exists>r. status_field st f w val num = Some r"
  using decodeMapEntry_total[of val] by (auto simp: status_field_def split: sum.split)

lemma DecodeStatus_total: "\<exists>r. DecodeStatus b = Some r"
  using walkFields_total[of status_field, OF status_field_total] by (auto simp: DecodeStatus_def)

lemma read_uint32_at_Some:
  assumes "p + 4 \<le> length b"
  shows "\<exists>n. read_uint32_at p b = Some n \<and> n < 2 ^ 32"
proof -
  obtain v where "uint32_be (take 4 (drop p b)) = Some v"
    using uint_be_total(2)[of "take 4 (drop p b)"] assms by auto
  then show ?thesis
    using assms unsigned_less[of v, where 'a = nat] by (auto simp: read_uint32_at_def)
qed

lemma read_uint32_at_append:
  "length xs = p \<Longrightarrow> read_uint32_at p (xs @ put_uint32 v @ rest) = Some (unat v)"
  by (simp add: read_uint32_at_def)

text \<open>The last part of an envelope, a length and that many bytes.\<close>

definition reply_data :: "nat \<Rightarrow> bytes \<Rightarrow> Status option \<Rightarrow> (err + bytes \<times> Status option) option" where
  "reply_data offset b st =
     do {
       dataLen \<leftarrow> read_uint32_at offset b;
       (if length b < offset + 4 + dataLen then Some (Inl (protocol_err ''reply data truncated''))
        else do {
          dat \<leftarrow> slice (offset + 4) (offset + 4 + dataLen) b;
          Some (Inr (dat, st))
        })
     }"

lemma reply_data_total:
  "offset + 4 \<le> length b \<Longrightarrow> \<exists>r. reply_data offset b st = Some r"
  using read_uint32_at_Some[of offset b] by (auto simp: reply_data_def)

lemma DecodeReply_eq:
  "DecodeReply b =
    (if length b < 5 then Some (Inl (protocol_err ''reply too short''))
     else if b ! 0 = 0 then reply_data 1 b None
     else do {
       statusLen \<leftarrow> read_uint32_at 1 b;
       (if length b < 5 + statusLen then Some (Inl (protocol_err ''reply status truncated''))
        else do {
          st \<leftarrow> (if statusLen > 0 then DecodeStatus (take statusLen (drop 5 b)) else Some (Inr zero_status));
          (case st of
             Inl e \<Rightarrow> Some (Inl e)
           | Inr st \<Rightarrow>
               if length b < 5 + statusLen + 4 then Some (Inl (protocol_err ''reply data truncated''))
               else reply_data (5 + statusLen) b (Some st))
        })
     })"
proof (cases "length b < 5")
  case False
  then obtain n where "read_uint32_at 1 b = Some n"
    using read_uint32_at_Some[of 1 b] by auto
  moreover have "index_at 0 b = Some (b ! 0)" using False by (cases b) auto
  moreover have five: "(1::nat) + 4 = 5" by simp
  ultimately show ?thesis using False
    unfolding DecodeReply_def reply_data_def Let_def five by (simp add: not_less)
qed (simp add: DecodeReply_def)

lemma DecodeReply_total: "\<exists>r. DecodeReply b = Some r"
proof (cases "5 \<le> length b")
  case True
  then obtain n where n: "read_uint32_at 1 b = Some n"
    using read_uint32_at_Some[of 1 b] by auto
  obtain st where st: "(if n > 0 then DecodeStatus (take n (drop 5 b)) else Some (Inr zero_status)) = Some st"
    using DecodeStatus_total[of "take n (drop 5 b)"] by (cases "n > 0") auto
  show ?thesis
    using True reply_data_total[of 1 b] reply_data_total[of "5 + n" b]
    by (auto simp: DecodeReply_eq n st not_less simp del: One_nat_def split: sum.split)
qed (simp add: DecodeReply_def)

section \<open>A reference encoder\<close>

fun put_uvarint :: "nat \<Rightarrow> bytes" where
  "put_uvarint n = (if n < 128 then [of_nat n] else of_nat (n mod 128 + 128) # put_uvarint (n div 128))"

declare put_uvarint.simps [simp del]

lemma length_put_uvarint: "n < 128 ^ Suc k \<Longrightarrow> length (put_uvarint n) \<le> Suc k"
proof (induction k arbitrary: n)
  case (Suc k)
  show ?case
  proof (cases "n < 128")
    case False
    have "n div 128 < 128 ^ Suc k" using Suc.prems by (simp add: less_mult_imp_div_less)
    with Suc.IH[of "n div 128"] False show ?thesis by (simp add: put_uvarint.simps[of n])
  qed (simp add: put_uvarint.simps[of n])
qed (simp add: put_uvarint.simps)

lemma uvarint_split: "(of_nat (m mod 128) :: u64) OR push_bit 7 (of_nat (m div 128)) = of_nat m"
proof (rule bit_word_eqI)
  fix k assume "k < LENGTH(64)"
  have "bit (m mod 128) k \<longleftrightarrow> k < 7 \<and> bit m k" for k
    using bit_take_bit_iff[of 7 m k] by (simp add: take_bit_eq_mod)
  moreover have "bit (m div 128) j \<longleftrightarrow> bit m (j + 7)" for j
    using bit_drop_bit_eq[of 7 m] by (simp add: drop_bit_eq_div fun_eq_iff add.commute)
  ultimately show "bit ((of_nat (m mod 128) :: u64) OR push_bit 7 (of_nat (m div 128))) k = bit (of_nat m :: u64) k"
    using \<open>k < LENGTH(64)\<close> by (auto simp: bit_simps bit_of_nat_iff)
qed

lemma last_byte:
  assumes "n < 128"
  shows "(of_nat n :: byte) < 0x80" and "(ucast (of_nat n :: byte) :: u64) = of_nat n"
  using assms by (simp_all add: word_less_nat_alt unat_of_nat word_unat_eq_iff unsigned_ucast_eq take_bit_eq_mod)

lemma more_byte:
  assumes "n < 128"
  shows "\<not> (of_nat (n + 128) :: byte) < 0x80"
    and "(ucast ((of_nat (n + 128) :: byte) AND 0x7F) :: u64) = of_nat n"
proof -
  show "\<not> (of_nat (n + 128) :: byte) < 0x80"
    using assms by (simp add: word_less_nat_alt unat_of_nat del: of_nat_add)
  have "(of_nat (n + 128) :: byte) AND 0x7F = of_nat (n + 128) AND mask 7"
    by (simp add: mask_eq_exp_minus_1)
  also have "\<dots> = of_nat (take_bit 7 (n + 128))"
    by (simp only: take_bit_of_nat flip: take_bit_eq_mask)
  also have "take_bit 7 (n + 128) = n" using assms by (simp add: take_bit_eq_mod)
  finally show "(ucast ((of_nat (n + 128) :: byte) AND 0x7F) :: u64) = of_nat n"
    using last_byte(2)[OF assms] by simp
qed

lemma uvarint_loop_put:
  assumes "m * 2 ^ (7 * i) < 2 ^ 64" and "i \<le> 9"
  shows "uvarint_loop (put_uvarint m @ rest) i x (7 * i)
    = (x OR push_bit (7 * i) (of_nat m), int (i + length (put_uvarint m)))"
  using assms
proof (induction m arbitrary: i x rule: put_uvarint.induct)
  case (1 m)
  show ?case
  proof (cases "m < 128")
    case True
    have "m < 2" if "i = 9" using 1(2) that by simp
    then have "\<not> (i = 9 \<and> 1 < (of_nat m :: byte))" using True
      by (auto simp: word_less_nat_alt unat_of_nat)
    then show ?thesis using True last_byte[OF True] 1(3) by (simp add: put_uvarint.simps[of m])
  next
    case False
    have small: "i \<le> 8"
    proof (rule ccontr)
      assume "\<not> i \<le> 8"
      then have "i = 9" using 1(3) by simp
      then show False using 1(2) False by simp
    qed
    have "(m div 128) * 2 ^ (7 * (i + 1)) \<le> m * 2 ^ (7 * i)"
      by (simp add: power_add)
    then have rec: "m div 128 * 2 ^ (7 * (i + 1)) < 2 ^ 64" using 1(2) by simp
    let ?x = "x OR push_bit (7 * i) (of_nat (m mod 128))"
    have "uvarint_loop (put_uvarint m @ rest) i x (7 * i)
        = uvarint_loop (put_uvarint (m div 128) @ rest) (i + 1) ?x (7 * (i + 1))"
      using False small more_byte[of "m mod 128"] by (simp add: put_uvarint.simps[of m] add.commute)
    also have "\<dots> = (?x OR push_bit (7 * (i + 1)) (of_nat (m div 128)),
        int (i + 1 + length (put_uvarint (m div 128))))"
      using 1(1)[OF False rec] small by simp
    also have "?x OR push_bit (7 * (i + 1)) (of_nat (m div 128)) = x OR push_bit (7 * i) (of_nat m)"
      unfolding uvarint_split[of m, symmetric] push_bit_or push_bit_push_bit
      by (simp add: or.assoc add.commute)
    finally show ?thesis using False by (simp add: put_uvarint.simps[of m])
  qed
qed

lemma binaryUvarint_put:
  "m < 2 ^ 64 \<Longrightarrow> binaryUvarint (put_uvarint m @ rest) = (of_nat m, int (length (put_uvarint m)))"
  using uvarint_loop_put[of m 0 rest 0] by (simp add: binaryUvarint_def)

lemma put_uvarint_pos: "0 < length (put_uvarint m)"
  by (subst put_uvarint.simps) simp


text \<open>A field: its key, then a number or a length and bytes.\<close>

definition varint_field :: "nat \<Rightarrow> nat \<Rightarrow> bytes" where
  "varint_field f n = put_uvarint (8 * f + wireVarint) @ put_uvarint n"

definition bytes_field :: "nat \<Rightarrow> bytes \<Rightarrow> bytes" where
  "bytes_field f v = put_uvarint (8 * f + wireBytes) @ put_uvarint (length v) @ v"

lemma key_parts:
  assumes "8 * f + w < 2 ^ 64" and "w < 8"
  shows "unat (drop_bit 3 (of_nat (8 * f + w) :: u64)) = f"
    and "unat ((of_nat (8 * f + w) :: u64) AND 7) = w"
proof -
  have u: "unat (of_nat (8 * f + w) :: u64) = 8 * f + w"
    using assms(1) by (intro unat_of_nat_small) simp
  have "unat (drop_bit 3 (of_nat (8 * f + w) :: u64)) = drop_bit 3 (8 * f + w)"
    unfolding unsigned_drop_bit_eq u using assms(1)
    by (simp add: take_bit_eq_mod drop_bit_eq_div)
  also have "\<dots> = f" using assms(2) by (simp add: drop_bit_eq_div)
  finally show "unat (drop_bit 3 (of_nat (8 * f + w) :: u64)) = f" .
  have "(7 :: u64) = mask 3" by (simp add: mask_eq_exp_minus_1)
  then have "unat ((of_nat (8 * f + w) :: u64) AND 7) = take_bit 3 (8 * f + w)"
    by (simp only: unsigned_take_bit_eq u flip: take_bit_eq_mask)
  also have "\<dots> = w" using assms(2) by (simp add: take_bit_eq_mod)
  finally show "unat ((of_nat (8 * f + w) :: u64) AND 7) = w" .
qed

lemma key_read:
  assumes "8 * f + w < 2 ^ 64" and "w < 8"
  obtains k where "\<And>xs. binaryUvarint (put_uvarint (8 * f + w) @ xs) = (k, int (length (put_uvarint (8 * f + w))))"
    and "unat (drop_bit 3 k) = f" and "unat (k AND 7) = w"
  using binaryUvarint_put[OF assms(1)] key_parts[OF assms] that by blast

lemma put_uvarint_not_Nil [simp]: "put_uvarint k \<noteq> []"
  using put_uvarint_pos[of k] by simp

lemma wire_types: "wireVarint < 8" "wireBytes < 8" "wireVarint \<noteq> wireBytes" "wireBytes \<noteq> wireVarint"
  by (simp_all add: wireVarint_def wireBytes_def)

lemma walk_varint_field:
  assumes "8 * f + wireVarint < 2 ^ 64" and "n < 2 ^ 64"
    and "fn st f wireVarint [] (of_nat n) = Some (Inr st')"
  shows "walkFields fn st (varint_field f n @ rest) = walkFields fn st' rest"
proof -
  obtain k where "\<And>xs. binaryUvarint (put_uvarint (8 * f + wireVarint) @ xs)
      = (k, int (length (put_uvarint (8 * f + wireVarint))))"
    "unat (drop_bit 3 k) = f" "unat (k AND 7) = wireVarint"
    by (rule key_read[OF assms(1) wire_types(1)]) blast
  then show ?thesis
    using assms(3) by (subst walkFields.simps)
      (simp add: varint_field_def Let_def binaryUvarint_put[OF assms(2)])
qed

lemma walk_bytes_field:
  assumes "8 * f + wireBytes < 2 ^ 64" and "length v + length rest < 2 ^ 64"
    and "fn st f wireBytes v 0 = Some (Inr st')"
  shows "walkFields fn st (bytes_field f v @ rest) = walkFields fn st' rest"
proof -
  have len: "length v < 2 ^ 64" using assms(2) by simp
  have u: "unat (of_nat (length v) :: u64) = length v"
    using len by (intro unat_of_nat_small) simp
  have fits: "\<not> (of_nat (length v + length rest) :: u64) < of_nat (length v)"
    using assms(2) by (simp add: word_less_nat_alt unat_of_nat_small u del: of_nat_add)
  obtain k where "\<And>xs. binaryUvarint (put_uvarint (8 * f + wireBytes) @ xs)
      = (k, int (length (put_uvarint (8 * f + wireBytes))))"
    "unat (drop_bit 3 k) = f" "unat (k AND 7) = wireBytes"
    by (rule key_read[OF assms(1) wire_types(2)]) blast
  then show ?thesis
    using assms(3) fits by (subst walkFields.simps)
      (simp add: bytes_field_def Let_def binaryUvarint_put[OF len] wire_types u del: of_nat_add)
qed

definition map_entry :: "string \<Rightarrow> string \<Rightarrow> bytes" where
  "map_entry k v = bytes_field 1 (bytes_of_string k) @ bytes_field 2 (bytes_of_string v)"

definition map_fields :: "(string \<times> string) list \<Rightarrow> bytes" where
  "map_fields md = concat (map (\<lambda>(k, v). bytes_field 4 (map_entry k v)) md)"

text \<open>A protobuf \<open>int32\<close> travels sign-extended to 64 bits.\<close>

definition int32_field :: "nat \<Rightarrow> int32 \<Rightarrow> bytes" where
  "int32_field f c = varint_field f (unat (scast c :: u64))"

definition encode_status :: "Status \<Rightarrow> bytes" where
  "encode_status st =
     int32_field 1 (st_code st)
     @ bytes_field 2 (bytes_of_string (st_reason st))
     @ bytes_field 3 (bytes_of_string (st_message st))
     @ map_fields (st_metadata st)
     @ int32_field 5 (st_class st)"

fun encode_reply :: "bytes \<Rightarrow> Status option \<Rightarrow> bytes" where
  "encode_reply dat None = 0 # put_uint32 (of_nat (length dat)) @ dat"
| "encode_reply dat (Some st) = 1 # put_uint32 (of_nat (length (encode_status st))) @ encode_status st
     @ put_uint32 (of_nat (length dat)) @ dat"

lemma length_bytes_field: "length v < length (bytes_field f v)"
  by (simp add: bytes_field_def put_uvarint_pos)

lemma length_int32_field: "f < 16 \<Longrightarrow> length (int32_field f c) \<le> 11"
  using length_put_uvarint[of "unat (scast c :: u64)" 9] unsigned_less[of "scast c :: u64", where 'a = nat]
  by (simp add: int32_field_def varint_field_def wireVarint_def put_uvarint.simps[of "8 * f"])

lemma ucast_scast: "ucast (scast (c :: int32) :: u64) = c"
  by (rule bit_word_eqI) (simp add: bit_simps)

lemma decodeMapEntry_map_entry:
  assumes "length (map_entry k v) < 2 ^ 64"
  shows "decodeMapEntry (map_entry k v) = Some (Inr (k, v))"
proof -
  let ?e = "bytes_field 2 (bytes_of_string v)"
  have l: "length (bytes_of_string k) + length ?e < 2 ^ 64" "length (bytes_of_string v) + length ([] :: bytes) < 2 ^ 64"
    using assms length_bytes_field[of "bytes_of_string k" 1] length_bytes_field[of "bytes_of_string v" 2]
    by (simp_all add: map_entry_def)
  show ?thesis
    unfolding decodeMapEntry_def map_entry_def
    apply (subst walk_bytes_field[where st' = "(k, [])", OF _ l(1)])
      apply (simp_all add: wire_types wireBytes_def)
    apply (subst walk_bytes_field[where st' = "(k, v)" and rest = "[]", OF _ l(2), simplified append_Nil2])
      apply (simp_all add: wireBytes_def)
    apply (subst walkFields.simps, simp)
    done
qed

lemma update_new: "k \<notin> fst ` set al \<Longrightarrow> AList.update k v al = al @ [(k, v)]"
  by (induction al) auto

lemma walk_map_fields:
  assumes "distinct (map fst md)" and "fst ` set md \<inter> fst ` set (st_metadata st) = {}"
    and "length (map_fields md @ rest) < 2 ^ 64"
  shows "walkFields status_field st (map_fields md @ rest)
    = walkFields status_field (st\<lparr>st_metadata := st_metadata st @ md\<rparr>) rest"
  using assms
proof (induction md arbitrary: st)
  case Nil
  then show ?case by (simp add: map_fields_def)
next
  case (Cons kv md)
  obtain k v where kv: "kv = (k, v)" by (cases kv)
  let ?st = "st\<lparr>st_metadata := st_metadata st @ [(k, v)]\<rparr>"
  have l: "length (map_entry k v) + length (map_fields md @ rest) < 2 ^ 64"
    using Cons.prems(3) length_bytes_field[of "map_entry k v" 4] by (simp add: map_fields_def kv)
  then have me: "decodeMapEntry (map_entry k v) = Some (Inr (k, v))"
    by (intro decodeMapEntry_map_entry) simp
  have "AList.update k v (st_metadata st) = st_metadata st @ [(k, v)]"
    using Cons.prems(2) by (intro update_new) (auto simp: kv)
  then have "status_field st 4 wireBytes (map_entry k v) 0 = Some (Inr ?st)"
    by (simp add: status_field_def me)
  then have "walkFields status_field st (bytes_field 4 (map_entry k v) @ map_fields md @ rest)
      = walkFields status_field ?st (map_fields md @ rest)"
    using l by (intro walk_bytes_field) (simp_all add: wireBytes_def)
  also have "\<dots> = walkFields status_field (?st\<lparr>st_metadata := st_metadata ?st @ md\<rparr>) rest"
    using Cons.prems l by (intro Cons.IH) (auto simp: kv)
  finally show ?case by (simp add: map_fields_def kv)
qed

definition status_ok :: "Status \<Rightarrow> bool" where
  "status_ok st \<longleftrightarrow> distinct (map fst (st_metadata st)) \<and> length (encode_status st) < 2 ^ 32"

lemma walk_int32_field:
  assumes "8 * f + wireVarint < 2 ^ 64"
    and "status_field st f wireVarint [] (scast c) = Some (Inr st')"
  shows "walkFields status_field st (int32_field f c @ rest) = walkFields status_field st' rest"
  unfolding int32_field_def
  by (rule walk_varint_field) (use assms unsigned_less[of "scast c :: u64"] in simp_all)

lemma DecodeStatus_encode:
  assumes "status_ok st"
  shows "DecodeStatus (encode_status st) = Some (Inr st)"
proof -
  obtain c r m md cl where st: "st = \<lparr>st_code = c, st_reason = r, st_message = m, st_metadata = md, st_class = cl\<rparr>"
    by (cases st)
  let ?E = "int32_field 5 cl" and ?M = "map_fields md"
  let ?G = "bytes_field 3 (bytes_of_string m) @ ?M @ ?E"
  have len: "length (bytes_field 2 (bytes_of_string r)) + length ?G < 2 ^ 64"
    using assms by (simp add: status_ok_def encode_status_def st)
  have "walkFields status_field zero_status (encode_status st)
      = walkFields status_field (zero_status\<lparr>st_code := c\<rparr>) (bytes_field 2 (bytes_of_string r) @ ?G)"
    unfolding encode_status_def st Status.simps
    by (rule walk_int32_field) (simp_all add: status_field_def ucast_scast wireVarint_def)
  also have "\<dots> = walkFields status_field (zero_status\<lparr>st_code := c, st_reason := r\<rparr>) ?G"
    using len length_bytes_field[of "bytes_of_string r" 2]
    by (intro walk_bytes_field) (simp_all add: status_field_def wireBytes_def)
  also have "\<dots> = walkFields status_field (zero_status\<lparr>st_code := c, st_reason := r, st_message := m\<rparr>) (?M @ ?E)"
    using len length_bytes_field[of "bytes_of_string m" 3]
    by (intro walk_bytes_field) (simp_all add: status_field_def wireBytes_def)
  also have "\<dots> = walkFields status_field
      (zero_status\<lparr>st_code := c, st_reason := r, st_message := m, st_metadata := md\<rparr>) ?E"
    using assms len by (subst walk_map_fields) (simp_all add: status_ok_def st zero_status_def)
  also have "\<dots> = walkFields status_field st []"
    using walk_int32_field[of 5 _ cl st "[]"]
    by (simp add: status_field_def ucast_scast wireVarint_def st zero_status_def)
  finally show ?thesis
    by (simp add: DecodeStatus_def walkFields.simps)
qed

lemma reply_data_encoded:
  assumes "length dat < 2 ^ 32" and "length xs = p"
  shows "reply_data p (xs @ put_uint32 (of_nat (length dat)) @ dat @ rest) st = Some (Inr (dat, st))"
proof -
  have "unat (of_nat (length dat) :: u32) = length dat" using assms(1) by (intro unat_of_nat_small) simp
  then show ?thesis using assms(2) by (simp add: reply_data_def read_uint32_at_append)
qed

text \<open>
  The reply envelope round trip: a success envelope and a failure envelope with a
  protobuf status (negative codes, metadata entries and class included) decode to exactly
  the data and the status that were encoded, whatever follows the envelope.
\<close>

theorem reply_roundtrip:
  assumes "length dat < 2 ^ 32" and "case st of None \<Rightarrow> True | Some s \<Rightarrow> status_ok s"
  shows "DecodeReply (encode_reply dat st @ rest) = Some (Inr (dat, st))"
proof (cases st)
  case None
  then show ?thesis
    using reply_data_encoded[OF assms(1), of "[0]" 1 rest None] by (simp add: DecodeReply_eq)
next
  case (Some s)
  let ?sb = "encode_status s" and ?n = "length (encode_status s)"
  have n: "unat (of_nat ?n :: u32) = ?n" and ok: "status_ok s"
    using assms(2) Some by (auto simp: status_ok_def intro!: unat_of_nat_small)
  have pos: "0 < ?n"
    by (simp add: encode_status_def int32_field_def varint_field_def)
  let ?b = "encode_reply dat st @ rest"
  have "reply_data (5 + ?n) ?b (Some s) = Some (Inr (dat, Some s))"
    using reply_data_encoded[OF assms(1), of "1 # put_uint32 (of_nat ?n) @ ?sb" "5 + ?n" rest "Some s"]
    by (simp add: Some)
  moreover have "read_uint32_at 1 ?b = Some ?n"
    using read_uint32_at_append[of "[1]" 1 "of_nat ?n"] by (simp add: Some n)
  moreover have "take ?n (drop 5 ?b) = ?sb" by (simp add: Some)
  moreover have "length ?b \<ge> 5 + ?n + 4" "?b ! 0 = 1" by (simp_all add: Some)
  ultimately show ?thesis
    using pos DecodeStatus_encode[OF ok] by (simp add: DecodeReply_eq Some)
qed

definition sample_status :: Status where
  "sample_status = \<lparr>st_code = - 5, st_reason = ''FULL'', st_message = [],
     st_metadata = [(''a'', ''b''), (''c'', [])], st_class = 1\<rparr>"

theorem reply_roundtrip_witness:
  "DecodeReply (encode_reply [1, 2] (Some sample_status) @ [9]) = Some (Inr ([1, 2], Some sample_status))"
proof -
  have "length (encode_status sample_status) < 2 ^ 32"
    using length_int32_field[of 1 "- 5"] length_int32_field[of 5 1]
    by (simp add: encode_status_def sample_status_def map_fields_def map_entry_def bytes_field_def
        wireBytes_def put_uvarint.simps)
  then have "status_ok sample_status"
    by (simp add: status_ok_def) (simp add: sample_status_def)
  then show ?thesis by (intro reply_roundtrip) simp_all
qed

text \<open>
  The envelope reader is safe on hostile input: on any bytes it returns without an index
  out of range, and on success the data it hands out is a contiguous part of the input of
  the announced length, behind at least a five-byte head.
\<close>

theorem reply_decode_total:
  "\<exists>x. DecodeReply b = Some x
     \<and> (case x of Inl e \<Rightarrow> True
        | Inr (dat, st) \<Rightarrow> \<exists>hd tl. b = hd @ put_uint32 (of_nat (length dat)) @ dat @ tl \<and> 1 \<le> length hd
            \<and> (st = None) = (b ! 0 = 0))"
proof -
  have data: "\<exists>hd tl. b = hd @ put_uint32 (of_nat (length dat)) @ dat @ tl \<and> 1 \<le> length hd \<and> s = st"
    if "reply_data p b st = Some (Inr (dat, s))" and "1 \<le> p" for p dat st s
  proof -
    have "p + 4 \<le> length b"
      using that(1) by (rule_tac ccontr) (simp add: reply_data_def read_uint32_at_def slice_def)
    moreover from this obtain v where v: "uint32_be (take 4 (drop p b)) = Some v"
      using uint_be_total(2)[of "take 4 (drop p b)"] by auto
    ultimately have le: "p + 4 + unat v \<le> length b" and dat: "dat = take (unat v) (drop (p + 4) b)" and s: "s = st"
      using that(1) by (auto simp: reply_data_def read_uint32_at_def split: if_splits)
    have "put_uint32 v = take 4 (drop p b)"
      using v le by (intro put_uint32_be) auto
    moreover have len: "length dat = unat v" using le by (simp add: dat)
    ultimately have "put_uint32 (of_nat (length dat)) = take 4 (drop p b)" by simp
    moreover have "b = take p b @ take 4 (drop p b) @ dat @ drop (p + 4 + unat v) b"
      unfolding dat by (metis append_take_drop_id drop_drop add.commute)
    ultimately have "b = take p b @ put_uint32 (of_nat (length dat)) @ dat @ drop (p + 4 + unat v) b"
      by simp
    moreover have "1 \<le> length (take p b)" using that(2) le by simp
    ultimately show ?thesis using s by blast
  qed
  obtain x where x: "DecodeReply b = Some x" using DecodeReply_total by blast
  show ?thesis
  proof (cases x)
    case (Inr r)
    obtain dat st where r: "r = (dat, st)" by (cases r)
    obtain p s where "reply_data p b s = Some (Inr (dat, st))" and "1 \<le> p"
      and "(s = None) = (b ! 0 = 0)"
    proof (cases "b ! 0 = 0")
      case True
      with x Inr r that[of 1 None] show ?thesis by (simp add: DecodeReply_eq split: if_splits)
    next
      case False
      with x Inr r obtain n s where "reply_data (5 + n) b (Some s) = Some (Inr (dat, st))"
        by (auto simp: DecodeReply_eq bind_eq_Some_conv split: if_splits sum.splits)
          (metis sum.exhaust, metis add_0_right)
      with False that[of "5 + n" "Some s"] show ?thesis by simp
    qed
    with data[of p s dat st] x Inr r show ?thesis by auto
  qed (use x in simp)
qed

text \<open>
  A field this version does not know is skipped when it is a varint or a byte string, at
  the front or the back of the status, but any other wire type (a later fixed32 or fixed64
  field, say) makes the whole status fail to decode.
\<close>

theorem status_unknown_fields:
  assumes "status_ok st" and "6 \<le> f" and "f < 2 ^ 29" and "n < 2 ^ 64" and "length v < 2 ^ 32"
    and "w < 8" and "w \<noteq> wireVarint" and "w \<noteq> wireBytes"
  shows "DecodeStatus (varint_field f n @ bytes_field f v @ encode_status st) = Some (Inr st)
    \<and> (\<exists>e. DecodeStatus (put_uvarint (8 * f + w) @ encode_status st) = Some (Inl e))"
proof
  have "walkFields status_field zero_status (varint_field f n @ bytes_field f v @ encode_status st)
      = walkFields status_field zero_status (bytes_field f v @ encode_status st)"
    using assms by (intro walk_varint_field) (simp_all add: status_field_def wireVarint_def)
  also have "\<dots> = walkFields status_field zero_status (encode_status st)"
    using assms by (intro walk_bytes_field) (simp_all add: status_field_def wireBytes_def status_ok_def)
  finally show "DecodeStatus (varint_field f n @ bytes_field f v @ encode_status st) = Some (Inr st)"
    using DecodeStatus_encode[OF assms(1)] by (simp add: DecodeStatus_def)
  have "8 * f + w < 2 ^ 64" using assms by simp
  then obtain k where "\<And>xs. binaryUvarint (put_uvarint (8 * f + w) @ xs)
      = (k, int (length (put_uvarint (8 * f + w))))" "unat (k AND 7) = w"
    using key_read[of f w] assms(6) by metis
  then have "walkFields status_field zero_status (put_uvarint (8 * f + w) @ encode_status st)
      = Some (Inl (Msg ''unsupported wire type''))"
    using assms(7,8) by (subst walkFields.simps) (simp add: Let_def)
  then show "\<exists>e. DecodeStatus (put_uvarint (8 * f + w) @ encode_status st) = Some (Inl e)"
    by (simp add: DecodeStatus_def)
qed

theorem status_unknown_fields_witness:
  "DecodeStatus (varint_field 6 300 @ bytes_field 6 [1] @ encode_status zero_status) = Some (Inr zero_status)
   \<and> (\<exists>e. DecodeStatus (put_uvarint (8 * 6 + 1) @ encode_status zero_status) = Some (Inl e))"
proof -
  have "length (encode_status zero_status) < 2 ^ 32"
    using length_int32_field[of 1 0] length_int32_field[of 5 0]
    by (simp add: encode_status_def zero_status_def map_fields_def bytes_field_def
        wireBytes_def put_uvarint.simps)
  then have "status_ok zero_status" by (simp add: status_ok_def) (simp add: zero_status_def)
  then show ?thesis by (intro status_unknown_fields) (simp_all add: wireVarint_def wireBytes_def)
qed

end
