(* ===== verification/Edge.thy ===== *)
theory Edge
  imports Reply
begin

text \<open>
  The access layer's wire format, \<open>direct/gen/edge\<close>, and its wrappers \<open>direct/hello.go\<close>:
  the hello segment that opens a flow (magic, version, 16-bit ticket length, ticket) and
  the 8-byte flow id in front of every later datagram. \<open>None\<close> is a panic.
\<close>

section \<open>The hello segment (direct/gen/edge/hello.go)\<close>

definition HelloMagic :: bytes where "HelloMagic = [65, 84, 76, 72]"
definition HelloMagicLen :: nat where "HelloMagicLen = 4"
definition HelloVersion :: byte where "HelloVersion = 1"
definition MaxTicketLen :: nat where "MaxTicketLen = 256"
definition HelloHeaderLen :: nat where "HelloHeaderLen = HelloMagicLen + 1 + 2"
definition HelloRejectUnavailable :: byte where "HelloRejectUnavailable = 0"
definition FlowIDLen :: nat where "FlowIDLen = 8"

lemmas edge_consts = HelloMagic_def HelloMagicLen_def HelloVersion_def MaxTicketLen_def
  HelloHeaderLen_def HelloRejectUnavailable_def FlowIDLen_def

definition IsHelloRejectUnavailable :: "bytes \<Rightarrow> bool" where
  "IsHelloRejectUnavailable datagram \<longleftrightarrow> length datagram = 1 \<and> datagram ! 0 = HelloRejectUnavailable"

definition EncodeHello :: "bytes \<Rightarrow> bytes" where
  "EncodeHello ticketRaw =
     HelloMagic @ [HelloVersion] @ put_uint16 (of_nat (length ticketRaw)) @ ticketRaw"

definition IsHello :: "bytes \<Rightarrow> bool" where
  "IsHello b \<longleftrightarrow> length b \<ge> HelloHeaderLen \<and> take HelloMagicLen b = HelloMagic
     \<and> b ! HelloMagicLen = HelloVersion"

definition wrap_sentinel :: "sentinel \<Rightarrow> err" where
  "wrap_sentinel s = Wrap [] [Sentinel s]"

definition DecodeHello :: "bytes \<Rightarrow> (err + bytes \<times> bytes) option" where
  "DecodeHello b =
     (if length b < HelloHeaderLen then Some (Inl (wrap_sentinel ErrHelloMalformed))
      else do {
        magic \<leftarrow> slice 0 HelloMagicLen b;
        (if magic \<noteq> HelloMagic then Some (Inl (wrap_sentinel ErrHelloMalformed))
         else do {
           ver \<leftarrow> index_at HelloMagicLen b;
           (if ver \<noteq> HelloVersion then Some (Inl (wrap_sentinel ErrHelloMalformed))
            else do {
              l \<leftarrow> slice_from (HelloMagicLen + 1) b; v \<leftarrow> uint16_be l;
              let n = unat v;
              (if n > MaxTicketLen then Some (Inl (wrap_sentinel ErrHelloTooLong))
               else if length b < HelloHeaderLen + n then Some (Inl (wrap_sentinel ErrHelloMalformed))
               else do {
                 ticket \<leftarrow> slice HelloHeaderLen (HelloHeaderLen + n) b;
                 rest \<leftarrow> slice_from (HelloHeaderLen + n) b;
                 Some (Inr (ticket, rest))
               })
            })
         })
      })"

definition ReadHello :: "reader \<Rightarrow> ((err + bytes) \<times> reader) option" where
  "ReadHello r =
     (case ReadFull r HelloHeaderLen of
        (Inl e, r) \<Rightarrow> Some (Inl (wrap_sentinel ErrHelloMalformed), r)
      | (Inr head, r) \<Rightarrow>
          do {
            magic \<leftarrow> slice 0 HelloMagicLen head;
            (if magic \<noteq> HelloMagic then Some (Inl (wrap_sentinel ErrHelloMalformed), r)
             else do {
               ver \<leftarrow> index_at HelloMagicLen head;
               (if ver \<noteq> HelloVersion then Some (Inl (wrap_sentinel ErrHelloMalformed), r)
                else do {
                  l \<leftarrow> slice_from (HelloMagicLen + 1) head; v \<leftarrow> uint16_be l;
                  let n = unat v;
                  (if n > MaxTicketLen then Some (Inl (wrap_sentinel ErrHelloTooLong), r)
                   else (case ReadFull r n of
                           (Inl e, r) \<Rightarrow> Some (Inl (wrap_sentinel ErrHelloMalformed), r)
                         | (Inr raw, r) \<Rightarrow> Some (Inr raw, r)))
                })
             })
          })"

section \<open>The flow-id prefix (direct/gen/edge/flowid.go, direct/hello.go)\<close>

definition EncodeFlowID :: "u64 \<Rightarrow> bytes" where
  "EncodeFlowID i = put_uint64 i"

definition DecodeFlowID :: "bytes \<Rightarrow> (err + u64 \<times> bytes) option" where
  "DecodeFlowID datagram =
     (if length datagram < FlowIDLen then Some (Inl (wrap_sentinel ErrFlowIDShort))
      else do {
        h \<leftarrow> slice 0 FlowIDLen datagram; i \<leftarrow> uint64_be h;
        rest \<leftarrow> slice_from FlowIDLen datagram;
        Some (Inr (i, rest))
      })"

definition WrapFlowID :: "u64 \<Rightarrow> bytes \<Rightarrow> bytes" where
  "WrapFlowID i payload = EncodeFlowID i @ payload"

definition StripFlowID :: "bytes \<Rightarrow> u64 \<Rightarrow> (err + bytes) option" where
  "StripFlowID dat i =
     do {
       r \<leftarrow> DecodeFlowID dat;
       (case r of
          Inl e \<Rightarrow> Some (Inl (Wrap [] [Sentinel ErrFlowIDMismatch, e]))
        | Inr (got, payload) \<Rightarrow>
            if got \<noteq> i then Some (Inl (wrap_sentinel ErrFlowIDMismatch))
            else Some (Inr (copy_at 0 payload (replicate (length payload) 0))))
     }"

section \<open>Properties\<close>

lemma length_EncodeHello: "length (EncodeHello t) = HelloHeaderLen + length t"
  by (simp add: EncodeHello_def edge_consts)

lemma errors_is_wrap_sentinel [simp, errs]: "errors_is (wrap_sentinel s) t \<longleftrightarrow> s = t"
  by (simp add: wrap_sentinel_def)

lemma DecodeHello_EncodeHello:
  assumes "length t \<le> MaxTicketLen"
  shows "DecodeHello (EncodeHello t @ rest) = Some (Inr (t, rest))"
proof -
  have "unat (of_nat (length t) :: u16) = length t"
    using assms by (intro unat_of_nat_small) (simp add: edge_consts)
  then show ?thesis
    using assms by (simp add: DecodeHello_def EncodeHello_def edge_consts slice_def Let_def)
      (simp add: put_uint16_def drop_Cons')
qed

text \<open>
  Hello round trip: for every ticket up to the limit, the segment is recognised, decodes to the
  ticket and the bytes behind it, and the stream reader consumes exactly the segment. A longer
  ticket is encoded too, but every decoder refuses it, before reading the body.
\<close>

theorem hello_roundtrip:
  assumes "length t \<le> MaxTicketLen"
  shows "IsHello (EncodeHello t @ rest) \<and> \<not> IsHelloRejectUnavailable (EncodeHello t)
    \<and> DecodeHello (EncodeHello t @ rest) = Some (Inr (t, rest))
    \<and> ReadHello \<lparr>pending = EncodeHello t @ rest, fault = f\<rparr> = Some (Inr t, \<lparr>pending = rest, fault = f\<rparr>)"
proof -
  have "unat (of_nat (length t) :: u16) = length t"
    using assms by (intro unat_of_nat_small) (simp add: edge_consts)
  then have "ReadHello \<lparr>pending = EncodeHello t @ rest, fault = f\<rparr> = Some (Inr t, \<lparr>pending = rest, fault = f\<rparr>)"
    using assms by (simp add: ReadHello_def ReadFull_def EncodeHello_def edge_consts slice_def Let_def)
  then show ?thesis
    using DecodeHello_EncodeHello[OF assms]
    by (simp add: IsHello_def IsHelloRejectUnavailable_def EncodeHello_def edge_consts)
qed

theorem hello_roundtrip_witness:
  "DecodeHello (EncodeHello [7, 8] @ [1]) = Some (Inr ([7, 8], [1]))"
  using hello_roundtrip[of "[7, 8]" "[1]"] by (simp add: edge_consts)

lemma strip_wrap:
  "StripFlowID (WrapFlowID i p) j = Some (if i = j then Inr p else Inl (wrap_sentinel ErrFlowIDMismatch))"
  by (simp add: StripFlowID_def DecodeFlowID_def WrapFlowID_def EncodeFlowID_def FlowIDLen_def
      slice_def copy_at_def)

lemma strip_other:
  assumes "\<And>p. d \<noteq> WrapFlowID i p"
  shows "\<exists>e. StripFlowID d i = Some (Inl e) \<and> errors_is e ErrFlowIDMismatch"
proof (cases "length d < FlowIDLen")
  case True
  then show ?thesis by (simp add: StripFlowID_def DecodeFlowID_def)
next
  case False
  then obtain v where "uint64_be (take 8 d) = Some v"
    using uint_be_total(3)[of "take 8 d"] by (auto simp: FlowIDLen_def)
  then have "put_uint64 v = take 8 d"
    using False by (intro put_uint64_be) (auto simp: FlowIDLen_def)
  then have d: "d = WrapFlowID v (drop 8 d)"
    by (simp add: WrapFlowID_def EncodeFlowID_def)
  then have "v \<noteq> i" using assms by metis
  then show ?thesis using strip_wrap[of v "drop 8 d" i] d by simp
qed

text \<open>
  Flow-id filter: a receiver accepts exactly the datagrams that carry its own flow id, and
  hands on what was wrapped; anything else, shorter than the prefix or with another id, is a
  flow-id mismatch (and never a panic), so traffic of another flow cannot be delivered.
\<close>

theorem flow_id_filter:
  "StripFlowID (WrapFlowID i p) j
     = Some (if i = j then Inr p else Inl (wrap_sentinel ErrFlowIDMismatch))
   \<and> (\<exists>r. StripFlowID d i = Some r
        \<and> (case r of Inl e \<Rightarrow> errors_is e ErrFlowIDMismatch \<and> (\<forall>p. d \<noteq> WrapFlowID i p)
           | Inr p \<Rightarrow> d = WrapFlowID i p))"
proof (cases "\<exists>p. d = WrapFlowID i p")
  case True
  then show ?thesis by (auto simp: strip_wrap)
next
  case False
  then obtain e where "StripFlowID d i = Some (Inl e)" "errors_is e ErrFlowIDMismatch"
    using strip_other by blast
  then show ?thesis using False by (simp add: strip_wrap)
qed

end
