(* ===== verification/Backoff.thy ===== *)
theory Backoff
  imports Prelude
begin

text \<open>
  The contract of a reconnect backoff: doubling, capped. The reconnect loops of the client and
  of the direct session each provide it; the shape of the whole sequence of delays follows
  from it once.
\<close>

locale backoff =
  fixes nxt :: "duration \<Rightarrow> duration \<Rightarrow> duration"
  assumes nxt_doubles: "0 < cur \<Longrightarrow> cur \<le> m \<Longrightarrow> m < 2 ^ 62 \<Longrightarrow> nxt m cur = min (2 * cur) m"
begin

lemma nth_delay:
  assumes "0 < base" and "base \<le> m" and "m < 2 ^ 62"
  shows "(nxt m ^^ n) base = min (base * 2 ^ n) m"
proof (induction n)
  case 0
  then show ?case using assms by simp
next
  case (Suc n)
  have "0 < base * 2 ^ n" using assms(1) by simp
  then have "0 < min (base * 2 ^ n) m" "min (base * 2 ^ n) m \<le> m" using assms by simp_all
  from nxt_doubles[OF this assms(3)] Suc
  have "(nxt m ^^ Suc n) base = min (2 * min (base * 2 ^ n) m) m" by simp
  also have "\<dots> = min (2 * (base * 2 ^ n)) m" using assms by (auto simp: min_def)
  finally show ?case by (simp add: mult.left_commute)
qed

lemma delay_bounds:
  assumes "0 < base" and "base \<le> m" and "m < 2 ^ 62"
  shows "base \<le> (nxt m ^^ n) base \<and> (nxt m ^^ n) base \<le> m \<and> (nxt m ^^ n) base \<le> (nxt m ^^ Suc n) base"
proof -
  have "1 * base \<le> 2 ^ n * base" using assms(1) by (intro mult_right_mono) simp_all
  then have "base \<le> base * 2 ^ n" "base * 2 ^ n \<le> base * 2 ^ Suc n" using assms(1) by (simp_all add: mult.commute)
  then show ?thesis using assms unfolding nth_delay[OF assms] by (auto simp: min_le_iff_disj)
qed

lemma delay_reaches_cap:
  assumes "0 < base" and "base \<le> m" and "m < 2 ^ 62" and "62 \<le> n"
  shows "(nxt m ^^ n) base = m"
proof -
  have "2 ^ 62 \<le> (2 :: int) ^ n" using assms(4) by (rule power_increasing) simp
  also have "\<dots> \<le> base * 2 ^ n" using assms(1) by simp
  finally show ?thesis using assms by (simp add: nth_delay)
qed

end

end
