(* ===== verification/ClientOptions.thy ===== *)
theory ClientOptions
  imports Edge Backoff
begin

text \<open>
  Configuration and assembly of the client (\<open>client/options.go\<close>, \<open>client/log.go\<close>,
  \<open>client/serializer.go\<close>, the roles and constructors of \<open>client/client.go\<close>, the settings
  part of \<open>client/channel.go\<close>, and the reconnect delays of \<open>client/reconnect.go\<close>).
  An \<open>Option\<close> is a function on the settings record, as in the code. Function values the
  caller passes in (hooks, token providers, heartbeat factories) are known by an identity;
  what a hook returns is an argument of the definitions that run it.
\<close>

section \<open>Roles, states, transports (client/client.go)\<close>

datatype State = StateDisconnected | StateConnected | StateReconnecting

type_synonym Kind = int
type_synonym Transport = int

definition KindBusiness :: Kind where "KindBusiness = 0"
definition KindBattle :: Kind where "KindBattle = 1"
definition TransportTCP :: Transport where "TransportTCP = 0"
definition TransportWS :: Transport where "TransportWS = 1"
definition TransportKCP :: Transport where "TransportKCP = 2"
definition TransportUDP :: Transport where "TransportUDP = 3"

lemmas role_consts = KindBusiness_def KindBattle_def TransportTCP_def TransportWS_def
  TransportKCP_def TransportUDP_def

definition State_String :: "State \<Rightarrow> string" where
  "State_String s = (case s of StateConnected \<Rightarrow> ''connected'' | StateReconnecting \<Rightarrow> ''reconnecting''
     | _ \<Rightarrow> ''disconnected'')"

definition stateSeverity :: "State \<Rightarrow> nat" where
  "stateSeverity s = (case s of StateConnected \<Rightarrow> 0 | StateReconnecting \<Rightarrow> 1 | StateDisconnected \<Rightarrow> 2)"

lemma stateSeverity_inject: "stateSeverity s = stateSeverity t \<longleftrightarrow> s = t"
  by (cases s; cases t) (simp_all add: stateSeverity_def)

text \<open>States are ordered by how degraded they are.\<close>

instantiation State :: linorder
begin

definition less_eq_State :: "State \<Rightarrow> State \<Rightarrow> bool" where
  "less_eq_State s t \<longleftrightarrow> stateSeverity s \<le> stateSeverity t"

definition less_State :: "State \<Rightarrow> State \<Rightarrow> bool" where
  "less_State s t \<longleftrightarrow> stateSeverity s < stateSeverity t"

instance
  by standard (auto simp: less_eq_State_def less_State_def stateSeverity_inject)

end

definition Client_State :: "State list \<Rightarrow> State" where
  "Client_State chs =
     foldl (\<lambda>worst s. if stateSeverity s > stateSeverity worst then s else worst) StateConnected chs"

section \<open>Loggers and serializers (client/log.go, client/serializer.go)\<close>

definition logLevelError :: int where "logLevelError = 1"
definition logLevelWarn :: int where "logLevelWarn = 2"
definition logLevelInfo :: int where "logLevelInfo = 3"
definition logLevelDebug :: int where "logLevelDebug = 4"
definition logDefaultLevel :: int where "logDefaultLevel = logLevelError"

text \<open>A logger is its minimum level; \<open>logs l lv\<close> says whether \<open>logf\<close> writes a line.\<close>

definition logs :: "int option \<Rightarrow> int \<Rightarrow> bool" where
  "logs l lv = (case l of None \<Rightarrow> False | Some m \<Rightarrow> \<not> lv > m)"

definition levelName :: "int \<Rightarrow> string" where
  "levelName lv = (if lv = logLevelDebug then ''debug'' else if lv = logLevelInfo then ''info''
     else if lv = logLevelWarn then ''warn'' else ''error'')"

text \<open>
  A serializer as far as the kernel looks at it: the version it declares if it implements
  \<open>frame.Versioned\<close>. Its \<open>Marshal\<close> and \<open>Unmarshal\<close> are arguments where they are called.
\<close>

record Serializer =
  declared :: "byte option"

definition ProtoJSONSerializer :: Serializer where "ProtoJSONSerializer = \<lparr>declared = None\<rparr>"

definition serializerVersion :: "Serializer \<Rightarrow> err + byte" where
  "serializerVersion s =
     (case declared s of
        Some ver \<Rightarrow>
          if ver \<noteq> Version \<and> ver \<noteq> Version2 then Inl (Msg ''illegal payload version'') else Inr ver
      | None \<Rightarrow> Inr Version)"

section \<open>Settings and options (client/options.go)\<close>

text \<open>A hook is a user function or the chained battle hook built over two others.\<close>

datatype hook = UserHook nat | ChainedHook "hook option" "hook option"

record channelSettings =
  s_transport :: Transport
  s_addr :: string
  s_path :: string
  s_serial :: Serializer
  s_heartbeatInterval :: duration
  s_invokeTimeout :: duration
  s_maxBodySize :: int
  s_autoReconnect :: bool
  s_backoffBase :: duration
  s_backoffMax :: duration
  s_queueSize :: int
  s_hookTimeout :: duration
  s_onReconnected :: "hook option"
  s_sessionHeartbeatOp :: "nat option"
  s_sessionHeartbeatInterval :: duration
  s_sessionToken :: "nat option"
  s_logger :: "int option"
  s_logOff :: bool

definition defaultHeartbeatInterval :: duration where "defaultHeartbeatInterval = 30 * second"
definition defaultInvokeTimeout :: duration where "defaultInvokeTimeout = 10 * second"
definition defaultHeartbeatFailures :: nat where "defaultHeartbeatFailures = 3"
definition defaultBackoffBase :: duration where "defaultBackoffBase = 500 * millisecond"
definition defaultBackoffMax :: duration where "defaultBackoffMax = 30 * second"
definition defaultQueueSize :: int where "defaultQueueSize = 64"
definition defaultHookTimeout :: duration where "defaultHookTimeout = 10 * second"

lemmas client_defaults = defaultHeartbeatInterval_def defaultInvokeTimeout_def
  defaultHeartbeatFailures_def defaultBackoffBase_def defaultBackoffMax_def defaultQueueSize_def
  defaultHookTimeout_def

definition defaultSettings :: channelSettings where
  "defaultSettings = \<lparr>s_transport = TransportTCP, s_addr = [], s_path = [],
     s_serial = ProtoJSONSerializer, s_heartbeatInterval = defaultHeartbeatInterval,
     s_invokeTimeout = defaultInvokeTimeout, s_maxBodySize = MaxBodySize, s_autoReconnect = True,
     s_backoffBase = defaultBackoffBase, s_backoffMax = defaultBackoffMax,
     s_queueSize = defaultQueueSize, s_hookTimeout = defaultHookTimeout, s_onReconnected = None,
     s_sessionHeartbeatOp = None, s_sessionHeartbeatInterval = 0, s_sessionToken = None,
     s_logger = None, s_logOff = False\<rparr>"

type_synonym Option = "channelSettings \<Rightarrow> channelSettings"

definition apply_options :: "Option list \<Rightarrow> channelSettings \<Rightarrow> channelSettings" where
  "apply_options opts s = foldl (\<lambda>s opt. opt s) s opts"

definition WithHeartbeatInterval :: "duration \<Rightarrow> Option" where
  "WithHeartbeatInterval d s = s\<lparr>s_heartbeatInterval := d\<rparr>"

definition WithInvokeTimeout :: "duration \<Rightarrow> Option" where
  "WithInvokeTimeout d s = s\<lparr>s_invokeTimeout := d\<rparr>"

definition WithMaxBodySize :: "int \<Rightarrow> Option" where
  "WithMaxBodySize n s = (if n > 0 \<and> n \<le> MaxBodySize then s\<lparr>s_maxBodySize := n\<rparr> else s)"

definition WithSerializer :: "Serializer \<Rightarrow> Option" where
  "WithSerializer ser s = s\<lparr>s_serial := ser\<rparr>"

definition WithAutoReconnect :: "bool \<Rightarrow> Option" where
  "WithAutoReconnect enabled s = s\<lparr>s_autoReconnect := enabled\<rparr>"

definition WithBackoff :: "duration \<Rightarrow> duration \<Rightarrow> Option" where
  "WithBackoff base maxd s =
     (let s = (if base > 0 then s\<lparr>s_backoffBase := base\<rparr> else s)
      in if maxd \<ge> s_backoffBase s then s\<lparr>s_backoffMax := maxd\<rparr> else s)"

definition WithReconnectQueueSize :: "int \<Rightarrow> Option" where
  "WithReconnectQueueSize n s = (if n > 0 then s\<lparr>s_queueSize := n\<rparr> else s)"

definition WithSessionHeartbeat :: "duration \<Rightarrow> nat option \<Rightarrow> Option" where
  "WithSessionHeartbeat interval opFactory s =
     (if interval > 0 \<and> opFactory \<noteq> None
      then s\<lparr>s_sessionHeartbeatInterval := interval, s_sessionHeartbeatOp := opFactory\<rparr> else s)"

definition WithOnReconnected :: "hook option \<Rightarrow> Option" where
  "WithOnReconnected fn s = s\<lparr>s_onReconnected := fn\<rparr>"

definition WithSessionTokenProvider :: "nat option \<Rightarrow> Option" where
  "WithSessionTokenProvider fn s = s\<lparr>s_sessionToken := fn\<rparr>"

definition WithLogSilence :: Option where
  "WithLogSilence s = s\<lparr>s_logger := None, s_logOff := True\<rparr>"

definition WithLogError :: Option where "WithLogError s = s\<lparr>s_logger := Some logLevelError\<rparr>"
definition WithLogWarn :: Option where "WithLogWarn s = s\<lparr>s_logger := Some logLevelWarn\<rparr>"
definition WithLogInfo :: Option where "WithLogInfo s = s\<lparr>s_logger := Some logLevelInfo\<rparr>"
definition WithLogDebug :: Option where "WithLogDebug s = s\<lparr>s_logger := Some logLevelDebug\<rparr>"

lemmas option_defs = WithHeartbeatInterval_def WithInvokeTimeout_def WithMaxBodySize_def
  WithSerializer_def WithAutoReconnect_def WithBackoff_def WithReconnectQueueSize_def
  WithSessionHeartbeat_def WithOnReconnected_def WithSessionTokenProvider_def WithLogSilence_def
  WithLogError_def WithLogWarn_def WithLogInfo_def WithLogDebug_def

section \<open>Reconnect delays (client/channel.go, client/reconnect.go)\<close>

definition nextBackoff :: "duration \<Rightarrow> duration \<Rightarrow> duration" where
  "nextBackoff backoffMax cur =
     (let next = wrap64 (cur * 2) in if next > backoffMax then backoffMax else next)"

text \<open>\<open>rnd n\<close> is \<open>rand.Int63n(n)\<close>: for a positive \<open>n\<close>, a number in \<open>[0, n)\<close>.\<close>

definition jitter :: "(int \<Rightarrow> int) \<Rightarrow> duration \<Rightarrow> duration" where
  "jitter rnd d =
     (if d \<le> 0 then 0
      else let delta = trunc_div d 5 in wrap64 (d - delta + rnd (2 * delta + 1)))"

section \<open>Assembling a channel (client/channel.go)\<close>

record ChannelConfig =
  cfg_kind :: Kind
  cfg_transport :: Transport
  cfg_addr :: string
  cfg_path :: string
  cfg_opts :: "Option list"

record channel_params =
  c_kind :: Kind
  c_addr :: string
  c_serial :: Serializer
  c_ver :: byte
  c_heartbeatInterval :: duration
  c_invokeTimeout :: duration
  c_maxBodySize :: int
  c_logger :: "int option"
  c_autoReconnect :: bool
  c_backoffBase :: duration
  c_backoffMax :: duration
  c_queueSize :: int
  c_hookTimeout :: duration
  c_onReconnected :: "hook option"
  c_sessionHBInterval :: duration
  c_sessionHBOp :: "nat option"
  c_frameSessionSlot :: bool
  c_sessionToken :: "nat option"

definition channelSettingsOf :: "ChannelConfig \<Rightarrow> Option list \<Rightarrow> channelSettings" where
  "channelSettingsOf cfg defaults =
     (let s = defaultSettings\<lparr>s_transport := cfg_transport cfg, s_addr := cfg_addr cfg,
                s_path := cfg_path cfg\<rparr>;
          s = apply_options defaults s
      in apply_options (cfg_opts cfg) s)"

definition newChannelWithSettings :: "ChannelConfig \<Rightarrow> channelSettings \<Rightarrow> byte \<Rightarrow> channel_params" where
  "newChannelWithSettings cfg s ver =
     \<lparr>c_kind = cfg_kind cfg, c_addr = s_addr s, c_serial = s_serial s, c_ver = ver,
      c_heartbeatInterval = s_heartbeatInterval s, c_invokeTimeout = s_invokeTimeout s,
      c_maxBodySize = s_maxBodySize s,
      c_logger = (if s_logger s = None \<and> \<not> s_logOff s then Some logDefaultLevel else s_logger s),
      c_autoReconnect = s_autoReconnect s, c_backoffBase = s_backoffBase s,
      c_backoffMax = s_backoffMax s, c_queueSize = s_queueSize s, c_hookTimeout = s_hookTimeout s,
      c_onReconnected = s_onReconnected s, c_sessionHBInterval = s_sessionHeartbeatInterval s,
      c_sessionHBOp = s_sessionHeartbeatOp s,
      c_frameSessionSlot = (s_transport s = TransportKCP \<or> s_transport s = TransportUDP),
      c_sessionToken = s_sessionToken s\<rparr>"

text \<open>
  \<open>newChannel\<close>; \<open>dial\<close> is the outcome of \<open>dialTransport\<close> on these settings. The result
  carries whether the dial was attempted.
\<close>

definition newChannel ::
  "(channelSettings \<Rightarrow> err option) \<Rightarrow> ChannelConfig \<Rightarrow> Option list \<Rightarrow> err + channel_params" where
  "newChannel dial cfg defaults =
     (let s = channelSettingsOf cfg defaults in
      if s_addr s = [] then Inl (Msg ''channel has no address'')
      else (case serializerVersion (s_serial s) of
              Inl e \<Rightarrow> Inl e
            | Inr ver \<Rightarrow>
                (case dial s of
                   Some e \<Rightarrow> Inl (Wrap ''dial failed'' [e])
                 | None \<Rightarrow> Inr (newChannelWithSettings cfg s ver))))"

section \<open>Constructors (client/client.go)\<close>

text \<open>
  \<open>dialChannels\<close>: the map of channels under construction is an association list from role to
  the channel and the number of its dial; \<open>closes\<close> lists the channels closed on the way out.
\<close>

record Client =
  channels :: "(Kind \<times> (nat \<times> channel_params)) list"
  business :: "(nat \<times> channel_params) option"

fun dial_loop ::
  "(nat \<Rightarrow> channelSettings \<Rightarrow> err option) \<Rightarrow> Option list \<Rightarrow> nat \<Rightarrow> ChannelConfig list \<Rightarrow> Client
     \<Rightarrow> (err + Client) \<times> nat list" where
  "dial_loop dial defaults i [] c = (Inr c, [])"
| "dial_loop dial defaults i (cfg # cfgs) c =
     (case newChannel (dial i) cfg defaults of
        Inl e \<Rightarrow> (Inl e, map (\<lambda>(k, ch). fst ch) (channels c))
      | Inr ch \<Rightarrow>
          if map_of (channels c) (c_kind ch) \<noteq> None
          then (Inl (Msg ''duplicate channel role''), i # map (\<lambda>(k, ch). fst ch) (channels c))
          else
            let c = c\<lparr>channels := AList.update (c_kind ch) (i, ch) (channels c)\<rparr>;
                c = (if c_kind ch = KindBusiness then c\<lparr>business := Some (i, ch)\<rparr> else c)
            in dial_loop dial defaults (Suc i) cfgs c)"

definition dialChannels ::
  "(nat \<Rightarrow> channelSettings \<Rightarrow> err option) \<Rightarrow> ChannelConfig list \<Rightarrow> Option list
     \<Rightarrow> (err + Client) \<times> nat list" where
  "dialChannels dial cfgs defaults = dial_loop dial defaults 0 cfgs \<lparr>channels = [], business = None\<rparr>"

definition single :: "Transport \<Rightarrow> string \<Rightarrow> string \<Rightarrow> ChannelConfig" where
  "single tr addr path = \<lparr>cfg_kind = KindBusiness, cfg_transport = tr, cfg_addr = addr,
     cfg_path = path, cfg_opts = []\<rparr>"

definition Dial :: "(nat \<Rightarrow> channelSettings \<Rightarrow> err option) \<Rightarrow> string \<Rightarrow> Option list \<Rightarrow> (err + Client) \<times> nat list" where
  "Dial dial addr opts = dialChannels dial [single TransportTCP addr []] opts"

definition DialWS :: "(nat \<Rightarrow> channelSettings \<Rightarrow> err option) \<Rightarrow> string \<Rightarrow> string \<Rightarrow> Option list
    \<Rightarrow> (err + Client) \<times> nat list" where
  "DialWS dial addr path opts = dialChannels dial [single TransportWS addr path] opts"

definition DialKCP :: "(nat \<Rightarrow> channelSettings \<Rightarrow> err option) \<Rightarrow> string \<Rightarrow> Option list \<Rightarrow> (err + Client) \<times> nat list" where
  "DialKCP dial addr opts = dialChannels dial [single TransportKCP addr []] opts"

definition DialUDP :: "(nat \<Rightarrow> channelSettings \<Rightarrow> err option) \<Rightarrow> string \<Rightarrow> Option list \<Rightarrow> (err + Client) \<times> nat list" where
  "DialUDP dial addr opts = dialChannels dial [single TransportUDP addr []] opts"

definition normalizeDualRoles :: "ChannelConfig \<Rightarrow> ChannelConfig \<Rightarrow> err + ChannelConfig \<times> ChannelConfig" where
  "normalizeDualRoles bus bat =
     (if cfg_kind bus \<noteq> KindBusiness \<and> cfg_kind bus \<noteq> KindBattle
      then Inl (Msg ''illegal business role'')
      else
        let bat = (if cfg_kind bat = KindBusiness then bat\<lparr>cfg_kind := KindBattle\<rparr> else bat)
        in if cfg_kind bus = cfg_kind bat then Inl (Msg ''duplicate dual role'') else Inr (bus, bat))"

definition chainedBattleHook :: "Option list \<Rightarrow> Option" where
  "chainedBattleHook battleOpts =
     (let batHook = s_onReconnected (foldl (\<lambda>s opt. opt s) defaultSettings battleOpts)
      in (\<lambda>s. s\<lparr>s_onReconnected := Some (ChainedHook (s_onReconnected s) batHook)\<rparr>))"

definition DialDual :: "(nat \<Rightarrow> channelSettings \<Rightarrow> err option) \<Rightarrow> ChannelConfig \<Rightarrow> ChannelConfig \<Rightarrow> Option list
    \<Rightarrow> (err + Client) \<times> nat list" where
  "DialDual dial bus bat opts =
     (case normalizeDualRoles bus bat of
        Inl e \<Rightarrow> (Inl e, [])
      | Inr (bus, bat) \<Rightarrow>
          dialChannels dial [bus\<lparr>cfg_opts := cfg_opts bus @ [chainedBattleHook (cfg_opts bat)]\<rparr>, bat] opts)"

text \<open>
  Running a hook: \<open>out n\<close> is what the user function \<open>n\<close> returns, \<open>battle\<close> the state of the
  battle channel where the client is already stored and has one. The result lists the user
  functions called, in order.
\<close>

fun run_hook :: "(nat \<Rightarrow> err option) \<Rightarrow> State option \<Rightarrow> hook \<Rightarrow> err option \<times> nat list" where
  "run_hook out battle (UserHook n) = (out n, [n])"
| "run_hook out battle (ChainedHook prev batHook) =
     (let (r, calls) = (case prev of None \<Rightarrow> (None, []) | Some h \<Rightarrow> run_hook out battle h) in
      if r \<noteq> None then (r, calls)
      else (case batHook of
              None \<Rightarrow> (None, calls)
            | Some bh \<Rightarrow>
                if battle \<noteq> None \<and> battle \<noteq> Some StateConnected then (None, calls)
                else let (r', calls') = run_hook out battle bh in (r', calls @ calls')))"

section \<open>Delays\<close>

interpretation client_backoff: backoff nextBackoff
  by unfold_locales (auto simp: nextBackoff_def int64_def Let_def)

definition rand_ok :: "(int \<Rightarrow> int) \<Rightarrow> bool" where
  "rand_ok rnd \<longleftrightarrow> (\<forall>n > 0. 0 \<le> rnd n \<and> rnd n < n)"

lemma jitter_bounds:
  assumes "rand_ok rnd" and "0 < d" and "d < 2 ^ 62"
  shows "5 * \<bar>jitter rnd d - d\<bar> \<le> d"
proof -
  let ?q = "d div 5" and ?r = "rnd (2 * (d div 5) + 1)"
  have q: "0 \<le> ?q" "5 * ?q \<le> d" using assms(2) by simp_all
  then have "0 < 2 * ?q + 1" by simp
  then have r: "0 \<le> ?r" "?r < 2 * ?q + 1"
    using assms(1) unfolding rand_ok_def by blast+
  have "int64 (d - ?q + ?r)" unfolding int64_def using q r assms(2,3) by simp
  then have "jitter rnd d = d - ?q + ?r"
    using assms(2) by (simp add: jitter_def trunc_div_nonneg Let_def)
  then show ?thesis using q r by (simp add: abs_if)
qed

text \<open>
  The reconnect schedule: with a base no longer than the cap, the n-th delay is the base doubled
  n times and capped, it never shrinks, it has reached the cap after 62 failures at the
  latest, and the sleep actually taken is within a fifth of it whatever the random source.
\<close>

theorem reconnect_schedule:
  assumes "0 < base" and "base \<le> cap" and "cap < 2 ^ 62" and "rand_ok rnd"
  shows "(nextBackoff cap ^^ n) base = min (base * 2 ^ n) cap
    \<and> (nextBackoff cap ^^ n) base \<le> (nextBackoff cap ^^ Suc n) base
    \<and> (nextBackoff cap ^^ (62 + n)) base = cap
    \<and> 5 * \<bar>jitter rnd ((nextBackoff cap ^^ n) base) - (nextBackoff cap ^^ n) base\<bar> \<le> (nextBackoff cap ^^ n) base"
proof -
  let ?d = "(nextBackoff cap ^^ n) base"
  have "base \<le> ?d" "?d \<le> cap" "?d \<le> (nextBackoff cap ^^ Suc n) base"
    using client_backoff.delay_bounds[OF assms(1-3), of n] by auto
  moreover have "5 * \<bar>jitter rnd ?d - ?d\<bar> \<le> ?d"
    using \<open>base \<le> ?d\<close> \<open>?d \<le> cap\<close> assms by (intro jitter_bounds) simp_all
  ultimately show ?thesis
    using client_backoff.nth_delay[OF assms(1-3), of n]
      client_backoff.delay_reaches_cap[OF assms(1-3), of "62 + n"] by simp
qed

theorem reconnect_schedule_witness:
  "(nextBackoff defaultBackoffMax ^^ 3) defaultBackoffBase = 4 * second
   \<and> (nextBackoff defaultBackoffMax ^^ (62 + 3)) defaultBackoffBase = 30 * second
   \<and> 5 * \<bar>jitter (\<lambda>n. n - 1) ((nextBackoff defaultBackoffMax ^^ 3) defaultBackoffBase) - 4 * second\<bar> \<le> 4 * second"
  using reconnect_schedule[of defaultBackoffBase defaultBackoffMax "\<lambda>n. n - 1" 3]
  by (auto simp: client_defaults rand_ok_def)

section \<open>Settings\<close>

text \<open>The options of the public interface.\<close>

inductive public_option :: "Option \<Rightarrow> bool" where
  "public_option (WithHeartbeatInterval d)"
| "public_option (WithInvokeTimeout d)"
| "public_option (WithMaxBodySize n)"
| "public_option (WithSerializer ser)"
| "public_option (WithAutoReconnect b)"
| "public_option (WithBackoff base m)"
| "public_option (WithReconnectQueueSize n)"
| "public_option (WithSessionHeartbeat d f)"
| "public_option (WithOnReconnected h)"
| "public_option (WithSessionTokenProvider t)"
| "public_option WithLogSilence"
| "public_option WithLogError"
| "public_option WithLogWarn"
| "public_option WithLogInfo"
| "public_option WithLogDebug"
| "public_option (chainedBattleHook opts)"

definition settings_valid :: "channelSettings \<Rightarrow> bool" where
  "settings_valid s \<longleftrightarrow> 0 < s_maxBodySize s \<and> s_maxBodySize s \<le> MaxBodySize \<and> 0 < s_queueSize s
     \<and> 0 < s_backoffBase s \<and> 0 < s_backoffMax s
     \<and> (s_sessionHeartbeatInterval s = 0 \<or> 0 < s_sessionHeartbeatInterval s)
     \<and> (0 < s_sessionHeartbeatInterval s) = (s_sessionHeartbeatOp s \<noteq> None)"

lemma public_option_valid: "public_option opt \<Longrightarrow> settings_valid s \<Longrightarrow> settings_valid (opt s)"
  by (induction rule: public_option.induct)
    (auto simp: settings_valid_def option_defs chainedBattleHook_def Let_def)

lemma public_option_target:
  "public_option opt \<Longrightarrow> s_transport (opt s) = s_transport s \<and> s_addr (opt s) = s_addr s \<and> s_path (opt s) = s_path s"
  by (induction rule: public_option.induct) (auto simp: option_defs chainedBattleHook_def Let_def)

lemma apply_options_induct:
  assumes "\<And>opt s. opt \<in> set opts \<Longrightarrow> P s \<Longrightarrow> P (opt s)" and "P s"
  shows "P (apply_options opts s)"
  using assms unfolding apply_options_def by (induction opts arbitrary: s) auto

text \<open>
  Whatever options the caller passes, at the top level and per channel, the effective settings
  keep the frame limit within the protocol's, the queue and both delays positive, a session
  heartbeat exactly when both its period and its factory are set, and never touch where the
  channel dials to.
\<close>

theorem settings_always_valid:
  assumes "\<forall>opt \<in> set defaults. public_option opt" and "\<forall>opt \<in> set (cfg_opts cfg). public_option opt"
  shows "settings_valid (channelSettingsOf cfg defaults)
    \<and> s_transport (channelSettingsOf cfg defaults) = cfg_transport cfg
    \<and> s_addr (channelSettingsOf cfg defaults) = cfg_addr cfg
    \<and> s_path (channelSettingsOf cfg defaults) = cfg_path cfg"
proof -
  let ?P = "\<lambda>s. settings_valid s \<and> s_transport s = cfg_transport cfg \<and> s_addr s = cfg_addr cfg \<and> s_path s = cfg_path cfg"
  have step: "?P (opt s)" if "public_option opt" "?P s" for opt s
    using that by (simp add: public_option_valid public_option_target)
  have "?P (apply_options defaults (defaultSettings\<lparr>s_transport := cfg_transport cfg,
      s_addr := cfg_addr cfg, s_path := cfg_path cfg\<rparr>))"
    by (rule apply_options_induct[where P = ?P])
      (use assms(1) step in blast, simp add: settings_valid_def defaultSettings_def client_defaults MaxBodySize_def)
  then have "?P (channelSettingsOf cfg defaults)"
    unfolding channelSettingsOf_def Let_def
    by (rule apply_options_induct[where P = ?P, rotated]) (use assms(2) step in blast)
  then show ?thesis by simp
qed

theorem settings_always_valid_witness:
  "settings_valid (channelSettingsOf \<lparr>cfg_kind = 0, cfg_transport = 3, cfg_addr = ''h'', cfg_path = [],
      cfg_opts = [WithBackoff (60 * second) second]\<rparr> [WithMaxBodySize 0, WithReconnectQueueSize (-4)])"
  using settings_always_valid[of "[WithMaxBodySize 0, WithReconnectQueueSize (-4)]"
      "\<lparr>cfg_kind = 0, cfg_transport = 3, cfg_addr = ''h'', cfg_path = [], cfg_opts = [WithBackoff (60 * second) second]\<rparr>"]
  by (simp add: public_option.intros)

text \<open>The exception is the order of the two delays: \<open>WithBackoff\<close> raises the base past a cap it does not accept.\<close>

lemma base_above_cap:
  "s_backoffBase (WithBackoff (60 * second) second defaultSettings) = 60 * second"
  "s_backoffMax (WithBackoff (60 * second) second defaultSettings) = 30 * second"
  by (simp_all add: WithBackoff_def defaultSettings_def client_defaults)

section \<open>Aggregated state\<close>

lemma foldl_worst:
  "foldl (\<lambda>worst s. if stateSeverity s > stateSeverity worst then s else worst) w chs = Max (set (w # chs))"
proof (induction chs arbitrary: w)
  case (Cons c chs)
  have "(if stateSeverity c > stateSeverity w then c else w) = max w c"
    by (auto simp: max_def less_eq_State_def stateSeverity_inject not_less dest: antisym)
  then show ?case using Cons[of "max w c"] by (cases "chs = []") (simp_all add: max.assoc)
qed simp

lemma Client_State_Max: "Client_State chs = Max (insert StateConnected (set chs))"
  by (simp add: Client_State_def foldl_worst)

section \<open>Dialling\<close>

definition built :: "(nat \<Rightarrow> channelSettings \<Rightarrow> err option) \<Rightarrow> Option list \<Rightarrow> ChannelConfig list \<Rightarrow> nat \<Rightarrow> bool" where
  "built dial defaults cfgs i \<longleftrightarrow> i < length cfgs \<and> (\<exists>ch. newChannel (dial i) (cfgs ! i) defaults = Inr ch)"

text \<open>The client under construction: channels numbered as dialled, one per role.\<close>

definition client_wf :: "nat \<Rightarrow> Client \<Rightarrow> bool" where
  "client_wf n c \<longleftrightarrow> map (\<lambda>(k, ch). fst ch) (channels c) = [0..<n] \<and> distinct (map fst (channels c))
     \<and> (\<forall>(k, i, ch) \<in> set (channels c). c_kind ch = k)
     \<and> business c = map_of (channels c) KindBusiness"

lemma update_fresh: "map_of al k = None \<Longrightarrow> AList.update k v al = al @ [(k, v)]"
  by (induction al) (auto split: if_splits)

lemma client_wf_add:
  assumes "client_wf i c" and "map_of (channels c) (c_kind ch) = None"
  shows "client_wf (Suc i)
    (let c = c\<lparr>channels := AList.update (c_kind ch) (i, ch) (channels c)\<rparr>
     in if c_kind ch = KindBusiness then c\<lparr>business := Some (i, ch)\<rparr> else c)"
proof -
  have upd: "AList.update (c_kind ch) (i, ch) (channels c) = channels c @ [(c_kind ch, i, ch)]"
    by (rule update_fresh[OF assms(2)])
  have "c_kind ch \<notin> fst ` set (channels c)" using assms(2) by (simp add: map_of_eq_None_iff)
  then show ?thesis
    using assms unfolding client_wf_def Let_def upd
    by (auto simp: map_of_append map_add_def split: option.split)
qed

lemma dial_loop_outcome:
  assumes "dial_loop dial defaults (length done) cfgs c = (r, closes)" and "client_wf (length done) c"
    and "\<forall>i < length done. built dial defaults (done @ cfgs) i"
  shows "case r of
      Inl e \<Rightarrow> \<exists>n. distinct closes \<and> set closes = {i. i < n \<and> built dial defaults (done @ cfgs) i}
        \<and> length done < n \<and> n \<le> length (done @ cfgs)
    | Inr c' \<Rightarrow> closes = [] \<and> client_wf (length (done @ cfgs)) c'
        \<and> (\<forall>i < length (done @ cfgs). built dial defaults (done @ cfgs) i)"
  using assms
proof (induction cfgs arbitrary: "done" c)
  case (Cons cfg cfgs)
  let ?i = "length done" and ?all = "done @ cfg # cfgs"
  have nums: "map (\<lambda>(k, ch). fst ch) (channels c) = [0..<?i]"
    using Cons.prems(2) by (simp add: client_wf_def)
  show ?case
  proof (cases "newChannel (dial ?i) cfg defaults")
    case (Inl e)
    then have "\<not> built dial defaults ?all ?i" by (simp add: built_def)
    moreover have r: "r = Inl e" and closes: "closes = [0..<?i]" using Cons.prems(1) Inl nums by auto
    ultimately have "set closes = {i. i < Suc ?i \<and> built dial defaults ?all i}"
      using Cons.prems(3) by (auto simp: less_Suc_eq)
    then show ?thesis unfolding r sum.case by (intro exI[of _ "Suc ?i"]) (simp add: closes)
  next
    case (Inr ch)
    then have b: "built dial defaults ?all ?i" by (simp add: built_def nth_append)
    show ?thesis
    proof (cases "map_of (channels c) (c_kind ch)")
      case (Some x)
      then have r: "r = Inl (Msg ''duplicate channel role'')" and closes: "closes = ?i # [0..<?i]"
        using Cons.prems(1) Inr nums by auto
      then have "set closes = {i. i < Suc ?i \<and> built dial defaults ?all i}"
        using Cons.prems(3) b by (auto simp: less_Suc_eq)
      then show ?thesis unfolding r sum.case by (intro exI[of _ "Suc ?i"]) (simp add: closes)
    next
      case None
      define c' where "c' = (let c = c\<lparr>channels := AList.update (c_kind ch) (?i, ch) (channels c)\<rparr>
        in if c_kind ch = KindBusiness then c\<lparr>business := Some (?i, ch)\<rparr> else c)"
      have "dial_loop dial defaults (length (done @ [cfg])) cfgs c' = (r, closes)"
        using Cons.prems(1) Inr None by (simp add: c'_def Let_def)
      moreover have "client_wf (length (done @ [cfg])) c'"
        using client_wf_add[OF Cons.prems(2) None] by (simp add: c'_def)
      moreover have "\<forall>i < length (done @ [cfg]). built dial defaults ((done @ [cfg]) @ cfgs) i"
        using Cons.prems(3) b by (auto simp: less_Suc_eq)
      ultimately show ?thesis
        using Cons.IH[of "done @ [cfg]" c'] by (auto split: sum.splits)
    qed
  qed
qed auto

text \<open>
  Dialling is all or nothing: if any channel cannot be built, or a role repeats, every channel
  built so far is closed, each exactly once, and no client is returned; otherwise none is
  closed, every configuration has its channel, the roles are distinct, and the default
  channel is the one with the business role.
\<close>

theorem dial_all_or_nothing:
  assumes "dialChannels dial cfgs defaults = (r, closes)"
  shows "case r of
      Inl e \<Rightarrow> \<exists>n \<le> length cfgs. distinct closes \<and> set closes = {i. i < n \<and> built dial defaults cfgs i}
    | Inr c \<Rightarrow> closes = [] \<and> client_wf (length cfgs) c \<and> (\<forall>i < length cfgs. built dial defaults cfgs i)"
proof -
  have "client_wf 0 \<lparr>channels = [], business = None\<rparr>" by (simp add: client_wf_def)
  then show ?thesis
    using dial_loop_outcome[of dial defaults "[]" cfgs "\<lparr>channels = [], business = None\<rparr>" r closes] assms
    by (auto simp: dialChannels_def split: sum.splits)
qed

definition sample_dial :: "nat \<Rightarrow> channelSettings \<Rightarrow> err option" where
  "sample_dial i s = (if i = 2 then Some (Msg ''refused'') else None)"

definition sample_cfgs :: "ChannelConfig list" where
  "sample_cfgs = [single TransportTCP ''a'' [], (single TransportUDP ''b'' [])\<lparr>cfg_kind := KindBattle\<rparr>,
     (single TransportUDP ''c'' [])\<lparr>cfg_kind := 7\<rparr>]"

theorem dial_all_or_nothing_witness:
  "\<exists>e n. dialChannels sample_dial sample_cfgs [] = (Inl e, [0, 1]) \<and> n \<le> length sample_cfgs
     \<and> set [0, 1] = {i. i < n \<and> built sample_dial [] sample_cfgs i}"
proof -
  have "\<exists>e. dialChannels sample_dial sample_cfgs [] = (Inl e, [0, 1])"
    by (simp add: dialChannels_def newChannel_def channelSettingsOf_def apply_options_def single_def
        defaultSettings_def serializerVersion_def ProtoJSONSerializer_def newChannelWithSettings_def
        sample_dial_def sample_cfgs_def role_consts Let_def)
  then obtain e where d: "dialChannels sample_dial sample_cfgs [] = (Inl e, [0, 1])" ..
  show ?thesis using d dial_all_or_nothing[OF d] unfolding sum.case by blast
qed

text \<open>
  The dual constructor: with a business role at its zero value the client always has a default
  channel and a battle channel; but the role check lets a client through whose first channel
  is the battle one and whose second has any other role, and that client has no default
  channel, although \<open>Invoke\<close>, \<open>On\<close> and \<open>OnReadExit\<close> dereference it.
\<close>

theorem dual_roles:
  assumes "DialDual dial bus bat opts = (Inr c, closes)"
  shows "(if cfg_kind bus = KindBusiness then business c \<noteq> None
          else cfg_kind bus = KindBattle \<and> cfg_kind bat \<noteq> KindBusiness \<and> business c = None)
    \<and> length (channels c) = 2 \<and> closes = []"
proof -
  obtain bus' bat' where n: "normalizeDualRoles bus bat = Inr (bus', bat')"
    using assms by (auto simp: DialDual_def split: sum.splits)
  let ?cfgs = "[bus'\<lparr>cfg_opts := cfg_opts bus' @ [chainedBattleHook (cfg_opts bat')]\<rparr>, bat']"
  have d: "dialChannels dial ?cfgs opts = (Inr c, closes)"
    using assms n by (simp add: DialDual_def)
  have kinds: "cfg_kind bus' = cfg_kind bus"
    "cfg_kind bat' = (if cfg_kind bat = KindBusiness then KindBattle else cfg_kind bat)"
    "cfg_kind bus = KindBusiness \<or> cfg_kind bus = KindBattle" "cfg_kind bus' \<noteq> cfg_kind bat'"
    using n by (auto simp: normalizeDualRoles_def Let_def split: if_splits)
  have "c_kind ch = cfg_kind cfg" if "newChannel dl cfg df = Inr ch" for dl cfg df ch
    using that by (auto simp: newChannel_def newChannelWithSettings_def Let_def split: if_splits sum.splits option.splits)
  with d have "(business c \<noteq> None) = (KindBusiness \<in> set (map cfg_kind ?cfgs)) \<and> length (channels c) = 2 \<and> closes = []"
    by (auto simp: dialChannels_def Let_def split: sum.splits if_splits)
  then show ?thesis using kinds
    by (cases "business c = None") (auto simp: role_consts split: if_splits)
qed

theorem dual_roles_witness:
  "\<exists>c. DialDual (\<lambda>_ _. None) ((single TransportTCP ''a'' [])\<lparr>cfg_kind := KindBattle\<rparr>)
        ((single TransportUDP ''b'' [])\<lparr>cfg_kind := 7\<rparr>) [] = (Inr c, []) \<and> business c = None"
proof -
  let ?b = "(single TransportTCP ''a'' [])\<lparr>cfg_kind := KindBattle\<rparr>" and ?t = "(single TransportUDP ''b'' [])\<lparr>cfg_kind := 7\<rparr>"
  have "\<exists>c. DialDual (\<lambda>_ _. None) ?b ?t [] = (Inr c, [])"
    by (simp add: DialDual_def normalizeDualRoles_def dialChannels_def newChannel_def channelSettingsOf_def
        apply_options_def single_def defaultSettings_def serializerVersion_def ProtoJSONSerializer_def
        newChannelWithSettings_def chainedBattleHook_def role_consts Let_def)
  then obtain c where "DialDual (\<lambda>_ _. None) ?b ?t [] = (Inr c, [])" ..
  from this dual_roles[OF this] show ?thesis by (auto simp: single_def role_consts)
qed

text \<open>
  The chained hook after a business reconnect: the battle channel is re-bound only after the
  business hook succeeded and only while the battle channel is connected (or not yet known);
  a failing business hook is reported as it is and the battle hook is not called at all.
\<close>

theorem chained_hook_order:
  assumes "s_onReconnected (apply_options batOpts defaultSettings) = Some (UserHook b)"
  shows "\<exists>h. s_onReconnected (chainedBattleHook batOpts s) = Some h
    \<and> run_hook out battle h =
       (case s_onReconnected s of
          Some h0 \<Rightarrow>
            (case run_hook out battle h0 of
               (Some e, calls) \<Rightarrow> (Some e, calls)
             | (None, calls) \<Rightarrow> if battle = None \<or> battle = Some StateConnected then (out b, calls @ [b]) else (None, calls))
        | None \<Rightarrow> if battle = None \<or> battle = Some StateConnected then (out b, [b]) else (None, []))"
  using assms
  by (auto simp: chainedBattleHook_def apply_options_def Let_def split: option.splits prod.splits)

theorem chained_hook_order_witness:
  "\<exists>h. s_onReconnected (chainedBattleHook [WithOnReconnected (Some (UserHook 2))]
          (WithOnReconnected (Some (UserHook 1)) defaultSettings)) = Some h
     \<and> run_hook (\<lambda>n. if n = 1 then Some (Msg ''x'') else None) (Some StateConnected) h = (Some (Msg ''x''), [1])"
proof -
  have "s_onReconnected (apply_options [WithOnReconnected (Some (UserHook 2))] defaultSettings) = Some (UserHook 2)"
    by (simp add: apply_options_def WithOnReconnected_def)
  from chained_hook_order[OF this, of "WithOnReconnected (Some (UserHook 1)) defaultSettings"
      "\<lambda>n. if n = 1 then Some (Msg ''x'') else None" "Some StateConnected"]
  show ?thesis by (simp add: WithOnReconnected_def)
qed

end
