(* ===== verification/Claims.thy ===== *)
theory Claims
  imports ClientOptions
begin

text \<open>
  Exactly-once delivery of results. The in-flight table of \<open>client/invoke.go\<close> maps a request
  key to the one-slot channel its caller waits on; the response, the timer, the cancelled
  context, the dying connection and \<open>Close\<close> compete for it, and whoever removes the entry
  (\<open>LoadAndDelete\<close>) owns the delivery. The queued requests of a reconnecting channel use the
  same protocol with a compare-and-swap on \<open>claimed\<close>. The table's contract is a locale; the
  race is a step relation in which claiming and sending are separate steps.
\<close>

section \<open>The table contract\<close>

locale claim_table =
  fixes look :: "'t \<Rightarrow> 'k \<Rightarrow> 'v option"
    and put :: "'k \<Rightarrow> 'v \<Rightarrow> 't \<Rightarrow> 't"
    and discard :: "'k \<Rightarrow> 't \<Rightarrow> 't"
    and claim :: "'k \<Rightarrow> 't \<Rightarrow> 'v option \<times> 't"
  assumes look_put: "look (put k v t) k' = (if k' = k then Some v else look t k')"
    and look_discard: "look (discard k t) k' = (if k' = k then None else look t k')"
    and claim_eq: "claim k t = (look t k, discard k t)"
begin

lemma claim_put: "claim k (put k v t) = (Some v, discard k (put k v t))"
  by (simp add: claim_eq look_put)

lemma claim_twice: "fst (claim k (snd (claim k t))) = None"
  by (simp add: claim_eq look_discard)

lemma claim_other: "k' \<noteq> k \<Longrightarrow> look (snd (claim k t)) k' = look t k'"
  by (simp add: claim_eq look_discard)

lemma claim_loaded: "fst (claim k t) = Some v \<Longrightarrow> look t k = Some v"
  by (simp add: claim_eq)

end

text \<open>\<open>sync.Map\<close> as an association list: \<open>Store\<close>, \<open>Delete\<close>, \<open>LoadAndDelete\<close>.\<close>

definition Store :: "'k \<Rightarrow> 'v \<Rightarrow> ('k \<times> 'v) list \<Rightarrow> ('k \<times> 'v) list" where
  "Store k v t = AList.update k v t"

definition Delete :: "'k \<Rightarrow> ('k \<times> 'v) list \<Rightarrow> ('k \<times> 'v) list" where
  "Delete k t = AList.delete k t"

definition LoadAndDelete :: "'k \<Rightarrow> ('k \<times> 'v) list \<Rightarrow> 'v option \<times> ('k \<times> 'v) list" where
  "LoadAndDelete k t = (map_of t k, AList.delete k t)"

interpretation sync_map: claim_table map_of Store Delete LoadAndDelete
  by unfold_locales (auto simp: Store_def Delete_def LoadAndDelete_def update_conv' delete_conv')

text \<open>A claimed flag per request: the table of those not yet claimed.\<close>

definition cas_claim :: "'k \<Rightarrow> ('k \<Rightarrow> bool option) \<Rightarrow> bool \<times> ('k \<Rightarrow> bool option)" where
  "cas_claim k claimed =
     (case claimed k of Some False \<Rightarrow> (True, claimed(k \<mapsto> True)) | _ \<Rightarrow> (False, claimed))"

definition unclaimed :: "('k \<Rightarrow> bool option) \<Rightarrow> 'k \<Rightarrow> unit option" where
  "unclaimed claimed k = (if claimed k = Some False then Some () else None)"

interpretation cas_flags: claim_table unclaimed
    "\<lambda>k _ c. c(k \<mapsto> False)"
    "\<lambda>k c. if c k = Some False then c(k \<mapsto> True) else c"
    "\<lambda>k c. (if fst (cas_claim k c) then Some () else None, snd (cas_claim k c))"
  by unfold_locales (auto simp: unclaimed_def cas_claim_def fun_eq_iff split: option.splits bool.splits)

section \<open>The race\<close>

text \<open>
  Mailboxes are numbered; each is a channel of capacity one. \<open>owner\<close> records, for the proofs,
  which mailbox a key was stored with; \<open>seen\<close> are the pairs a \<open>Range\<close> in progress has read;
  \<open>sending\<close> the results whose sender has claimed but not yet sent; \<open>got\<close> the results the
  callers have received, and \<open>direct\<close> the callers that claimed for themselves.
\<close>

record ('k, 'r) race =
  table :: "('k \<times> nat) list"
  owner :: "'k \<Rightarrow> nat option"
  seen :: "('k \<times> nat) list"
  sending :: "(nat \<times> 'r) list"
  boxes :: "(nat \<times> 'r) list"
  got :: "(nat \<times> 'r) list"
  direct :: "nat list"

datatype ('k, 'r) race_op =
    StoreReq 'k nat
  | RangeRead 'k
  | ClaimSend 'k 'r
  | ClaimSeen 'k 'r
  | ClaimSelf 'k
  | SendBox nat 'r
  | RecvBox nat 'r
  | DropReq 'k

definition race_start :: "('k, 'r) race" where
  "race_start = \<lparr>table = [], owner = Map.empty, seen = [], sending = [], boxes = [], got = [], direct = []\<rparr>"

text \<open>
  One atomic step. Storing needs a key and a mailbox not used before (a fresh sequence number, a
  fresh \<open>make(chan)\<close>). \<open>ClaimSend\<close> is the timer or the response, \<open>ClaimSeen\<close> the failing
  connection, which sends to the mailbox its \<open>Range\<close> read, \<open>ClaimSelf\<close> the cancelled caller;
  \<open>DropReq\<close> is the deferred delete. A send blocks while the mailbox is full.
\<close>

fun race_do :: "('k, 'r) race_op \<Rightarrow> ('k, 'r) race \<Rightarrow> ('k, 'r) race option" where
  "race_do (StoreReq k m) s =
     (if owner s k \<noteq> None \<or> m \<in> ran (owner s) then None
      else Some (s\<lparr>table := Store k m (table s), owner := (owner s)(k \<mapsto> m)\<rparr>))"
| "race_do (RangeRead k) s =
     (case map_of (table s) k of None \<Rightarrow> None | Some m \<Rightarrow> Some (s\<lparr>seen := (k, m) # seen s\<rparr>))"
| "race_do (ClaimSend k r) s =
     (case LoadAndDelete k (table s) of
        (None, t) \<Rightarrow> Some s
      | (Some m, t) \<Rightarrow> Some (s\<lparr>table := t, sending := (m, r) # sending s\<rparr>))"
| "race_do (ClaimSeen k r) s =
     (case map_of (seen s) k of
        None \<Rightarrow> None
      | Some m \<Rightarrow>
          (case LoadAndDelete k (table s) of
             (None, t) \<Rightarrow> Some s
           | (Some _, t) \<Rightarrow> Some (s\<lparr>table := t, sending := (m, r) # sending s\<rparr>)))"
| "race_do (ClaimSelf k) s =
     (case LoadAndDelete k (table s) of
        (None, t) \<Rightarrow> Some s
      | (Some m, t) \<Rightarrow> Some (s\<lparr>table := t, direct := m # direct s\<rparr>))"
| "race_do (SendBox m r) s =
     (if (m, r) \<in> set (sending s) \<and> m \<notin> fst ` set (boxes s)
      then Some (s\<lparr>sending := remove1 (m, r) (sending s), boxes := (m, r) # boxes s\<rparr>) else None)"
| "race_do (RecvBox m r) s =
     (if (m, r) \<in> set (boxes s)
      then Some (s\<lparr>boxes := remove1 (m, r) (boxes s), got := (m, r) # got s\<rparr>) else None)"
| "race_do (DropReq k) s = Some (s\<lparr>table := Delete k (table s)\<rparr>)"

inductive race_step :: "('k, 'r) race \<Rightarrow> ('k, 'r) race_op \<Rightarrow> ('k, 'r) race \<Rightarrow> bool" where
  "race_do l s = Some t \<Longrightarrow> race_step s l t"

inductive_cases race_stepE: "race_step s l t"

text \<open>How often a mailbox's single delivery right is around, in any of its forms.\<close>

definition rights :: "('k, 'r) race \<Rightarrow> nat \<Rightarrow> nat" where
  "rights s m =
     count_list (map snd (table s)) m + count_list (map fst (sending s)) m
     + count_list (map fst (boxes s)) m + count_list (map fst (got s)) m + count_list (direct s) m"

definition race_inv :: "('k, 'r) race \<Rightarrow> bool" where
  "race_inv s \<longleftrightarrow> distinct (map fst (table s))
     \<and> (\<forall>(k, m) \<in> set (table s). owner s k = Some m)
     \<and> (\<forall>(k, m) \<in> set (seen s). owner s k = Some m)
     \<and> (\<forall>m. rights s m \<le> 1) \<and> (\<forall>m. m \<notin> ran (owner s) \<longrightarrow> rights s m = 0)"

lemma count_delete:
  assumes "distinct (map fst t)" and "map_of t k = Some m"
  shows "count_list (map snd t) x = count_list (map snd (AList.delete k t)) x + (if x = m then 1 else 0)"
  using assms
proof (induction t)
  case (Cons p t)
  obtain k' m' where p: "p = (k', m')" by (cases p)
  show ?case
  proof (cases "k' = k")
    case True
    then have "AList.delete k t = t" using Cons.prems(1) p by (auto intro: delete_idem)
    then show ?thesis using True Cons.prems(2) p by simp
  next
    case False
    then show ?thesis using Cons p by simp
  qed
qed simp

lemma count_delete_le: "count_list (map snd (AList.delete k t)) x \<le> count_list (map snd t) x"
  by (induction t) auto

lemma delete_set_subset: "set (AList.delete k t) \<subseteq> set t"
  by (induction t) auto

lemma count_remove1:
  "(m, r) \<in> set xs \<Longrightarrow> count_list (map fst xs) x = count_list (map fst (remove1 (m, r) xs)) x + (if x = m then 1 else 0)"
  by (induction xs) auto

lemma count_update_fresh:
  "map_of t k = None \<Longrightarrow> count_list (map snd (AList.update k m t)) x = count_list (map snd t) x + (if x = m then 1 else 0)"
  by (simp add: update_fresh)

lemma race_inv_start: "race_inv race_start"
  by (simp add: race_inv_def race_start_def rights_def)

lemma in_table_owner: "race_inv s \<Longrightarrow> map_of (table s) k = Some m \<Longrightarrow> owner s k = Some m"
  unfolding race_inv_def by (auto dest: map_of_SomeD)

text \<open>Taking an entry out of the table and creating one delivery right elsewhere.\<close>

lemma race_inv_claim:
  assumes "race_inv s" and "map_of (table s) k = Some m"
    and "\<And>x. rights t x = rights (s\<lparr>table := AList.delete k (table s)\<rparr>) x + (if x = m then 1 else 0)"
    and "table t = AList.delete k (table s)" "owner t = owner s" "seen t = seen s"
  shows "race_inv t"
proof -
  have d: "distinct (map fst (table s))" using assms(1) by (simp add: race_inv_def)
  have "rights t x = rights s x" for x
    using count_delete[OF d assms(2), of x] unfolding assms(3) by (simp add: rights_def)
  then show ?thesis
    using assms by (auto simp: race_inv_def distinct_delete dest!: set_mp[OF delete_set_subset])
qed


lemma race_inv_step:
  assumes inv: "race_inv s" and "race_step s l t"
  shows "race_inv t"
proof -
  have do: "race_do l s = Some t" using assms(2) by (auto elim: race_stepE)
  show ?thesis
  proof (cases l)
    case (StoreReq k m)
    with do have k: "owner s k = None" and m: "m \<notin> ran (owner s)"
      and t: "t = s\<lparr>table := Store k m (table s), owner := (owner s)(k \<mapsto> m)\<rparr>"
      by (auto split: if_splits)
    have none: "map_of (table s) k = None" using in_table_owner[OF inv] k by (cases "map_of (table s) k") auto
    have r: "rights t x = rights s x + (if x = m then 1 else 0)" for x
      using count_update_fresh[OF none, of m x] by (simp add: rights_def t Store_def)
    have "rights s m = 0" using inv m by (simp add: race_inv_def)
    moreover have "k \<notin> fst ` set (table s)" using none by (simp add: map_of_eq_None_iff)
    moreover have "owner t x = Some y" if "owner s x = Some y" for x y
      using that k by (auto simp: t)
    moreover have "ran (owner t) = insert m (ran (owner s))" using k by (simp add: t)
    moreover have "table t = table s @ [(k, m)]" "seen t = seen s" "owner t k = Some m"
      by (simp_all add: t Store_def update_fresh[OF none])
    ultimately show ?thesis
      using inv unfolding race_inv_def r by auto
  next
    case (RangeRead k)
    with do obtain m where "map_of (table s) k = Some m" "t = s\<lparr>seen := (k, m) # seen s\<rparr>"
      by (auto split: option.splits)
    with inv in_table_owner[OF inv, of k] show ?thesis by (auto simp: race_inv_def rights_def)
  next
    case (ClaimSend k r)
    show ?thesis
    proof (cases "map_of (table s) k")
      case (Some m)
      with do ClaimSend show ?thesis
        by (intro race_inv_claim[OF inv Some]) (auto simp: LoadAndDelete_def rights_def)
    qed (use do ClaimSend inv in \<open>simp add: LoadAndDelete_def\<close>)
  next
    case (ClaimSeen k r)
    with do obtain m' where seen: "map_of (seen s) k = Some m'" by (auto split: option.splits)
    then have o: "owner s k = Some m'" using inv by (auto simp: race_inv_def dest: map_of_SomeD)
    show ?thesis
    proof (cases "map_of (table s) k")
      case (Some m)
      with o in_table_owner[OF inv Some] have "m = m'" by simp
      with do ClaimSeen Some seen show ?thesis
        by (intro race_inv_claim[OF inv Some]) (auto simp: LoadAndDelete_def rights_def)
    qed (use do ClaimSeen inv seen in \<open>simp add: LoadAndDelete_def\<close>)
  next
    case (ClaimSelf k)
    show ?thesis
    proof (cases "map_of (table s) k")
      case (Some m)
      with do ClaimSelf show ?thesis
        by (intro race_inv_claim[OF inv Some]) (auto simp: LoadAndDelete_def rights_def)
    qed (use do ClaimSelf inv in \<open>simp add: LoadAndDelete_def\<close>)
  next
    case (SendBox m r)
    with do have "(m, r) \<in> set (sending s)"
      and t: "t = s\<lparr>sending := remove1 (m, r) (sending s), boxes := (m, r) # boxes s\<rparr>"
      by (auto split: if_splits)
    then have "rights t x = rights s x" for x
      using count_remove1[of m r "sending s" x] by (simp add: rights_def)
    with inv show ?thesis by (simp add: race_inv_def t)
  next
    case (RecvBox m r)
    with do have "(m, r) \<in> set (boxes s)"
      and t: "t = s\<lparr>boxes := remove1 (m, r) (boxes s), got := (m, r) # got s\<rparr>"
      by (auto split: if_splits)
    then have "rights t x = rights s x" for x
      using count_remove1[of m r "boxes s" x] by (simp add: rights_def)
    with inv show ?thesis by (simp add: race_inv_def t)
  next
    case (DropReq k)
    with do have t: "t = s\<lparr>table := AList.delete k (table s)\<rparr>" by (simp add: Delete_def)
    have r: "rights t x \<le> rights s x" for x
      using count_delete_le[of k "table s" x] by (simp add: rights_def t)
    have "rights t m \<le> 1" "m \<notin> ran (owner s) \<Longrightarrow> rights t m = 0" for m
      using inv r[of m] unfolding race_inv_def by (auto intro: order_trans)
    then show ?thesis
      using inv unfolding race_inv_def
      by (auto simp: t distinct_delete dest!: set_mp[OF delete_set_subset])
  qed
qed

interpretation race: inductive_invariant "\<lambda>s. s = race_start" race_step race_inv
  by unfold_locales (auto simp: race_inv_start intro: race_inv_step)

abbreviation race_reach :: "('k, 'r) race \<Rightarrow> bool" where
  "race_reach \<equiv> reach (\<lambda>s. s = race_start) race_step"

lemma count_fst_pos: "(m, r) \<in> set xs \<Longrightarrow> 0 < count_list (map fst xs) m"
  by (induction xs) auto



end
