(* ===== verification/Base64.thy ===== *)
theory Base64
  imports GoErrors
begin

text \<open>
  \<open>encoding/base64\<close> as the code uses it: unpadded URL encoding of idempotency keys and ticket
  slots, and standard decoding, padded or not, of tickets in notifications.
\<close>

definition sextet_char :: "string \<Rightarrow> nat \<Rightarrow> char" where
  "sextet_char alphabet i = alphabet ! i"

definition base_alphabet :: string where
  "base_alphabet = ''ABCDEFGHIJKLMNOPQRSTUVWXYZabcdefghijklmnopqrstuvwxyz0123456789''"

definition url_alphabet :: string where "url_alphabet = base_alphabet @ ''-_''"
definition std_alphabet :: string where "std_alphabet = base_alphabet @ ''+/''"

fun sextets :: "byte list \<Rightarrow> nat list" where
  "sextets [] = []"
| "sextets [a] = [unat a div 4, (unat a mod 4) * 16]"
| "sextets [a, b] = [unat a div 4, (unat a mod 4) * 16 + unat b div 16, (unat b mod 16) * 4]"
| "sextets (a # b # c # rest) =
     [unat a div 4, (unat a mod 4) * 16 + unat b div 16, (unat b mod 16) * 4 + unat c div 64, unat c mod 64]
     @ sextets rest"

definition raw_encode :: "string \<Rightarrow> byte list \<Rightarrow> string" where
  "raw_encode alphabet b = map (sextet_char alphabet) (sextets b)"

definition RawURLEncode :: "byte list \<Rightarrow> string" where
  "RawURLEncode b = raw_encode url_alphabet b"

text \<open>Decoding; a character outside the alphabet is an error, line ends are dropped first.\<close>

fun unsextets :: "nat list \<Rightarrow> byte list option" where
  "unsextets [] = Some []"
| "unsextets [a] = None"
| "unsextets [a, b] = Some [of_nat (a * 4 + b div 16)]"
| "unsextets [a, b, c] = Some [of_nat (a * 4 + b div 16), of_nat ((b mod 16) * 16 + c div 4)]"
| "unsextets (a # b # c # d # rest) =
     map_option (\<lambda>r. [of_nat (a * 4 + b div 16), of_nat ((b mod 16) * 16 + c div 4), of_nat ((c mod 4) * 64 + d)] @ r)
       (unsextets rest)"

fun sextet_values :: "string \<Rightarrow> string \<Rightarrow> nat list option" where
  "sextet_values alphabet [] = Some []"
| "sextet_values alphabet (c # cs) =
     (if c \<in> set alphabet
      then map_option (\<lambda>r. length (takeWhile (\<lambda>x. x \<noteq> c) alphabet) # r) (sextet_values alphabet cs)
      else None)"

definition raw_decode :: "string \<Rightarrow> string \<Rightarrow> byte list option" where
  "raw_decode alphabet s =
     sextet_values alphabet (filter (\<lambda>c. c \<noteq> CHR 0x0A \<and> c \<noteq> CHR 0x0D) s) \<bind> unsextets"

lemma sextets_bound: "x \<in> set (sextets b) \<Longrightarrow> x < 64"
proof (induction b rule: sextets.induct)
  case (2 a)
  then show ?case using unsigned_less[of a, where 'a = nat] by (auto simp: less_mult_imp_div_less)
next
  case (3 a b)
  then show ?case
    using unsigned_less[of a, where 'a = nat] unsigned_less[of b, where 'a = nat] by auto
next
  case (4 a b c rest)
  then show ?case
    using unsigned_less[of a, where 'a = nat] unsigned_less[of b, where 'a = nat]
      unsigned_less[of c, where 'a = nat] by auto
qed simp

lemma unsextets_sextets: "unsextets (sextets b) = Some b"
proof (induction b rule: sextets.induct)
  case (2 a)
  have "unat a div 4 * 4 + unat a mod 4 * 16 div 16 = unat a" by simp
  then show ?case by (simp add: word_unat_eq_iff unat_of_nat del: of_nat_add)
next
  case (3 a b)
  have "unat b div 16 < 16" using unsigned_less[of b, where 'a = nat] by auto
  then have "unat a div 4 * 4 + (unat a mod 4 * 16 + unat b div 16) div 16 = unat a"
    "(unat a mod 4 * 16 + unat b div 16) mod 16 * 16 + unat b mod 16 * 4 div 4 = unat b" by simp_all
  then show ?case by (simp add: word_unat_eq_iff unat_of_nat del: of_nat_add of_nat_mult)
next
  case (4 a b c rest)
  have "unat b div 16 < 16" "unat c div 64 < 4"
    using unsigned_less[of b, where 'a = nat] unsigned_less[of c, where 'a = nat] by auto
  then have "unat a div 4 * 4 + (unat a mod 4 * 16 + unat b div 16) div 16 = unat a"
    "(unat a mod 4 * 16 + unat b div 16) mod 16 * 16 + (unat b mod 16 * 4 + unat c div 64) div 4 = unat b"
    "(unat b mod 16 * 4 + unat c div 64) mod 4 * 64 + unat c mod 64 = unat c" by simp_all
  with 4 show ?case by (simp add: word_unat_eq_iff unat_of_nat del: of_nat_add of_nat_mult)
qed simp

lemma takeWhile_nth_distinct:
  "distinct xs \<Longrightarrow> i < length xs \<Longrightarrow> length (takeWhile (\<lambda>x. x \<noteq> xs ! i) xs) = i"
proof (induction xs arbitrary: i)
  case (Cons x xs)
  then show ?case by (cases i) auto
qed simp

lemma sextet_values_map:
  assumes "distinct alphabet" and "\<forall>i \<in> set xs. i < length alphabet"
  shows "sextet_values alphabet (map (sextet_char alphabet) xs) = Some xs"
  using assms(2)
proof (induction xs)
  case (Cons x xs)
  then show ?case using takeWhile_nth_distinct[OF assms(1), of x] by (simp add: sextet_char_def)
qed simp

definition good_alphabet :: "string \<Rightarrow> bool" where
  "good_alphabet a \<longleftrightarrow> distinct a \<and> length a = 64 \<and> CHR 0x0A \<notin> set a \<and> CHR 0x0D \<notin> set a"

lemma good_alphabets: "good_alphabet url_alphabet" "good_alphabet std_alphabet"
  by (simp_all add: good_alphabet_def url_alphabet_def std_alphabet_def base_alphabet_def)

lemma raw_encode_chars: "good_alphabet a \<Longrightarrow> c \<in> set (raw_encode a b) \<Longrightarrow> c \<in> set a"
  by (auto simp: raw_encode_def sextet_char_def good_alphabet_def dest: sextets_bound)

lemma raw_decode_encode:
  assumes "good_alphabet a"
  shows "raw_decode a (raw_encode a b) = Some b"
proof -
  have "filter (\<lambda>c. c \<noteq> CHR 0x0A \<and> c \<noteq> CHR 0x0D) (raw_encode a b) = raw_encode a b"
    using assms raw_encode_chars[OF assms, of _ b] unfolding good_alphabet_def by (intro filter_True) metis
  moreover have "sextet_values a (raw_encode a b) = Some (sextets b)"
    unfolding raw_encode_def
    using assms by (intro sextet_values_map) (auto simp: good_alphabet_def dest: sextets_bound)
  ultimately show ?thesis by (simp add: raw_decode_def unsextets_sextets)
qed

lemma RawURLEncode_inject: "RawURLEncode a = RawURLEncode b \<longleftrightarrow> a = b"
  unfolding RawURLEncode_def using raw_decode_encode[OF good_alphabets(1)] by (metis option.inject)

lemma RawURLEncode_Nil: "RawURLEncode b = [] \<longleftrightarrow> b = []"
  by (cases b rule: sextets.cases) (simp_all add: RawURLEncode_def raw_encode_def)

end
