(* ===== verification/Channel.thy ===== *)
theory Channel
  imports Claims Base64
begin

text \<open>
  One connection of the client (\<open>client/channel.go\<close>, \<open>client/invoke.go\<close>, \<open>client/queue.go\<close>):
  its state, the request path (frame assembly, sequence numbers, in-flight table, queue),
  the response path, and the ways a channel fails. Every operation is a function on the
  channel's state. Where the code blocks (waiting for a response), the operation ends in a
  value that says what it waits for, and what happens next is another operation; the racing
  orders of those are the step relation of \<open>Claims\<close>.
\<close>

section \<open>State\<close>

type_synonym inflightKey = "u64 \<times> u32"

record invokeResult =
  r_data :: bytes
  r_st :: "Status option"
  r_err :: "err option"

record invokeOpts =
  failFast :: bool
  idempotencyKey :: string
  noIdempotency :: bool

definition WithFailFast :: "invokeOpts \<Rightarrow> invokeOpts" where "WithFailFast o' = o'\<lparr>failFast := True\<rparr>"

definition WithIdempotencyKey :: "string \<Rightarrow> invokeOpts \<Rightarrow> invokeOpts" where
  "WithIdempotencyKey i o' = o'\<lparr>idempotencyKey := i\<rparr>"

definition WithNoIdempotency :: "invokeOpts \<Rightarrow> invokeOpts" where "WithNoIdempotency o' = o'\<lparr>noIdempotency := True\<rparr>"

text \<open>A context: its deadline and, once it is done, its error.\<close>

record ctx =
  ctx_deadline :: "int option"
  ctx_err :: "err option"

text \<open>A request value is opaque; \<open>None\<close> is a nil request. \<open>q_resp\<close>: is a response wanted.\<close>

record queuedInvoke =
  q_id :: nat
  q_ctx :: ctx
  q_op :: string
  q_req :: "nat option"
  q_resp :: bool
  q_requestID :: string
  q_deadline :: int

text \<open>\<open>g_tr\<close> names the transport; \<open>g_done\<close> the channel closed when the read loop ends.\<close>

record generation =
  g_epoch :: u64
  g_tr :: nat
  g_done :: nat

record channel =
  prm :: channel_params
  genPtr :: "generation option"
  ch_seq :: u32
  inflight :: "(inflightKey \<times> nat) list"
  mail :: "(nat \<times> invokeResult) list"
  next_box :: nat
  ch_state :: State
  hookBypass :: bool
  ch_closed :: bool
  queue :: "queuedInvoke list"
  next_q :: nat
  claimed :: "nat \<Rightarrow> bool option"
  q_results :: "(nat \<times> err option) list"
  closed_trs :: "nat list"
  next_tr :: nat
  done_closed :: "nat list"
  sent :: "(nat \<times> header \<times> bytes) list"

definition new_channel :: "channel_params \<Rightarrow> channel" where
  "new_channel p = \<lparr>prm = p, genPtr = None, ch_seq = 0, inflight = [], mail = [], next_box = 0,
     ch_state = StateDisconnected, hookBypass = False, ch_closed = False, queue = [], next_q = 0,
     claimed = Map.empty, q_results = [], closed_trs = [], next_tr = 0, done_closed = [], sent = []\<rparr>"

text \<open>
  What the code is given from outside: the transport's write result, the token provider, the
  serializer's two functions (the request's bytes, and the error of unmarshalling into the
  caller's response value), the source of idempotency keys and the clock.
\<close>

record env =
  e_write :: "nat \<Rightarrow> header \<Rightarrow> bytes \<Rightarrow> err option"
  e_token :: "nat \<Rightarrow> string"
  e_marshal :: "nat \<Rightarrow> err + bytes"
  e_unmarshal :: "bytes \<Rightarrow> err option"
  e_rand :: "bytes option"
  e_now :: int

section \<open>Generations (client/channel.go)\<close>

definition setConn :: "nat \<Rightarrow> channel \<Rightarrow> channel" where
  "setConn tr ch =
     (let epoch = (case genPtr ch of None \<Rightarrow> 1 | Some prev \<Rightarrow> g_epoch prev + 1)
      in ch\<lparr>genPtr := Some \<lparr>g_epoch = epoch, g_tr = tr, g_done = tr\<rparr>, next_tr := max (next_tr ch) (Suc tr)\<rparr>)"

definition close_tr :: "nat \<Rightarrow> channel \<Rightarrow> channel" where
  "close_tr tr ch = ch\<lparr>closed_trs := tr # closed_trs ch\<rparr>"

definition closeConn :: "channel \<Rightarrow> channel" where
  "closeConn ch = (case genPtr ch of None \<Rightarrow> ch | Some g \<Rightarrow> close_tr (g_tr g) ch)"

definition trOfDone :: "nat \<Rightarrow> channel \<Rightarrow> nat option" where
  "trOfDone d ch = (case genPtr ch of None \<Rightarrow> None | Some g \<Rightarrow> if g_done g = d then Some (g_tr g) else None)"

definition closeGeneration :: "nat \<Rightarrow> channel \<Rightarrow> channel" where
  "closeGeneration d ch = (case trOfDone d ch of None \<Rightarrow> ch | Some tr \<Rightarrow> close_tr tr ch)"

definition nextSeq :: "channel \<Rightarrow> u32 \<times> channel" where
  "nextSeq ch =
     (let s = ch_seq ch + 1; s = (if s \<noteq> 0 then s else s + 1)
      in (s, ch\<lparr>ch_seq := s\<rparr>))"

section \<open>Sending a request (client/invoke.go)\<close>

abbreviation net_err :: "string \<Rightarrow> err" where
  "net_err m \<equiv> NewNetworkError (Msg m)"

definition err_closed :: err where "err_closed = NewNetworkError (Msg ''closed'')"

definition newRequestID :: "env \<Rightarrow> string" where
  "newRequestID e = (case e_rand e of None \<Rightarrow> [] | Some b \<Rightarrow> RawURLEncode b)"

definition marshalRequest :: "env \<Rightarrow> nat option \<Rightarrow> err + bytes" where
  "marshalRequest e req =
     (case req of
        None \<Rightarrow> Inr []
      | Some r \<Rightarrow>
          (case e_marshal e r of
             Inl x \<Rightarrow> Inl (NewProtocolError (Wrap ''marshal'' [x]))
           | Inr payload \<Rightarrow> Inr payload))"

definition request_token :: "env \<Rightarrow> channel_params \<Rightarrow> string" where
  "request_token e p =
     (if c_frameSessionSlot p then (case c_sessionToken p of None \<Rightarrow> [] | Some t \<Rightarrow> e_token e t) else [])"

definition buildRequestFrame ::
  "env \<Rightarrow> channel_params \<Rightarrow> string \<Rightarrow> bytes \<Rightarrow> string \<Rightarrow> (err + header \<times> bytes) option" where
  "buildRequestFrame e p op payload requestID =
     (let hdr = \<lparr>hMagic = 0, hVersion = c_ver p, hType = MsgTypeRequest, hFlags = 0, hSeq = 0, hLength = 0\<rparr>;
          slotToken = request_token e p;
          hdr = (if slotToken \<noteq> [] then hdr\<lparr>hFlags := hFlags hdr OR FlagSession\<rparr> else hdr);
          hdr = (if requestID \<noteq> [] then hdr\<lparr>hFlags := hFlags hdr OR FlagRequestID\<rparr> else hdr)
      in do {
        r \<leftarrow> BuildRequestBodyFull (bytes_of_string op) (bytes_of_string slotToken)
               (bytes_of_string requestID) payload;
        (case r of
           Inl x \<Rightarrow> Some (Inl (NewProtocolError x))
         | Inr body \<Rightarrow> Some (Inr (hdr, body)))
      })"

text \<open>How far a request got: an error, or waiting on a mailbox under a key.\<close>

datatype started = Panicked | Failed err | Waiting inflightKey nat

definition invokeOnce_send ::
  "env \<Rightarrow> string \<Rightarrow> nat option \<Rightarrow> string \<Rightarrow> channel \<Rightarrow> started \<times> channel" where
  "invokeOnce_send e op req requestID ch =
     (if ch_state ch = StateReconnecting \<and> \<not> hookBypass ch then (Failed (net_err ''reconnecting''), ch)
      else (case genPtr ch of
        None \<Rightarrow> (Failed err_closed, ch)
      | Some g \<Rightarrow>
          if ch_closed ch then (Failed err_closed, ch)
          else (case marshalRequest e req of
            Inl x \<Rightarrow> (Failed x, ch)
          | Inr payload \<Rightarrow>
              (case buildRequestFrame e (prm ch) op payload requestID of
                None \<Rightarrow> (Panicked, ch)
              | Some (Inl x) \<Rightarrow> (Failed x, ch)
              | Some (Inr (hdr, body)) \<Rightarrow>
                  let (s, ch) = nextSeq ch;
                      key = (g_epoch g, s);
                      hdr = hdr\<lparr>hSeq := s\<rparr>;
                      m = next_box ch;
                      ch = ch\<lparr>next_box := Suc m, inflight := Store key m (inflight ch)\<rparr>
                  in (case e_write e (g_tr g) hdr body of
                        Some x \<Rightarrow>
                          (Failed (NewNetworkError (Wrap ''write'' [x])), ch\<lparr>inflight := Delete key (inflight ch)\<rparr>)
                      | None \<Rightarrow> (Waiting key m, ch\<lparr>sent := sent ch @ [(g_tr g, hdr, body)]\<rparr>))))))"

section \<open>Waiting for the result\<close>

definition put_mail :: "nat \<Rightarrow> invokeResult \<Rightarrow> channel \<Rightarrow> channel" where
  "put_mail m r ch = ch\<lparr>mail := mail ch @ [(m, r)]\<rparr>"

definition err_result :: "err \<Rightarrow> invokeResult" where
  "err_result x = \<lparr>r_data = [], r_st = None, r_err = Some x\<rparr>"

text \<open>The timeout that \<open>awaitResult\<close> arms, and the three ways out of its \<open>select\<close>.\<close>

definition effective_timeout :: "env \<Rightarrow> channel_params \<Rightarrow> ctx \<Rightarrow> duration" where
  "effective_timeout e p c =
     (case ctx_deadline c of
        Some d \<Rightarrow> if d - e_now e < c_invokeTimeout p then d - e_now e else c_invokeTimeout p
      | None \<Rightarrow> c_invokeTimeout p)"

definition timer_fires :: "inflightKey \<Rightarrow> nat \<Rightarrow> channel \<Rightarrow> channel" where
  "timer_fires key m ch =
     (case LoadAndDelete key (inflight ch) of
        (None, t) \<Rightarrow> ch
      | (Some _, t) \<Rightarrow> put_mail m (err_result (NewTimeoutError (Msg ''timeout''))) (ch\<lparr>inflight := t\<rparr>))"

text \<open>
  The context is done: claim for oneself; if someone else claimed, take what is in the mailbox,
  and give up after a second (\<open>late\<close>) when nothing arrives.
\<close>

definition resultToError :: "env \<Rightarrow> invokeResult \<Rightarrow> bool \<Rightarrow> err option" where
  "resultToError e r resp =
     (case r_err r of
        Some x \<Rightarrow> Some x
      | None \<Rightarrow>
          (case r_st r of
             Some st \<Rightarrow>
               Some (BusinessError \<lparr>be_code = st_code st, be_reason = st_reason st,
                 be_message = st_message st, be_metadata = st_metadata st, be_class = st_class st\<rparr>)
           | None \<Rightarrow>
               if resp \<and> 0 < length (r_data r)
               then (case e_unmarshal e (r_data r) of
                       Some x \<Rightarrow> Some (NewProtocolError (Wrap ''unmarshal'' [x]))
                     | None \<Rightarrow> None)
               else None))"

definition take_mail :: "nat \<Rightarrow> channel \<Rightarrow> invokeResult option \<times> channel" where
  "take_mail m ch = (map_of (mail ch) m, ch\<lparr>mail := AList.delete m (mail ch)\<rparr>)"

definition ctx_done :: "env \<Rightarrow> err \<Rightarrow> inflightKey \<Rightarrow> nat \<Rightarrow> bool \<Rightarrow> channel \<Rightarrow> err option \<times> channel" where
  "ctx_done e x key m resp ch =
     (case LoadAndDelete key (inflight ch) of
        (Some _, t) \<Rightarrow> (Some (NewNetworkError x), ch\<lparr>inflight := t\<rparr>)
      | (None, t) \<Rightarrow>
          (case take_mail m ch of
             (Some r, ch) \<Rightarrow> (resultToError e r resp, ch)
           | (None, ch) \<Rightarrow> (Some (NewNetworkError x), ch)))"

section \<open>Responses and failures\<close>

definition dispatchResponse :: "header \<Rightarrow> bytes \<Rightarrow> channel \<Rightarrow> (err option \<times> channel) option" where
  "dispatchResponse hdr body ch =
     (if hVersion hdr \<noteq> c_ver (prm ch)
      then Some (Some (NewProtocolError (Msg ''version mismatch'')), ch)
      else do {
        d \<leftarrow> DecodeReply body;
        (case d of
           Inl x \<Rightarrow> Some (Some (NewProtocolError x), ch)
         | Inr (dat, st) \<Rightarrow>
             do {
               g \<leftarrow> genPtr ch;
               let r = (case st of Some _ \<Rightarrow> \<lparr>r_data = [], r_st = st, r_err = None\<rparr>
                        | None \<Rightarrow> \<lparr>r_data = dat, r_st = None, r_err = None\<rparr>);
               (case LoadAndDelete (g_epoch g, hSeq hdr) (inflight ch) of
                  (Some m, t) \<Rightarrow> Some (None, put_mail m r (ch\<lparr>inflight := t\<rparr>))
                | (None, t) \<Rightarrow> Some (None, ch))
             })
      })"

definition settle_error :: "err option \<Rightarrow> err" where
  "settle_error cause =
     (let c = (case cause of None \<Rightarrow> Msg ''closed'' | Some x \<Rightarrow> x)
      in if as_protocol c \<noteq> None then c else NewNetworkError c)"

fun fail_each :: "err \<Rightarrow> (inflightKey \<times> nat) list \<Rightarrow> channel \<Rightarrow> channel" where
  "fail_each x [] ch = ch"
| "fail_each x ((key, m) # kvs) ch =
     (case LoadAndDelete key (inflight ch) of
        (Some _, t) \<Rightarrow> fail_each x kvs (put_mail m (err_result x) (ch\<lparr>inflight := t\<rparr>))
      | (None, t) \<Rightarrow> fail_each x kvs ch)"

definition failAllInflight :: "err option \<Rightarrow> channel \<Rightarrow> channel" where
  "failAllInflight cause ch = fail_each (settle_error cause) (inflight ch) ch"

text \<open>Compare-and-swap of \<open>claimed\<close>, and the send on the request's one-slot result channel.\<close>

definition try_claim :: "nat \<Rightarrow> channel \<Rightarrow> bool \<times> channel" where
  "try_claim q ch = (let (ok, c) = cas_claim q (claimed ch) in (ok, ch\<lparr>claimed := c\<rparr>))"

definition put_q_result :: "nat \<Rightarrow> err option \<Rightarrow> channel \<Rightarrow> channel" where
  "put_q_result q r ch = ch\<lparr>q_results := q_results ch @ [(q, r)]\<rparr>"

definition claim_with :: "nat \<Rightarrow> err option \<Rightarrow> channel \<Rightarrow> channel" where
  "claim_with q r ch = (case try_claim q ch of (True, ch) \<Rightarrow> put_q_result q r ch | (False, ch) \<Rightarrow> ch)"

fun fail_queue :: "queuedInvoke list \<Rightarrow> channel \<Rightarrow> channel" where
  "fail_queue [] ch = ch"
| "fail_queue (q # qs) ch = fail_queue qs (claim_with (q_id q) (Some err_closed) ch)"

definition failAllQueued :: "channel \<Rightarrow> channel" where
  "failAllQueued ch = fail_queue (queue ch) (ch\<lparr>queue := []\<rparr>)"

definition classifyReadError :: "err option \<Rightarrow> err option" where
  "classifyReadError r =
     (case r of
        None \<Rightarrow> None
      | Some x \<Rightarrow> Some (if errors_is x FrameErrProtocol then ProtocolError x else NetworkError x))"

definition terminate :: "channel \<Rightarrow> channel" where
  "terminate ch = (closeConn (ch\<lparr>ch_closed := True\<rparr>))\<lparr>ch_state := StateDisconnected\<rparr>"

definition Close :: "channel \<Rightarrow> channel" where
  "Close ch =
     (if ch_closed ch then ch
      else
        let ch = closeConn (ch\<lparr>ch_closed := True\<rparr>);
            ch = failAllInflight (Some (Msg ''closed'')) ch;
            ch = failAllQueued ch
        in ch\<lparr>ch_state := StateDisconnected\<rparr>)"

section \<open>The reconnect queue (client/queue.go, client/invoke.go)\<close>

definition enqueueLocked ::
  "env \<Rightarrow> ctx \<Rightarrow> string \<Rightarrow> nat option \<Rightarrow> bool \<Rightarrow> string \<Rightarrow> channel \<Rightarrow> (err + queuedInvoke) \<times> channel" where
  "enqueueLocked e c op req resp requestID ch =
     (let dl = wrap64 (e_now e + c_invokeTimeout (prm ch));
          dl = (case ctx_deadline c of Some d \<Rightarrow> if d < dl then d else dl | None \<Rightarrow> dl);
          q = \<lparr>q_id = next_q ch, q_ctx = c, q_op = op, q_req = req, q_resp = resp,
               q_requestID = requestID, q_deadline = dl\<rparr>
      in if int (length (queue ch)) < c_queueSize (prm ch)
         then (Inr q, ch\<lparr>queue := queue ch @ [q], next_q := Suc (next_q ch),
                         claimed := (claimed ch)(q_id q \<mapsto> False)\<rparr>)
         else (Inl (net_err ''queue full''), ch))"

text \<open>
  The deadline watch: it sleeps until the deadline, the context is done, or the channel closes;
  only the last makes it leave without claiming.
\<close>

datatype wakeup = DeadlineReached | CtxDone | ChannelClosed

definition queueDeadlineWatch :: "env \<Rightarrow> queuedInvoke \<Rightarrow> wakeup \<Rightarrow> channel \<Rightarrow> channel" where
  "queueDeadlineWatch e q w ch =
     (if q_deadline q - e_now e > 0 \<and> w = ChannelClosed then ch
      else claim_with (q_id q) (Some (NewTimeoutError (Msg ''queue timeout''))) ch)"

definition take_q_result :: "nat \<Rightarrow> channel \<Rightarrow> err option option \<times> channel" where
  "take_q_result q ch = (map_of (q_results ch) q, ch\<lparr>q_results := AList.delete q (q_results ch)\<rparr>)"

text \<open>The three cases of \<open>awaitQueued\<close>; the result arrived, the context is done, the channel closed.\<close>

definition queued_ctx_done :: "err \<Rightarrow> queuedInvoke \<Rightarrow> channel \<Rightarrow> err option \<times> channel" where
  "queued_ctx_done x q ch =
     (case try_claim (q_id q) ch of
        (True, ch) \<Rightarrow> (Some (NewNetworkError x), ch)
      | (False, ch) \<Rightarrow>
          (case take_q_result (q_id q) ch of
             (Some r, ch) \<Rightarrow> (r, ch)
           | (None, ch) \<Rightarrow> (Some (NewNetworkError x), ch)))"

definition queued_closed :: "queuedInvoke \<Rightarrow> channel \<Rightarrow> err option \<times> channel" where
  "queued_closed q ch =
     (case take_q_result (q_id q) ch of
        (Some r, ch) \<Rightarrow> (r, ch)
      | (None, ch) \<Rightarrow> (Some err_closed, ch))"

section \<open>Invoke (client/invoke.go)\<close>

definition choose_requestID :: "env \<Rightarrow> invokeOpts \<Rightarrow> string" where
  "choose_requestID e o' =
     (if noIdempotency o' then []
      else if idempotencyKey o' \<noteq> [] then idempotencyKey o'
      else newRequestID e)"

text \<open>What an \<open>invoke\<close> leads to: an immediate error, a request under way, or one in the queue.\<close>

datatype invoked = Sent started | Queued queuedInvoke

definition invoke ::
  "env \<Rightarrow> ctx \<Rightarrow> string \<Rightarrow> nat option \<Rightarrow> bool \<Rightarrow> invokeOpts \<Rightarrow> channel \<Rightarrow> invoked \<times> channel" where
  "invoke e c op req resp o' ch =
     (if ch_closed ch then (Sent (Failed err_closed), ch)
      else
        let requestID = choose_requestID e o' in
        if hookBypass ch
        then (case invokeOnce_send e op req requestID ch of (s, ch) \<Rightarrow> (Sent s, ch))
        else if \<not> failFast o' \<and> ch_state ch = StateReconnecting
        then (case enqueueLocked e c op req resp requestID ch of
                (Inl x, ch) \<Rightarrow> (Sent (Failed x), ch)
              | (Inr q, ch) \<Rightarrow> (Queued q, ch))
        else (case invokeOnce_send e op req requestID ch of (s, ch) \<Rightarrow> (Sent s, ch)))"

section \<open>The read loop (client/heartbeat.go)\<close>

text \<open>
  One frame read: the loop goes on, or leaves with an error (\<open>None\<close> when the channel was
  closed meanwhile). Notify frames go to the subscription table and leave this state alone.
\<close>

datatype read_outcome = Continue | Exit "err option"

definition readLoop_step :: "err + header \<times> bytes \<Rightarrow> channel \<Rightarrow> (read_outcome \<times> channel) option" where
  "readLoop_step rd ch =
     (case rd of
        Inl x \<Rightarrow> Some (Exit (if \<not> ch_closed ch then classifyReadError (Some x) else None), ch)
      | Inr (hdr, body) \<Rightarrow>
          if hType hdr = MsgTypeResponse then
            do {
              (fatal, ch) \<leftarrow> dispatchResponse hdr body ch;
              Some (if fatal \<noteq> None then Exit fatal else Continue, ch)
            }
          else if hType hdr = MsgTypeNotify then Some (Continue, ch)
          else Some (Exit (Some (ProtocolError (Msg ''illegal frame type''))), ch))"

definition readLoop_exit :: "nat \<Rightarrow> err option \<Rightarrow> channel \<Rightarrow> channel" where
  "readLoop_exit d exitErr ch =
     (let ch = failAllInflight exitErr ch;
          ch = (case exitErr of Some (ProtocolError _) \<Rightarrow> terminate ch | _ \<Rightarrow> ch)
      in ch\<lparr>done_closed := d # done_closed ch\<rparr>)"

fun readLoop :: "generation \<Rightarrow> (err + header \<times> bytes) list \<Rightarrow> channel \<Rightarrow> channel option" where
  "readLoop g [] ch = Some ch"
| "readLoop g (rd # rds) ch =
     do {
       (o', ch) \<leftarrow> readLoop_step rd ch;
       (case o' of
          Continue \<Rightarrow> readLoop g rds ch
        | Exit x \<Rightarrow> Some (readLoop_exit (g_done g) x ch))
     }"

section \<open>A request from start to end\<close>

text \<open>
  \<open>invokeOnce\<close> run to completion against what happens to the connection while it waits: a
  list of frames read, then the timer, the context, or the end of the connection. The timer
  is always armed, so the run always ends.
\<close>

datatype fate = TimesOut | Cancelled err | ConnDies "err option"

text \<open>\<open>None\<close> here would be a caller waiting for ever.\<close>

definition apply_fate ::
  "env \<Rightarrow> generation \<Rightarrow> fate \<Rightarrow> inflightKey \<Rightarrow> nat \<Rightarrow> bool \<Rightarrow> channel \<Rightarrow> (err option \<times> channel) option" where
  "apply_fate e g f key m resp ch =
     (let received = (\<lambda>ch. (case take_mail m ch of
            (Some r, ch) \<Rightarrow> Some (resultToError e r resp, ch\<lparr>inflight := Delete key (inflight ch)\<rparr>)
          | (None, ch) \<Rightarrow> None))
      in if map_of (mail ch) m \<noteq> None then received ch
         else (case f of
             Cancelled x \<Rightarrow>
               (case ctx_done e x key m resp ch of (r, ch) \<Rightarrow> Some (r, ch\<lparr>inflight := Delete key (inflight ch)\<rparr>))
           | TimesOut \<Rightarrow> received (timer_fires key m ch)
           | ConnDies x \<Rightarrow> received (readLoop_exit (g_done g) x ch)))"

definition invokeOnce ::
  "env \<Rightarrow> string \<Rightarrow> nat option \<Rightarrow> bool \<Rightarrow> string \<Rightarrow> (err + header \<times> bytes) list \<Rightarrow> fate \<Rightarrow> channel
     \<Rightarrow> (err option \<times> channel) option" where
  "invokeOnce e op req resp requestID reads f ch =
     (case invokeOnce_send e op req requestID ch of
        (Panicked, ch) \<Rightarrow> None
      | (Failed x, ch) \<Rightarrow> Some (Some x, ch)
      | (Waiting key m, ch) \<Rightarrow>
          do {
            g \<leftarrow> genPtr ch;
            ch \<leftarrow> readLoop g reads ch;
            apply_fate e g f key m resp ch
          })"

section \<open>Draining the queue after a reconnect\<close>

text \<open>\<open>once q\<close> is the run of \<open>invokeOnce\<close> for a queued request.\<close>

fun drain :: "(queuedInvoke \<Rightarrow> channel \<Rightarrow> (err option \<times> channel) option) \<Rightarrow> queuedInvoke list \<Rightarrow> channel
    \<Rightarrow> channel option" where
  "drain once [] ch = Some ch"
| "drain once (q # qs) ch =
     (case ctx_err (q_ctx q) of
        Some x \<Rightarrow> drain once qs (claim_with (q_id q) (Some (NewNetworkError x)) ch)
      | None \<Rightarrow>
          (case try_claim (q_id q) ch of
             (False, ch) \<Rightarrow> drain once qs ch
           | (True, ch) \<Rightarrow>
               do {
                 (r, ch) \<leftarrow> once q ch;
                 drain once qs (put_q_result (q_id q) r ch)
               }))"

definition drainQueue :: "(queuedInvoke \<Rightarrow> channel \<Rightarrow> (err option \<times> channel) option) \<Rightarrow> channel \<Rightarrow> channel option" where
  "drainQueue once ch = drain once (queue ch) (ch\<lparr>queue := []\<rparr>)"


section \<open>Well-formed channels\<close>

definition ch_wf :: "channel \<Rightarrow> bool" where
  "ch_wf ch \<longleftrightarrow> distinct (map fst (inflight ch))
     \<and> distinct (map snd (inflight ch) @ map fst (mail ch))
     \<and> (\<forall>m \<in> set (map snd (inflight ch) @ map fst (mail ch)). m < next_box ch)"

text \<open>The part of the state the request and response paths never touch.\<close>

definition queue_part :: "channel \<Rightarrow> queuedInvoke list \<times> nat \<times> (nat \<Rightarrow> bool option) \<times> (nat \<times> err option) list" where
  "queue_part ch = (queue ch, next_q ch, claimed ch, q_results ch)"

lemma snd_delete_subset: "snd ` set (AList.delete k t) \<subseteq> snd ` set t"
  by (intro image_mono delete_set_subset)

lemma distinct_snd_delete:
  assumes "distinct (map snd t @ xs)"
  shows "distinct (map snd (AList.delete k t) @ xs)"
proof -
  have "distinct (map snd t) \<Longrightarrow> distinct (map snd (AList.delete k t))"
  proof (induction t)
    case (Cons p t)
    then show ?case using snd_delete_subset[of k t] by (cases p) (simp, blast)
  qed simp
  then show ?thesis using assms snd_delete_subset[of k t] by auto
qed

lemma map_of_snd: "map_of t k = Some m \<Longrightarrow> m \<in> snd ` set t"
  by (force dest: map_of_SomeD)

lemma claimed_mailbox_fresh:
  "distinct (map snd t @ xs) \<Longrightarrow> map_of t k = Some m \<Longrightarrow> m \<notin> snd ` set (AList.delete k t) \<and> m \<notin> set xs"
proof (induction t)
  case (Cons p t)
  then show ?case
    using map_of_snd[of t k m] snd_delete_subset[of k t] by (cases p) (auto split: if_splits)
qed simp

text \<open>Claiming an entry and mailing its result, the one move all deliveries share.\<close>

lemma ch_wf_deliver:
  assumes "ch_wf ch" and "map_of (inflight ch) k = Some m"
  shows "ch_wf (put_mail m r (ch\<lparr>inflight := AList.delete k (inflight ch)\<rparr>))"
proof -
  have "m \<notin> snd ` set (AList.delete k (inflight ch))" "m \<notin> fst ` set (mail ch)"
    using claimed_mailbox_fresh[of "inflight ch" "map fst (mail ch)" k m] assms by (auto simp: ch_wf_def)
  moreover have "distinct (map snd (AList.delete k (inflight ch)) @ map fst (mail ch))"
    using assms(1) by (intro distinct_snd_delete) (simp add: ch_wf_def)
  moreover have "m < next_box ch" using map_of_snd[OF assms(2)] assms(1) by (auto simp: ch_wf_def)
  moreover have "x < next_box ch" if "x \<in> snd ` set (AList.delete k (inflight ch))" for x
    using subsetD[OF snd_delete_subset that] assms(1) by (simp add: ch_wf_def)
  ultimately show ?thesis
    using assms(1) by (auto simp: ch_wf_def put_mail_def distinct_delete)
qed

lemma ch_wf_drop:
  assumes "ch_wf ch"
  shows "ch_wf (ch\<lparr>inflight := AList.delete k (inflight ch)\<rparr>)"
proof -
  have "distinct (map snd (AList.delete k (inflight ch)) @ map fst (mail ch))"
    using assms by (intro distinct_snd_delete) (simp add: ch_wf_def)
  moreover have "x < next_box ch" if "x \<in> snd ` set (AList.delete k (inflight ch))" for x
    using subsetD[OF snd_delete_subset that] assms by (simp add: ch_wf_def)
  ultimately show ?thesis using assms by (auto simp: ch_wf_def distinct_delete)
qed

lemma fail_each_eq:
  "distinct (map fst (inflight ch)) \<Longrightarrow> inflight ch = kvs \<Longrightarrow>
     fail_each x kvs ch = ch\<lparr>inflight := [], mail := mail ch @ map (\<lambda>(k, m). (m, err_result x)) kvs\<rparr>"
proof (induction kvs arbitrary: ch)
  case (Cons p kvs)
  obtain k m where p: "p = (k, m)" by (cases p)
  have "AList.delete k kvs = kvs" using Cons.prems p by (intro delete_id) auto
  with Cons.prems Cons.IH[of "put_mail m (err_result x) (ch\<lparr>inflight := kvs\<rparr>)"] p show ?case
    by (simp add: LoadAndDelete_def put_mail_def)
qed simp

lemma failAllInflight_eq:
  assumes "ch_wf ch"
  shows "failAllInflight cause ch = ch\<lparr>inflight := [],
    mail := mail ch @ map (\<lambda>(k, m). (m, err_result (settle_error cause))) (inflight ch)\<rparr>"
  using assms unfolding failAllInflight_def ch_wf_def by (simp add: fail_each_eq)

lemma ch_wf_failAll:
  assumes "ch_wf ch"
  shows "ch_wf (failAllInflight cause ch)"
proof -
  have "map fst (mail (failAllInflight cause ch)) = map fst (mail ch) @ map snd (inflight ch)"
    by (simp add: failAllInflight_eq[OF assms] comp_def case_prod_unfold)
  moreover have "inflight (failAllInflight cause ch) = []" "next_box (failAllInflight cause ch) = next_box ch"
    by (simp_all add: failAllInflight_eq[OF assms])
  ultimately show ?thesis
    using assms unfolding ch_wf_def by auto
qed

lemma dispatchResponse_total:
  "genPtr ch \<noteq> None \<Longrightarrow> \<exists>r. dispatchResponse hdr body ch = Some r"
  using DecodeReply_total[of body]
  by (auto simp: dispatchResponse_def LoadAndDelete_def Let_def split: sum.splits option.splits)

lemma dispatchResponse_cases:
  assumes "dispatchResponse hdr body ch = Some (fatal, ch')"
  obtains (fatal) x where "fatal = Some (ProtocolError x)" "ch' = ch"
  | (late) g where "fatal = None" "ch' = ch" "genPtr ch = Some g"
      "map_of (inflight ch) (g_epoch g, hSeq hdr) = None"
  | (match) g m r where "fatal = None" "genPtr ch = Some g"
      "map_of (inflight ch) (g_epoch g, hSeq hdr) = Some m" "r_err r = None"
      "ch' = put_mail m r (ch\<lparr>inflight := AList.delete (g_epoch g, hSeq hdr) (inflight ch)\<rparr>)"
proof (cases "hVersion hdr = c_ver (prm ch)")
  case False
  then show ?thesis using assms by (intro fatal) (auto simp: dispatchResponse_def)
next
  case True
  then obtain d where d: "DecodeReply body = Some d"
    using assms by (auto simp: dispatchResponse_def bind_eq_Some_conv)
  show ?thesis
  proof (cases d)
    case (Inl x)
    then show ?thesis using assms True d by (intro fatal) (auto simp: dispatchResponse_def)
  next
    case (Inr ds)
    obtain dat st where ds: "ds = (dat, st)" by (cases ds)
    obtain g where g: "genPtr ch = Some g"
      using assms True d Inr ds by (auto simp: dispatchResponse_def bind_eq_Some_conv)
    show ?thesis
    proof (cases "map_of (inflight ch) (g_epoch g, hSeq hdr)")
      case None
      then show ?thesis
        using assms True d Inr ds g by (intro late) (auto simp: dispatchResponse_def LoadAndDelete_def)
    next
      case (Some m)
      then show ?thesis
        using assms True d Inr ds g
        by (intro match[of g m "case st of None \<Rightarrow> \<lparr>r_data = dat, r_st = None, r_err = None\<rparr>
              | Some _ \<Rightarrow> \<lparr>r_data = [], r_st = st, r_err = None\<rparr>"])
          (auto simp: dispatchResponse_def LoadAndDelete_def split: option.splits)
    qed
  qed
qed

end
