(* ===== verification/Invoke.thy ===== *)
theory Invoke
  imports Channel
begin

text \<open>
  What the request path guarantees: sequence numbers, the request frame as the server parses
  it, matching of responses, classification of every outcome, and that a run of \<open>invokeOnce\<close>
  always ends and leaves nothing behind in the channel.
\<close>

section \<open>Sequence numbers\<close>

fun seqs :: "nat \<Rightarrow> channel \<Rightarrow> u32 list" where
  "seqs 0 ch = []"
| "seqs (Suc n) ch = (case nextSeq ch of (s, ch) \<Rightarrow> s # seqs n ch)"

text \<open>Over 32-bit words, zero skipped: the i-th number from counter \<open>c\<close>.\<close>

lemma nextSeq_unat:
  "unat (fst (nextSeq ch)) = unat (ch_seq ch) mod (2 ^ 32 - 1) + 1 \<and> ch_seq (snd (nextSeq ch)) = fst (nextSeq ch)"
proof -
  have s: "unat (ch_seq ch + 1) = (unat (ch_seq ch) + 1) mod 2 ^ 32"
    by (simp add: unat_word_ariths)
  have lt: "unat (ch_seq ch) < 2 ^ 32" using unsigned_less[of "ch_seq ch", where 'a = nat] by simp
  show ?thesis
  proof (cases "unat (ch_seq ch) + 1 = 2 ^ 32")
    case True
    then have "ch_seq ch + 1 = 0" using s by (simp add: word_unat_eq_iff)
    then show ?thesis using True by (simp add: nextSeq_def Let_def)
  next
    case False
    then have "unat (ch_seq ch + 1) = unat (ch_seq ch) + 1" using s lt by simp
    moreover from this have "ch_seq ch + 1 \<noteq> 0" by (simp add: word_unat_eq_iff)
    ultimately show ?thesis using False lt by (simp add: nextSeq_def Let_def)
  qed
qed

lemma seqs_nth:
  "i < n \<Longrightarrow> unat (seqs n ch ! i) = (unat (ch_seq ch) + i) mod (2 ^ 32 - 1) + 1"
proof (induction n arbitrary: ch i)
  case (Suc n)
  obtain s ch' where n: "nextSeq ch = (s, ch')" by (cases "nextSeq ch")
  then have s: "unat s = unat (ch_seq ch) mod (2 ^ 32 - 1) + 1" "ch_seq ch' = s"
    using nextSeq_unat[of ch] by auto
  show ?case
  proof (cases i)
    case 0
    then show ?thesis using n s by simp
  next
    case (Suc j)
    then have "unat (seqs n ch' ! j) = (unat s + j) mod (2 ^ 32 - 1) + 1"
      using Suc.IH[of j ch'] Suc.prems s(2) by simp
    also have "(unat s + j) mod (2 ^ 32 - 1) = (unat (ch_seq ch) + i) mod (2 ^ 32 - 1)"
      using mod_add_left_eq[of "unat (ch_seq ch)" "2 ^ 32 - 1" "1 + j"] unfolding s(1) Suc
      by (simp only: add.assoc plus_1_eq_Suc)
    finally show ?thesis using n Suc by simp
  qed
qed simp

lemma length_seqs [simp]: "length (seqs n ch) = n"
  by (induction n arbitrary: ch) (auto split: prod.split)

text \<open>
  Sequence numbers: a channel never hands out 0, which the frame check rejects, and within
  any 2^32 - 1 consecutive requests, wrap-around of the 32-bit counter included, all
  numbers are different, so two requests in flight on a connection have different keys.
\<close>

theorem seq_numbers_distinct:
  assumes "n \<le> 2 ^ 32 - 1"
  shows "0 \<notin> set (seqs n ch) \<and> distinct (seqs n ch)"
proof
  have "seqs n ch ! i \<noteq> 0" if "i < n" for i
    using seqs_nth[OF that, of ch] by (auto simp: word_unat_eq_iff)
  then show "0 \<notin> set (seqs n ch)" by (auto simp: in_set_conv_nth)
  have "i = j" if "i < n" "j < n" "seqs n ch ! i = seqs n ch ! j" "i \<le> j" for i j
  proof -
    have "(unat (ch_seq ch) + i) mod (2 ^ 32 - 1) = (unat (ch_seq ch) + j) mod (2 ^ 32 - 1)"
      using seqs_nth[OF that(1), of ch] seqs_nth[OF that(2), of ch] that(3) by simp
    then have "(2 ^ 32 - 1) dvd (j - i)"
      using that(4) mod_eq_dvd_iff_nat[of "unat (ch_seq ch) + i" "unat (ch_seq ch) + j" "2 ^ 32 - 1"] by simp
    moreover have "j - i < 2 ^ 32 - 1" using assms that(2) by simp
    ultimately show ?thesis using that(4) by (auto dest: dvd_imp_le)
  qed
  then show "distinct (seqs n ch)"
    unfolding distinct_conv_nth by (metis length_seqs nle_le)
qed

definition idle_params :: channel_params where
  "idle_params = newChannelWithSettings (single TransportUDP ''h'' []) (defaultSettings\<lparr>s_transport := TransportUDP\<rparr>) 1"

theorem seq_numbers_distinct_witness:
  "seqs 3 ((new_channel idle_params)\<lparr>ch_seq := - 2\<rparr>) = [- 1, 1, 2]
   \<and> distinct (seqs 3 ((new_channel idle_params)\<lparr>ch_seq := - 2\<rparr>))"
  using seq_numbers_distinct[of 3 "(new_channel idle_params)\<lparr>ch_seq := - 2\<rparr>"]
  by (simp add: nextSeq_def numeral_3_eq_3 Let_def)

section \<open>The request frame\<close>

lemma bytes_of_string_Nil [simp]: "bytes_of_string s = [] \<longleftrightarrow> s = []"
  by (simp add: bytes_of_string_def)

lemma buildRequestFrame_cases:
  obtains (bad) x where "buildRequestFrame e p op payload rid = Some (Inl (ProtocolError x))"
    "\<not> body_ok (bytes_of_string op) (bytes_of_string (request_token e p)) (bytes_of_string rid)"
  | (ok) hdr body where "buildRequestFrame e p op payload rid = Some (Inr (hdr, body))"
    "body_ok (bytes_of_string op) (bytes_of_string (request_token e p)) (bytes_of_string rid)"
    "hFlags hdr = body_flags (bytes_of_string (request_token e p)) (bytes_of_string rid)"
    "hType hdr = MsgTypeRequest" "hVersion hdr = c_ver p"
    "ParseRequestBodyFull body (hFlags hdr) =
       Some (Inr (bytes_of_string op, bytes_of_string (request_token e p), bytes_of_string rid, payload))"
proof (cases "body_ok (bytes_of_string op) (bytes_of_string (request_token e p)) (bytes_of_string rid)")
  case True
  let ?hdr = "\<lparr>hMagic = 0, hVersion = c_ver p, hType = MsgTypeRequest,
    hFlags = body_flags (bytes_of_string (request_token e p)) (bytes_of_string rid), hSeq = 0, hLength = 0\<rparr>"
  obtain body where b: "BuildRequestBodyFull (bytes_of_string op) (bytes_of_string (request_token e p))
      (bytes_of_string rid) payload = Some (Inr body)"
    and pr: "ParseRequestBodyFull body (body_flags (bytes_of_string (request_token e p)) (bytes_of_string rid)) =
       Some (Inr (bytes_of_string op, bytes_of_string (request_token e p), bytes_of_string rid, payload))"
    using body_round[OF True] by blast
  have "buildRequestFrame e p op payload rid = Some (Inr (?hdr, body))"
    using b by (auto simp: buildRequestFrame_def body_flags_def Let_def)
  then show ?thesis using True pr by (intro ok[of ?hdr body]) simp_all
next
  case False
  then obtain x where "BuildRequestBodyFull (bytes_of_string op) (bytes_of_string (request_token e p))
      (bytes_of_string rid) payload = Some (Inl x)"
    using BuildRequestBodyFull_bad by blast
  then show ?thesis using False by (intro bad[of x]) (simp_all add: buildRequestFrame_def Let_def)
qed

text \<open>
  The request frame: an accepted request is parsed by the server's body parser, under the very
  flags in its header, as the caller's operation, payload and idempotency key, and the session
  token, which only a connectionless transport carries; a request that does not fit the limits
  is refused as a protocol error, never truncated.
\<close>

theorem request_frame_parses:
  "\<exists>x. buildRequestFrame e p op payload rid = Some x
    \<and> (case x of
         Inl y \<Rightarrow> is_protocol_error y
           \<and> \<not> body_ok (bytes_of_string op) (bytes_of_string (request_token e p)) (bytes_of_string rid)
       | Inr (hdr, body) \<Rightarrow> hType hdr = MsgTypeRequest \<and> hVersion hdr = c_ver p
           \<and> (hFlags hdr AND FlagSession = 0) = (request_token e p = [])
           \<and> (if c_frameSessionSlot p then True else request_token e p = [])
           \<and> (hFlags hdr AND FlagRequestID = 0) = (rid = [])
           \<and> ParseRequestBodyFull body (hFlags hdr) = Some (Inr (bytes_of_string op,
                bytes_of_string (request_token e p), bytes_of_string rid, payload)))"
proof (cases rule: buildRequestFrame_cases[of e p op payload rid])
  case (ok hdr body)
  have "(hFlags hdr AND FlagSession = 0) = (request_token e p = [])" "(hFlags hdr AND FlagRequestID = 0) = (rid = [])"
    unfolding ok(3) using body_flags_bits bytes_of_string_Nil by metis+
  moreover have "\<not> c_frameSessionSlot p \<Longrightarrow> request_token e p = []" by (simp add: request_token_def)
  ultimately show ?thesis using ok by simp
qed simp

section \<open>Sending\<close>

definition ids :: "channel \<Rightarrow> nat set" where
  "ids ch = set (map snd (inflight ch)) \<union> set (map fst (mail ch))"

lemma update_snd_subset: "snd ` set (AList.update k m t) \<subseteq> insert m (snd ` set t)"
  by (induction t) auto

lemma distinct_snd_update:
  "distinct (map snd t) \<Longrightarrow> m \<notin> snd ` set t \<Longrightarrow> distinct (map snd (AList.update k m t))"
proof (induction t)
  case (Cons p t)
  then show ?case using update_snd_subset[of k m t] by (cases p) auto
qed simp

lemma ch_wf_sets:
  "ch_wf ch \<longleftrightarrow> distinct (map fst (inflight ch)) \<and> distinct (map snd (inflight ch)) \<and> distinct (map fst (mail ch))
     \<and> snd ` set (inflight ch) \<inter> fst ` set (mail ch) = {}
     \<and> snd ` set (inflight ch) \<union> fst ` set (mail ch) \<subseteq> {..<next_box ch}"
  by (simp add: ch_wf_def subset_eq)

lemma ch_wf_store:
  assumes "ch_wf ch"
  shows "ch_wf (ch\<lparr>next_box := Suc (next_box ch), inflight := Store key (next_box ch) (inflight ch)\<rparr>)"
proof -
  let ?n = "next_box ch"
  define A where "A = snd ` set (inflight ch)"
  define B where "B = fst ` set (mail ch)"
  define U where "U = snd ` set (AList.update key ?n (inflight ch))"
  have wf: "distinct (map fst (inflight ch))" "distinct (map snd (inflight ch))" "distinct (map fst (mail ch))"
    and sets: "A \<inter> B = {}" "A \<union> B \<subseteq> {..<?n}"
    using assms unfolding ch_wf_sets A_def B_def by auto
  have "U \<subseteq> insert ?n A" unfolding U_def A_def by (rule update_snd_subset)
  moreover have fresh: "?n \<notin> A" "?n \<notin> B" using sets(2) by auto
  ultimately have "U \<inter> B = {}" "U \<union> B \<subseteq> {..<Suc ?n}" using sets by (blast, fastforce)
  moreover have "distinct (map snd (AList.update key ?n (inflight ch)))"
    using wf(2) fresh(1) unfolding A_def by (rule distinct_snd_update)
  ultimately show ?thesis
    using wf unfolding ch_wf_sets Store_def U_def B_def by (simp add: distinct_update)
qed

lemma nextSeq_fields [simp]:
  "inflight (snd (nextSeq ch)) = inflight ch" "mail (snd (nextSeq ch)) = mail ch"
  "next_box (snd (nextSeq ch)) = next_box ch" "genPtr (snd (nextSeq ch)) = genPtr ch"
  "prm (snd (nextSeq ch)) = prm ch" "queue_part (snd (nextSeq ch)) = queue_part ch"
  "ch_state (snd (nextSeq ch)) = ch_state ch" "ch_closed (snd (nextSeq ch)) = ch_closed ch"
  "hookBypass (snd (nextSeq ch)) = hookBypass ch" "sent (snd (nextSeq ch)) = sent ch"
  by (simp_all add: nextSeq_def Let_def queue_part_def)

text \<open>The errors a caller can see, as the package documents them.\<close>

definition classified :: "err option \<Rightarrow> bool" where
  "classified r = (case r of None \<Rightarrow> True
     | Some x \<Rightarrow> errors_is x ErrNetwork \<or> errors_is x ErrTimeout \<or> errors_is x ErrProtocol
         \<or> (\<exists>b. x = BusinessError b))"

definition mail_ok :: "channel \<Rightarrow> bool" where
  "mail_ok ch \<longleftrightarrow> (\<forall>(m, r) \<in> set (mail ch). classified (r_err r))"

lemma ch_wf_ids: "ch_wf ch \<longleftrightarrow> distinct (map fst (inflight ch))
    \<and> distinct (map snd (inflight ch) @ map fst (mail ch)) \<and> (\<forall>m \<in> ids ch. m < next_box ch)"
  by (auto simp: ch_wf_def ids_def)

lemma invokeOnce_send_cases:
  assumes wf: "ch_wf ch"
  obtains (failed) x ch' where "invokeOnce_send e op req rid ch = (Failed x, ch')" "classified (Some x)"
      "ch_wf ch'" "ids ch' \<subseteq> ids ch" "mail ch' = mail ch" "queue_part ch' = queue_part ch"
  | (waiting) g s hdr body ch' where "genPtr ch = Some g" "\<not> ch_closed ch"
      "\<not> (ch_state ch = StateReconnecting \<and> \<not> hookBypass ch)"
      "s = fst (nextSeq ch)"
      "buildRequestFrame e (prm ch) op (projr (marshalRequest e req)) rid = Some (Inr (hdr, body))"
      "ch' = (snd (nextSeq ch))\<lparr>next_box := Suc (next_box ch),
          inflight := Store (g_epoch g, s) (next_box ch) (inflight ch),
          sent := sent ch @ [(g_tr g, hdr\<lparr>hSeq := s\<rparr>, body)]\<rparr>"
      "invokeOnce_send e op req rid ch = (Waiting (g_epoch g, s) (next_box ch), ch')"
proof -
  consider (blocked) "ch_state ch = StateReconnecting \<and> \<not> hookBypass ch \<or> genPtr ch = None \<or> ch_closed ch"
    | (marshal) g x where "genPtr ch = Some g" "\<not> ch_closed ch" "\<not> (ch_state ch = StateReconnecting \<and> \<not> hookBypass ch)"
        "marshalRequest e req = Inl x"
    | (go) g payload where "genPtr ch = Some g" "\<not> ch_closed ch" "\<not> (ch_state ch = StateReconnecting \<and> \<not> hookBypass ch)"
        "marshalRequest e req = Inr payload"
    by (cases "genPtr ch"; cases "marshalRequest e req") auto
  then show ?thesis
  proof cases
    case blocked
    then show ?thesis
      using wf by (intro failed[of "fst (case invokeOnce_send e op req rid ch of (Failed x, c) \<Rightarrow> (x, c))" ch])
        (auto simp: invokeOnce_send_def classified_def err_closed_def split: option.splits)
  next
    case (marshal g x)
    then have "errors_is x ErrProtocol"
      by (auto simp: marshalRequest_def split: option.splits sum.splits)
    with marshal wf show ?thesis
      by (intro failed[of x ch]) (auto simp: invokeOnce_send_def classified_def)
  next
    case (go g payload)
    show ?thesis
    proof (cases rule: buildRequestFrame_cases[of e "prm ch" op payload rid])
      case (bad x)
      with go wf show ?thesis
        by (intro failed[of "ProtocolError x" ch]) (auto simp: invokeOnce_send_def classified_def)
    next
      case (ok hdr body)
      let ?s = "fst (nextSeq ch)" and ?ch = "snd (nextSeq ch)"
      let ?stored = "?ch\<lparr>next_box := Suc (next_box ch), inflight := Store (g_epoch g, ?s) (next_box ch) (inflight ch)\<rparr>"
      have wf1: "ch_wf ?ch" using wf by (simp add: ch_wf_def)
      have unfold: "invokeOnce_send e op req rid ch =
          (case e_write e (g_tr g) (hdr\<lparr>hSeq := ?s\<rparr>) body of
             Some x \<Rightarrow> (Failed (NewNetworkError (Wrap ''write'' [x])), ?stored\<lparr>inflight := Delete (g_epoch g, ?s) (inflight ?stored)\<rparr>)
           | None \<Rightarrow> (Waiting (g_epoch g, ?s) (next_box ch), ?stored\<lparr>sent := sent ?stored @ [(g_tr g, hdr\<lparr>hSeq := ?s\<rparr>, body)]\<rparr>))"
        using go ok(1) by (auto simp: invokeOnce_send_def Let_def case_prod_unfold split: option.split)
      show ?thesis
      proof (cases "e_write e (g_tr g) (hdr\<lparr>hSeq := ?s\<rparr>) body")
        case None
        then show ?thesis
          using go ok(1) unfold by (intro waiting[of g ?s hdr body]) auto
      next
        case (Some x)
        let ?ch' = "?stored\<lparr>inflight := Delete (g_epoch g, ?s) (inflight ?stored)\<rparr>"
        have "ch_wf ?stored" using ch_wf_store[OF wf1, of "(g_epoch g, ?s)"] by simp
        then have "ch_wf ?ch'" using ch_wf_drop[of ?stored] by (simp add: Delete_def)
        moreover have "ids ?ch' \<subseteq> ids ch"
          using snd_delete_subset[of "(g_epoch g, ?s)" "inflight ch"]
          by (auto simp: ids_def Store_def Delete_def delete_update_same)
        ultimately show ?thesis
          using unfold Some by (intro failed[of "NewNetworkError (Wrap ''write'' [x])" ?ch'])
            (auto simp: classified_def queue_part_def nextSeq_def Let_def)
      qed
    qed
  qed
qed

section \<open>Waiting\<close>

text \<open>A request is pending under its key, or its result is in its mailbox; nothing else grew.\<close>

definition awaiting :: "nat set \<Rightarrow> inflightKey \<Rightarrow> nat \<Rightarrow> channel \<Rightarrow> bool" where
  "awaiting I key m ch \<longleftrightarrow> ch_wf ch \<and> mail_ok ch \<and> genPtr ch \<noteq> None \<and> ids ch \<subseteq> insert m I
     \<and> (map_of (inflight ch) key = Some m \<or> m \<in> fst ` set (mail ch))"

lemma mail_ok_put: "mail_ok ch \<Longrightarrow> classified (r_err r) \<Longrightarrow> mail_ok (put_mail m r ch)"
  by (auto simp: mail_ok_def put_mail_def)

lemma mail_ok_inflight [simp]: "mail_ok (ch\<lparr>inflight := t\<rparr>) = mail_ok ch"
  by (simp add: mail_ok_def)

lemma ids_drop: "ids (ch\<lparr>inflight := AList.delete k (inflight ch)\<rparr>) \<subseteq> ids ch"
  unfolding ids_def set_map by (rule Un_mono) (simp_all add: snd_delete_subset)

lemma ids_deliver:
  "map_of (inflight ch) k = Some m \<Longrightarrow> ids (put_mail m r (ch\<lparr>inflight := AList.delete k (inflight ch)\<rparr>)) \<subseteq> ids ch"
  using snd_delete_subset[of k "inflight ch"] map_of_snd[of "inflight ch" k m]
  by (auto simp: ids_def put_mail_def)

lemma awaiting_deliver:
  assumes "awaiting I key m ch" and "map_of (inflight ch) k = Some m'" and "classified (r_err r)"
  shows "awaiting I key m (put_mail m' r (ch\<lparr>inflight := AList.delete k (inflight ch)\<rparr>))"
proof -
  have "ids (put_mail m' r (ch\<lparr>inflight := AList.delete k (inflight ch)\<rparr>)) \<subseteq> insert m I"
    using ids_deliver[OF assms(2)] assms(1) unfolding awaiting_def by blast
  then show ?thesis
    using assms ch_wf_deliver[of ch k m' r]
    by (auto simp: awaiting_def put_mail_def mail_ok_def delete_conv')
qed

lemma awaiting_step:
  assumes "awaiting I key m ch"
  shows "\<exists>o' ch'. readLoop_step rd ch = Some (o', ch') \<and> awaiting I key m ch'
    \<and> queue_part ch' = queue_part ch \<and> genPtr ch' = genPtr ch"
proof (cases rd)
  case (Inr f)
  obtain hdr body where f: "f = (hdr, body)" by (cases f)
  show ?thesis
  proof (cases "hType hdr = MsgTypeResponse")
    case True
    obtain fatal ch' where d: "dispatchResponse hdr body ch = Some (fatal, ch')"
      using dispatchResponse_total[of ch hdr body] assms by (auto simp: awaiting_def)
    then have "awaiting I key m ch' \<and> queue_part ch' = queue_part ch \<and> genPtr ch' = genPtr ch"
    proof (cases rule: dispatchResponse_cases)
      case (match g m' r)
      then show ?thesis
        using awaiting_deliver[OF assms match(3), of r]
        by (simp add: classified_def put_mail_def queue_part_def)
    qed (use assms in auto)
    then show ?thesis using d True Inr f by (simp add: readLoop_step_def)
  qed (use assms Inr f in \<open>simp add: readLoop_step_def\<close>)
qed (use assms in \<open>simp add: readLoop_step_def\<close>)

lemma settle_error_classified: "classified (Some (settle_error cause))"
proof (cases cause)
  case (Some x)
  then show ?thesis
    using as_protocol_is[of x] by (auto simp: settle_error_def classified_def Let_def)
qed (simp add: settle_error_def classified_def Let_def)

lemma terminate_fields [simp]:
  "inflight (terminate ch) = inflight ch" "mail (terminate ch) = mail ch" "genPtr (terminate ch) = genPtr ch"
  "next_box (terminate ch) = next_box ch" "queue_part (terminate ch) = queue_part ch"
  "ch_closed (terminate ch)" "ch_state (terminate ch) = StateDisconnected" "prm (terminate ch) = prm ch"
  by (simp_all add: terminate_def closeConn_def close_tr_def queue_part_def split: option.split)

lemma readLoop_exit_fields:
  "inflight (readLoop_exit d x ch) = inflight (failAllInflight x ch)"
  "mail (readLoop_exit d x ch) = mail (failAllInflight x ch)"
  "next_box (readLoop_exit d x ch) = next_box (failAllInflight x ch)"
  "genPtr (readLoop_exit d x ch) = genPtr (failAllInflight x ch)"
  "queue_part (readLoop_exit d x ch) = queue_part (failAllInflight x ch)"
  "prm (readLoop_exit d x ch) = prm (failAllInflight x ch)"
  by (auto simp: readLoop_exit_def Let_def queue_part_def split: option.split err.split)
     (auto simp: terminate_def closeConn_def close_tr_def split: option.split)

lemma awaiting_exit:
  assumes "awaiting I key m ch"
  shows "awaiting I key m (readLoop_exit d x ch) \<and> queue_part (readLoop_exit d x ch) = queue_part ch
    \<and> genPtr (readLoop_exit d x ch) = genPtr ch \<and> m \<in> fst ` set (mail (readLoop_exit d x ch))"
proof -
  have wf: "ch_wf ch" using assms by (simp add: awaiting_def)
  have ml: "fst ` set (mail (failAllInflight x ch)) = fst ` set (mail ch) \<union> snd ` set (inflight ch)"
    unfolding failAllInflight_eq[OF wf] by force
  have "ids (failAllInflight x ch) = ids ch"
    unfolding ids_def set_map ml by (auto simp: failAllInflight_eq[OF wf])
  moreover have "mail_ok (failAllInflight x ch)"
    using assms settle_error_classified[of x]
    by (auto simp: awaiting_def mail_ok_def failAllInflight_eq[OF wf] err_result_def)
  moreover have "m \<in> fst ` set (mail (failAllInflight x ch))"
    using assms map_of_snd[of "inflight ch" key m] unfolding ml awaiting_def by blast
  moreover have "queue_part (failAllInflight x ch) = queue_part ch" "genPtr (failAllInflight x ch) = genPtr ch"
    by (simp_all add: failAllInflight_eq[OF wf] queue_part_def)
  moreover have "ch_wf (readLoop_exit d x ch) = ch_wf (failAllInflight x ch)"
    "ids (readLoop_exit d x ch) = ids (failAllInflight x ch)"
    "mail_ok (readLoop_exit d x ch) = mail_ok (failAllInflight x ch)"
    by (simp_all add: ch_wf_def ids_def mail_ok_def readLoop_exit_fields)
  ultimately show ?thesis
    using assms ch_wf_failAll[OF wf, of x]
    by (simp add: awaiting_def readLoop_exit_fields)
qed

lemma awaiting_readLoop:
  assumes "awaiting I key m ch"
  shows "\<exists>ch'. readLoop g rds ch = Some ch' \<and> awaiting I key m ch' \<and> queue_part ch' = queue_part ch
    \<and> genPtr ch' = genPtr ch"
  using assms
proof (induction rds arbitrary: ch)
  case (Cons rd rds)
  obtain o' ch1 where s: "readLoop_step rd ch = Some (o', ch1)" "awaiting I key m ch1"
    "queue_part ch1 = queue_part ch" "genPtr ch1 = genPtr ch"
    using awaiting_step[OF Cons.prems] by blast
  show ?case
  proof (cases o')
    case Continue
    then show ?thesis using s Cons.IH[of ch1] by auto
  next
    case (Exit x)
    then show ?thesis using s awaiting_exit[OF s(2), of "g_done g" x] by auto
  qed
qed simp

lemma resultToError_classified: "classified (r_err r) \<Longrightarrow> classified (resultToError e r resp)"
  by (auto simp: resultToError_def classified_def split: option.splits)

lemma take_mail_done:
  assumes "awaiting I key m ch" and "map_of (mail ch) m = Some r" and "m \<notin> I"
  defines "ch' \<equiv> ch\<lparr>mail := AList.delete m (mail ch), inflight := Delete key (inflight ch)\<rparr>"
  shows "ch_wf ch' \<and> mail_ok ch' \<and> ids ch' \<subseteq> I \<and> classified (resultToError e r resp) \<and> queue_part ch' = queue_part ch"
proof -
  have wf: "ch_wf ch" and ok: "mail_ok ch" and sub: "ids ch \<subseteq> insert m I"
    using assms(1) by (auto simp: awaiting_def)
  have fm: "fst ` set (AList.delete m (mail ch)) = fst ` set (mail ch) - {m}"
    using delete_notin_dom[of m "mail ch"] dom_delete_subset[of m "mail ch"]
    by (auto simp: delete_keys simp flip: set_map)
  have "m \<in> fst ` set (mail ch)" using assms(2) by (force dest: map_of_SomeD)
  then have mi: "m \<notin> snd ` set (inflight ch)" using wf unfolding ch_wf_sets by blast
  have ids': "ids ch' = snd ` set (AList.delete key (inflight ch)) \<union> (fst ` set (mail ch) - {m})"
    by (simp add: ids_def ch'_def Delete_def fm)
  then have "ids ch' \<subseteq> ids ch - {m}"
    unfolding ids' ids_def set_map using snd_delete_subset[of key "inflight ch"] mi by blast
  then have "ids ch' \<subseteq> I" using sub by blast
  moreover have "ch_wf ch'"
    using ch_wf_drop[OF wf, of key]
    unfolding ch_wf_sets ch'_def Delete_def by (simp add: fm distinct_delete) blast
  moreover have "mail_ok ch'"
    using ok delete_set_subset[of m "mail ch"] by (auto simp: mail_ok_def ch'_def)
  moreover have "classified (r_err r)" using ok map_of_SomeD[OF assms(2)] by (auto simp: mail_ok_def)
  ultimately show ?thesis by (simp add: resultToError_classified ch'_def queue_part_def)
qed

definition clean :: "channel \<Rightarrow> nat set \<Rightarrow> channel \<Rightarrow> bool" where
  "clean ch0 I ch \<longleftrightarrow> ch_wf ch \<and> mail_ok ch \<and> ids ch \<subseteq> I \<and> queue_part ch = queue_part ch0"

lemma apply_fate_total:
  assumes "awaiting I key m ch" and "m \<notin> I"
  shows "\<exists>r ch'. apply_fate e g f key m resp ch = Some (r, ch') \<and> classified r \<and> clean ch I ch'"
proof -
  have received: "\<exists>r ch'. (case take_mail m c of
            (Some r, c) \<Rightarrow> Some (resultToError e r resp, c\<lparr>inflight := Delete key (inflight c)\<rparr>)
          | (None, c) \<Rightarrow> None) = Some (r, ch') \<and> classified r \<and> clean c I ch'"
    if "awaiting I key m c" and mem: "m \<in> fst ` set (mail c)" for c
  proof -
    obtain r where "map_of (mail c) m = Some r" using mem by (metis map_of_eq_None_iff not_None_eq)
    with take_mail_done[OF that(1) this assms(2)] show ?thesis
      by (auto simp: take_mail_def clean_def)
  qed
  show ?thesis
  proof (cases "map_of (mail ch) m")
    case (Some r)
    then have "m \<in> fst ` set (mail ch)" by (force dest: map_of_SomeD)
    from received[OF assms(1) this] Some show ?thesis by (simp add: apply_fate_def)
  next
    case None
    then have key: "map_of (inflight ch) key = Some m"
      using assms(1) by (auto simp: awaiting_def map_of_eq_None_iff)
    show ?thesis
    proof (cases f)
      case TimesOut
      let ?c = "timer_fires key m ch"
      have c: "?c = put_mail m (err_result (TimeoutError (Msg ''timeout''))) (ch\<lparr>inflight := AList.delete key (inflight ch)\<rparr>)"
        using key by (simp add: timer_fires_def LoadAndDelete_def)
      have "awaiting I key m ?c"
        unfolding c by (rule awaiting_deliver[OF assms(1) key]) (simp add: err_result_def classified_def)
      moreover have "m \<in> fst ` set (mail ?c)" "queue_part ?c = queue_part ch"
        by (simp_all add: c put_mail_def queue_part_def)
      ultimately show ?thesis using received[of ?c] None TimesOut by (auto simp: apply_fate_def clean_def)
    next
      case (Cancelled x)
      let ?c = "ch\<lparr>inflight := AList.delete key (inflight ch)\<rparr>"
      have wf: "ch_wf ch" "mail_ok ch" "ids ch \<subseteq> insert m I" using assms(1) by (auto simp: awaiting_def)
      have "m \<notin> snd ` set (AList.delete key (inflight ch))" "m \<notin> fst ` set (mail ch)"
        using claimed_mailbox_fresh[of "inflight ch" "map fst (mail ch)" key m] key wf(1) by (auto simp: ch_wf_def)
      then have "m \<notin> ids ?c" by (simp add: ids_def)
      then have "ids ?c \<subseteq> I" using ids_drop[of key ch] wf(3) by blast
      then have "clean ch I ?c" using ch_wf_drop[OF wf(1), of key] wf(2) by (simp add: clean_def queue_part_def)
      then show ?thesis
        using key None Cancelled
        by (simp add: apply_fate_def ctx_done_def LoadAndDelete_def Delete_def delete_idem classified_def)
    next
      case (ConnDies x)
      let ?c = "readLoop_exit (g_done g) x ch"
      have "awaiting I key m ?c" "m \<in> fst ` set (mail ?c)" "queue_part ?c = queue_part ch"
        using awaiting_exit[OF assms(1)] by auto
      then show ?thesis using received[of ?c] None ConnDies by (auto simp: apply_fate_def clean_def)
    qed
  qed
qed

lemma awaiting_start:
  assumes "ch_wf ch" and "mail_ok ch" and "genPtr ch = Some g"
    and "ch' = (snd (nextSeq ch))\<lparr>next_box := Suc (next_box ch),
          inflight := Store key (next_box ch) (inflight ch), sent := x\<rparr>"
  shows "awaiting (ids ch) key (next_box ch) ch' \<and> next_box ch \<notin> ids ch \<and> queue_part ch' = queue_part ch"
proof -
  have wf1: "ch_wf (snd (nextSeq ch))" using assms(1) by (simp add: ch_wf_def)
  have "ch_wf ch'"
    using ch_wf_store[OF wf1, of key] by (simp add: assms(4) ch_wf_def)
  moreover have "ids ch' \<subseteq> insert (next_box ch) (ids ch)"
    using update_snd_subset[of key "next_box ch" "inflight ch"] by (auto simp: ids_def assms(4) Store_def)
  moreover have "next_box ch \<notin> ids ch" using assms(1) by (auto simp: ch_wf_ids)
  moreover have "mail_ok ch'" using assms(2) by (simp add: mail_ok_def assms(4))
  moreover have "map_of (inflight ch') key = Some (next_box ch)"
    by (simp add: assms(4) sync_map.look_put)
  moreover have "queue_part ch' = queue_part ch"
    using nextSeq_fields(6)[of ch] by (simp add: assms(4) queue_part_def)
  ultimately show ?thesis using assms(3) by (simp add: awaiting_def assms(4))
qed

lemma invokeOnce_total:
  assumes "ch_wf ch" and "mail_ok ch"
  shows "\<exists>r ch'. invokeOnce e op req resp rid reads f ch = Some (r, ch') \<and> classified r \<and> clean ch (ids ch) ch'"
  using assms(1)
proof (cases rule: invokeOnce_send_cases[of ch e op req rid])
  case (failed x ch')
  then have "mail_ok ch'" using assms(2) by (simp add: mail_ok_def)
  with failed show ?thesis by (simp add: invokeOnce_def clean_def)
next
  case (waiting g s hdr body ch1)
  from awaiting_start[OF assms waiting(1) waiting(6)]
  have aw: "awaiting (ids ch) (g_epoch g, s) (next_box ch) ch1" "next_box ch \<notin> ids ch" "queue_part ch1 = queue_part ch"
    by auto
  obtain ch2 where ch2: "readLoop g reads ch1 = Some ch2" "awaiting (ids ch) (g_epoch g, s) (next_box ch) ch2"
    "queue_part ch2 = queue_part ch1"
    using awaiting_readLoop[OF aw(1)] by blast
  have "genPtr ch1 = Some g" using waiting(1) by (simp add: waiting(6))
  with apply_fate_total[OF ch2(2) aw(2)] ch2 aw(3) waiting(7) show ?thesis
    by (simp add: invokeOnce_def clean_def)
qed

text \<open>
  C4: A request always ends and leaves nothing behind. Whatever frames arrive (responses to other
  requests, pushes, garbage, illegal types), whatever ends the wait (the timer, the
  context, the connection), the call returns exactly one result; the result is success, a
  business rejection, or an error of one of the three failure classes; and afterwards no
  in-flight entry and no mailbox of this call remains, nor did the queue change.
\<close>

theorem invoke_always_returns:
  assumes "ch_wf ch" and "mail_ok ch"
  shows "\<exists>r ch'. invokeOnce e op req resp rid reads f ch = Some (r, ch') \<and> classified r
    \<and> ch_wf ch' \<and> mail_ok ch' \<and> ids ch' \<subseteq> ids ch \<and> queue_part ch' = queue_part ch"
  using invokeOnce_total[OF assms] unfolding clean_def by blast

definition quiet_env :: env where
  "quiet_env = \<lparr>e_write = (\<lambda>_ _ _. None), e_token = (\<lambda>_. []), e_marshal = (\<lambda>_. Inr [1]),
     e_unmarshal = (\<lambda>_. None), e_rand = None, e_now = 0\<rparr>"

definition live_channel :: channel where
  "live_channel = (setConn 0 (new_channel idle_params))\<lparr>ch_state := StateConnected\<rparr>"

lemma live_channel_wf: "ch_wf live_channel" "mail_ok live_channel" "genPtr live_channel = Some \<lparr>g_epoch = 1, g_tr = 0, g_done = 0\<rparr>"
  by (simp_all add: live_channel_def setConn_def new_channel_def ch_wf_def mail_ok_def)

theorem invoke_always_returns_witness:
  "\<exists>r ch'. invokeOnce quiet_env ''/a'' None True [] [Inr (\<lparr>hMagic = 0, hVersion = 9, hType = MsgTypeResponse,
      hFlags = 0, hSeq = 7, hLength = 0\<rparr>, [])] TimesOut live_channel = Some (r, ch') \<and> classified r \<and> ids ch' \<subseteq> {}"
  using invoke_always_returns[OF live_channel_wf(1,2), of quiet_env "''/a''" None True "[]"
      "[Inr (\<lparr>hMagic = 0, hVersion = 9, hType = MsgTypeResponse, hFlags = 0, hSeq = 7, hLength = 0\<rparr>, [])]" TimesOut]
  by (fastforce simp: ids_def live_channel_def setConn_def new_channel_def)


section \<open>Responses\<close>

text \<open>Frames that do not concern a request: pushes, and sound responses to other sequence numbers.\<close>

fun harmless :: "byte \<Rightarrow> u32 \<Rightarrow> err + header \<times> bytes \<Rightarrow> bool" where
  "harmless ver s (Inl x) = False"
| "harmless ver s (Inr (hdr, body)) =
     (hType hdr = MsgTypeNotify
      \<or> hType hdr = MsgTypeResponse \<and> hVersion hdr = ver \<and> hSeq hdr \<noteq> s
        \<and> (\<exists>dat st. DecodeReply body = Some (Inr (dat, st))))"

definition result_of :: "bytes \<Rightarrow> Status option \<Rightarrow> invokeResult" where
  "result_of dat st = (case st of Some _ \<Rightarrow> \<lparr>r_data = [], r_st = st, r_err = None\<rparr>
     | None \<Rightarrow> \<lparr>r_data = dat, r_st = None, r_err = None\<rparr>)"

definition waiting_at :: "generation \<Rightarrow> byte \<Rightarrow> u32 \<Rightarrow> nat \<Rightarrow> channel \<Rightarrow> bool" where
  "waiting_at g ver s m ch \<longleftrightarrow> ch_wf ch \<and> genPtr ch = Some g \<and> c_ver (prm ch) = ver
     \<and> map_of (inflight ch) (g_epoch g, s) = Some m"

lemma msg_types: "MsgTypeNotify \<noteq> MsgTypeResponse"
  by (simp add: frame_consts)

lemma dispatch_sound:
  assumes "hVersion hdr = c_ver (prm ch)" and "DecodeReply body = Some (Inr (dat, st))" and "genPtr ch = Some g"
  shows "dispatchResponse hdr body ch = Some (None,
    case map_of (inflight ch) (g_epoch g, hSeq hdr) of
      Some m \<Rightarrow> put_mail m (result_of dat st) (ch\<lparr>inflight := AList.delete (g_epoch g, hSeq hdr) (inflight ch)\<rparr>)
    | None \<Rightarrow> ch)"
  using assms by (auto simp: dispatchResponse_def LoadAndDelete_def result_of_def Let_def split: option.split)

lemma harmless_step:
  assumes "harmless ver s rd" and "waiting_at g ver s m ch"
  shows "\<exists>ch'. readLoop_step rd ch = Some (Continue, ch') \<and> waiting_at g ver s m ch'"
proof (cases rd)
  case (Inr f)
  obtain hdr body where f: "f = (hdr, body)" by (cases f)
  show ?thesis
  proof (cases "hType hdr = MsgTypeNotify")
    case True
    then show ?thesis using assms Inr f msg_types by (simp add: readLoop_step_def)
  next
    case False
    then obtain dat st where r: "hType hdr = MsgTypeResponse" "hVersion hdr = ver" "hSeq hdr \<noteq> s"
      "DecodeReply body = Some (Inr (dat, st))"
      using assms(1) Inr f by auto
    have w: "ch_wf ch" "genPtr ch = Some g" "c_ver (prm ch) = ver" "map_of (inflight ch) (g_epoch g, s) = Some m"
      using assms(2) by (auto simp: waiting_at_def)
    let ?k = "(g_epoch g, hSeq hdr)"
    show ?thesis
    proof (cases "map_of (inflight ch) ?k")
      case None
      then show ?thesis
        using dispatch_sound[of hdr ch body dat st g] r w assms(2) Inr f by (simp add: readLoop_step_def)
    next
      case (Some m')
      have "waiting_at g ver s m (put_mail m' (result_of dat st) (ch\<lparr>inflight := AList.delete ?k (inflight ch)\<rparr>))"
        using ch_wf_deliver[OF w(1) Some] w r(3) by (simp add: waiting_at_def put_mail_def)
      then show ?thesis
        using dispatch_sound[of hdr ch body dat st g] r w Inr f Some by (simp add: readLoop_step_def)
    qed
  qed
qed (use assms in simp)

lemma harmless_loop:
  assumes "\<forall>rd \<in> set noise. harmless ver s rd" and "waiting_at g ver s m ch"
  shows "\<exists>ch'. readLoop g (noise @ rds) ch = readLoop g rds ch' \<and> waiting_at g ver s m ch'"
  using assms
proof (induction noise arbitrary: ch)
  case (Cons rd noise)
  then obtain ch1 where "readLoop_step rd ch = Some (Continue, ch1)" "waiting_at g ver s m ch1"
    using harmless_step[of ver s rd g m ch] by auto
  with Cons.IH[of ch1] Cons.prems(1) show ?case by auto
qed auto

lemma mail_kept_step:
  assumes "readLoop_step rd ch = Some (o', ch')" and "map_of (mail ch) m = Some r"
  shows "map_of (mail ch') m = Some r"
proof (cases rd)
  case (Inr f)
  obtain hdr body where f: "f = (hdr, body)" by (cases f)
  show ?thesis
  proof (cases "hType hdr = MsgTypeResponse")
    case True
    then obtain fatal where "dispatchResponse hdr body ch = Some (fatal, ch')"
      using assms(1) Inr f by (auto simp: readLoop_step_def bind_eq_Some_conv)
    then show ?thesis
      by (cases rule: dispatchResponse_cases) (use assms(2) in \<open>auto simp: put_mail_def map_of_append map_add_Some_iff\<close>)
  next
    case False
    then show ?thesis using assms Inr f by (auto simp: readLoop_step_def split: if_splits)
  qed
qed (use assms in \<open>auto simp: readLoop_step_def\<close>)

lemma mail_kept_fail_each:
  "map_of (mail ch) m = Some r \<Longrightarrow> map_of (mail (fail_each x kvs ch)) m = Some r"
  by (induction x kvs ch rule: fail_each.induct)
    (auto simp: put_mail_def LoadAndDelete_def map_of_append map_add_Some_iff split: option.split)

lemma mail_kept:
  "map_of (mail ch) m = Some r \<Longrightarrow> readLoop g rds ch = Some ch' \<Longrightarrow> map_of (mail ch') m = Some r"
proof (induction rds arbitrary: ch)
  case (Cons rd rds)
  then obtain o' ch1 where s: "readLoop_step rd ch = Some (o', ch1)" by (auto simp: bind_eq_Some_conv)
  then have m1: "map_of (mail ch1) m = Some r" using mail_kept_step Cons.prems(1) by blast
  show ?case
  proof (cases o')
    case Continue
    then show ?thesis using Cons s m1 by auto
  next
    case (Exit x)
    then show ?thesis
      using Cons.prems s m1 mail_kept_fail_each[OF m1]
      by (auto simp: readLoop_exit_fields failAllInflight_def)
  qed
qed simp

text \<open>
  Responses reach their request: after any pushes and responses to other requests, the first
  frame with the request's sequence number decides its result (data through the serializer, or
  the business status field by field), and nothing that happens later (a timeout, a
  cancellation, more frames, the end of the connection) can change it.
\<close>

theorem response_decides:
  assumes "ch_wf ch" and "mail_ok ch" and "genPtr ch = Some g"
    and "invokeOnce_send e op req rid ch = (Waiting key m, ch1)"
    and "\<forall>rd \<in> set noise. harmless (c_ver (prm ch)) (snd key) rd"
    and "hType hdr = MsgTypeResponse" and "hVersion hdr = c_ver (prm ch)" and "hSeq hdr = snd key"
    and "DecodeReply body = Some (Inr (dat, st))"
  shows "\<exists>ch'. invokeOnce e op req resp rid (noise @ Inr (hdr, body) # rest) f ch
      = Some (resultToError e (result_of dat st) resp, ch')"
  using assms(1)
proof (cases rule: invokeOnce_send_cases[of ch e op req rid])
  case (failed x ch')
  then show ?thesis using assms(4) by simp
next
  case (waiting g' s hdr' body' ch2)
  then have eq: "g' = g" "ch2 = ch1" "key = (g_epoch g, s)" "m = next_box ch" using assms(3,4) by auto
  have aw: "awaiting (ids ch) key m ch1"
    using awaiting_start[OF assms(1,2) waiting(1) waiting(6)] eq by simp
  have gen: "genPtr ch1 = Some g" "c_ver (prm ch1) = c_ver (prm ch)"
    "map_of (inflight ch1) (g_epoch g, s) = Some m"
    using waiting(1,6) eq by (simp_all add: sync_map.look_put)
  then have "waiting_at g (c_ver (prm ch)) s m ch1" using aw by (simp add: waiting_at_def awaiting_def)
  then obtain ch3 where r: "readLoop g (noise @ Inr (hdr, body) # rest) ch1 = readLoop g (Inr (hdr, body) # rest) ch3"
    and w: "waiting_at g (c_ver (prm ch)) s m ch3"
    using harmless_loop[of noise "c_ver (prm ch)" s g m ch1 "Inr (hdr, body) # rest"] assms(5) eq(3) by fastforce
  let ?r = "result_of dat st"
  let ?ch4 = "put_mail m ?r (ch3\<lparr>inflight := AList.delete (g_epoch g, s) (inflight ch3)\<rparr>)"
  have "dispatchResponse hdr body ch3 = Some (None, ?ch4)"
    using dispatch_sound[of hdr ch3 body dat st g] w assms(7-9) eq(3) by (simp add: waiting_at_def)
  then have r2: "readLoop g (Inr (hdr, body) # rest) ch3 = readLoop g rest ?ch4"
    using assms(6) by (simp add: readLoop_step_def)
  have "m \<notin> fst ` set (mail ch3)"
    using w claimed_mailbox_fresh[of "inflight ch3" "map fst (mail ch3)" "(g_epoch g, s)" m]
    by (auto simp: waiting_at_def ch_wf_def)
  then have "map_of (mail ch3) m = None" by (simp add: map_of_eq_None_iff)
  then have m4: "map_of (mail ?ch4) m = Some ?r" by (simp add: put_mail_def map_add_def)
  obtain ch5 where ch5: "readLoop g rest ?ch4 = Some ch5"
    using awaiting_readLoop[OF aw, of g "noise @ Inr (hdr, body) # rest"] r r2 by auto
  have "map_of (mail ch5) m = Some ?r" using mail_kept[OF m4 ch5] .
  then show ?thesis
    using assms(4) gen(1) r r2 ch5 by (simp add: invokeOnce_def apply_fate_def take_mail_def)
qed

theorem response_decides_witness:
  "\<exists>ch'. invokeOnce quiet_env ''/a'' None True [] [Inr (\<lparr>hMagic = 0, hVersion = 1, hType = MsgTypeNotify, hFlags = 0, hSeq = 4,
        hLength = 0\<rparr>, []), Inr (\<lparr>hMagic = 0, hVersion = 1, hType = MsgTypeResponse, hFlags = 0, hSeq = 1, hLength = 0\<rparr>,
        [0, 0, 0, 0, 1, 5])] (Cancelled (Msg ''late'')) live_channel
     = Some (resultToError quiet_env (result_of [5] None) True, ch')"
proof -
  have send: "\<exists>ch1. invokeOnce_send quiet_env ''/a'' None [] live_channel = (Waiting (1, 1) 0, ch1)"
    using live_channel_wf(1)
  proof (cases rule: invokeOnce_send_cases[of live_channel quiet_env "''/a''" None "[]"])
    case (failed x ch')
    then show ?thesis
    proof (cases rule: buildRequestFrame_cases[of quiet_env "prm live_channel" "''/a''" "[]" "[]"])
      case bad
      then show ?thesis
        by (simp add: body_ok_def frame_consts request_token_def quiet_env_def live_channel_def setConn_def new_channel_def
            idle_params_def newChannelWithSettings_def defaultSettings_def)
    next
      case (ok hdr body)
      then show ?thesis
        using failed by (simp add: invokeOnce_send_def live_channel_wf marshalRequest_def live_channel_def setConn_def
            new_channel_def nextSeq_def quiet_env_def Let_def)
    qed
  next
    case (waiting g s hdr body ch1)
    moreover have "fst (nextSeq live_channel) = 1" "next_box live_channel = 0"
      by (simp_all add: nextSeq_def live_channel_def setConn_def new_channel_def Let_def)
    ultimately show ?thesis by (auto simp: live_channel_wf)
  qed
  then obtain ch1 where s: "invokeOnce_send quiet_env ''/a'' None [] live_channel = (Waiting (1, 1) 0, ch1)" ..
  have v: "c_ver (prm live_channel) = 1"
    by (simp add: live_channel_def setConn_def new_channel_def idle_params_def newChannelWithSettings_def)
  have d: "DecodeReply [0, 0, 0, 0, 1, 5] = Some (Inr ([5], None))"
    using reply_data_encoded[of "[5]" "[0]" 1 "[]" None] by (simp add: DecodeReply_eq put_uint32_def)
  let ?n = "[Inr (\<lparr>hMagic = 0, hVersion = 1, hType = MsgTypeNotify, hFlags = 0, hSeq = 4, hLength = 0\<rparr>, [])]"
  let ?h = "\<lparr>hMagic = 0, hVersion = 1, hType = MsgTypeResponse, hFlags = 0, hSeq = 1, hLength = 0\<rparr>"
  from response_decides[OF live_channel_wf s, of ?n ?h "[0, 0, 0, 0, 1, 5]" "[5]" None True "[]" "Cancelled (Msg ''late'')", OF _ _ _ _ d] v
  show ?thesis by simp
qed

end
