(* ===== verification/Teardown.thy ===== *)
theory Teardown
  imports Invoke
begin

text \<open>
  How a channel fails and how its reconnect queue is emptied: classification when the read
  loop ends, termination, \<open>Close\<close>, the four parties that compete for a queued request, and
  the drain after a reconnect.
\<close>

section \<open>The end of a connection\<close>

text \<open>The error with which a frame read ends the loop.\<close>

definition exit_error :: "err + header \<times> bytes \<Rightarrow> err \<Rightarrow> bool" where
  "exit_error rd y = (case rd of
      Inl e \<Rightarrow> y = (if errors_is e FrameErrProtocol then ProtocolError e else NetworkError e)
    | Inr (hdr, body) \<Rightarrow> is_protocol_error y \<and> hType hdr \<noteq> MsgTypeNotify)"

lemma readLoop_step_exit:
  assumes "\<not> ch_closed ch" and "readLoop_step rd ch = Some (Exit x, ch1)"
  shows "ch1 = ch \<and> (\<exists>y. x = Some y \<and> exit_error rd y)"
proof (cases rd)
  case (Inl e)
  then show ?thesis using assms by (auto simp: readLoop_step_def classifyReadError_def exit_error_def)
next
  case (Inr f)
  obtain hdr body where f: "f = (hdr, body)" by (cases f)
  show ?thesis
  proof (cases "hType hdr = MsgTypeResponse")
    case True
    then obtain fatal where "dispatchResponse hdr body ch = Some (fatal, ch1)" "x = fatal" "fatal \<noteq> None"
      using assms(2) Inr f by (auto simp: readLoop_step_def bind_eq_Some_conv split: if_splits)
    then show ?thesis
      by (cases rule: dispatchResponse_cases) (use True Inr f msg_types in \<open>auto simp: exit_error_def\<close>)
  next
    case False
    then show ?thesis using assms(2) Inr f by (auto simp: readLoop_step_def exit_error_def split: if_splits)
  qed
qed

lemma is_protocol_error_iff: "is_protocol_error y \<longleftrightarrow> (\<exists>z. y = ProtocolError z)"
  by (cases y) auto

lemma settle_exit_error:
  assumes "exit_error rd y" and "case rd of Inl e \<Rightarrow> as_protocol e = None | Inr _ \<Rightarrow> True"
  shows "settle_error (Some y) = (if is_protocol_error y then y else NetworkError y)"
  using assms by (auto simp: exit_error_def settle_error_def is_protocol_error_iff split: sum.splits)

lemma readLoop_exit_eq:
  assumes "ch_wf ch"
  shows "readLoop_exit d (Some y) ch =
    (let ch' = ch\<lparr>inflight := [], mail := mail ch @ map (\<lambda>(k, m). (m, err_result (settle_error (Some y)))) (inflight ch)\<rparr>;
         ch' = (if is_protocol_error y then terminate ch' else ch')
     in ch'\<lparr>done_closed := d # done_closed ch'\<rparr>)"
  by (cases y) (simp_all add: readLoop_exit_def failAllInflight_eq[OF assms] Let_def)

text \<open>
  C12: When the read loop leaves, every request in flight gets exactly one result and the table is
  empty. A frame or envelope violation (a read error of the frame layer's protocol class, a
  reply that cannot be decoded or carries another payload version, a frame of an illegal type)
  is delivered as it is, a protocol error, and shuts the channel for good; any other read error
  is delivered as a network error and leaves the channel's state to the supervisor, which the
  closed generation signal wakes.
\<close>

theorem read_failure_settles:
  assumes "ch_wf ch" and "\<not> ch_closed ch" and "readLoop_step rd ch = Some (Exit x, ch1)"
    and "case rd of Inl e \<Rightarrow> as_protocol e = None | Inr _ \<Rightarrow> True"
  shows "\<exists>y. x = Some y \<and> exit_error rd y
    \<and> (let ch' = readLoop_exit d x ch1 in
        inflight ch' = [] \<and> d \<in> set (done_closed ch')
      \<and> mail ch' = mail ch @ map (\<lambda>(k, m). (m, err_result (if is_protocol_error y then y else NetworkError y))) (inflight ch)
      \<and> (if is_protocol_error y then ch_closed ch' \<and> ch_state ch' = StateDisconnected
         else \<not> ch_closed ch' \<and> ch_state ch' = ch_state ch))"
proof -
  obtain y where y: "ch1 = ch" "x = Some y" "exit_error rd y"
    using readLoop_step_exit[OF assms(2,3)] by blast
  show ?thesis
    using y assms(1,2) settle_exit_error[OF y(3) assms(4)]
    by (intro exI[of _ y]) (simp add: readLoop_exit_eq Let_def)
qed

theorem read_failure_settles_witness:
  "let ch = live_channel\<lparr>inflight := [((1, 1), 0), ((1, 2), 1)], next_box := 2\<rparr>;
       ch' = readLoop_exit 0 (Some (NetworkError (Sentinel EOF))) ch
   in mail ch' = [(0, err_result (NetworkError (NetworkError (Sentinel EOF)))),
                  (1, err_result (NetworkError (NetworkError (Sentinel EOF))))] \<and> \<not> ch_closed ch'"
proof -
  let ?ch = "live_channel\<lparr>inflight := [((1, 1), 0), ((1, 2), 1)], next_box := 2\<rparr>"
  have "ch_wf ?ch" "\<not> ch_closed ?ch"
    by (simp_all add: ch_wf_def live_channel_def setConn_def new_channel_def)
  moreover have "readLoop_step (Inl (Sentinel EOF)) ?ch = Some (Exit (Some (NetworkError (Sentinel EOF))), ?ch)"
    by (simp add: readLoop_step_def classifyReadError_def live_channel_def setConn_def new_channel_def)
  ultimately show ?thesis
    using read_failure_settles[of ?ch "Inl (Sentinel EOF)" "Some (NetworkError (Sentinel EOF))" ?ch 0]
    by (simp add: live_channel_def setConn_def new_channel_def Let_def)
qed

section \<open>Queued requests\<close>

definition q_unclaimed :: "channel \<Rightarrow> queuedInvoke \<Rightarrow> bool" where
  "q_unclaimed ch q \<longleftrightarrow> claimed ch (q_id q) = Some False"

lemma claim_with_eq:
  "claim_with i r ch = (if claimed ch i = Some False
     then ch\<lparr>claimed := (claimed ch)(i \<mapsto> True), q_results := q_results ch @ [(i, r)]\<rparr> else ch)"
  by (auto simp: claim_with_def try_claim_def cas_claim_def put_q_result_def split: option.split bool.split)

lemma try_claim_eq:
  "try_claim i ch = (if claimed ch i = Some False then (True, ch\<lparr>claimed := (claimed ch)(i \<mapsto> True)\<rparr>) else (False, ch))"
  by (auto simp: try_claim_def cas_claim_def split: option.split bool.split)

lemma distinct_head: "distinct (map q_id (q # qs)) \<Longrightarrow> q' \<in> set qs \<Longrightarrow> q_id q' \<noteq> q_id q"
  by (auto simp: rev_image_eqI)

lemma fail_queue_eq:
  assumes "distinct (map q_id qs)"
  shows "q_results (fail_queue qs ch) = q_results ch @ map (\<lambda>q. (q_id q, Some err_closed)) (filter (q_unclaimed ch) qs)
    \<and> claimed (fail_queue qs ch) = (\<lambda>i. if i \<in> q_id ` set qs \<and> claimed ch i = Some False then Some True else claimed ch i)
    \<and> inflight (fail_queue qs ch) = inflight ch \<and> mail (fail_queue qs ch) = mail ch
    \<and> queue (fail_queue qs ch) = queue ch \<and> ch_closed (fail_queue qs ch) = ch_closed ch
    \<and> closed_trs (fail_queue qs ch) = closed_trs ch \<and> genPtr (fail_queue qs ch) = genPtr ch"
  using assms
proof (induction qs arbitrary: ch)
  case (Cons q qs)
  let ?ch = "claim_with (q_id q) (Some err_closed) ch"
  have "q_unclaimed ?ch q' = q_unclaimed ch q'" if "q' \<in> set qs" for q'
    using distinct_head[OF Cons.prems that] by (simp add: q_unclaimed_def claim_with_eq)
  then have filt: "filter (q_unclaimed ?ch) qs = filter (q_unclaimed ch) qs" by (intro filter_cong) auto
  have "distinct (map q_id qs)" using Cons.prems by simp
  note IH = Cons.IH[OF this, of ?ch, unfolded filt]
  have others: "inflight ?ch = inflight ch" "mail ?ch = mail ch" "queue ?ch = queue ch"
    "ch_closed ?ch = ch_closed ch" "closed_trs ?ch = closed_trs ch" "genPtr ?ch = genPtr ch"
    by (simp_all add: claim_with_eq)
  show ?case
  proof (cases "q_unclaimed ch q")
    case True
    then have "q_results ?ch = q_results ch @ [(q_id q, Some err_closed)]"
      "claimed ?ch = (claimed ch)(q_id q \<mapsto> True)" "claimed ch (q_id q) = Some False"
      by (simp_all add: claim_with_eq q_unclaimed_def)
    then show ?thesis using IH True others by (simp add: fun_eq_iff)
  next
    case False
    then have "?ch = ch" "claimed ch (q_id q) \<noteq> Some False" by (simp_all add: claim_with_eq q_unclaimed_def)
    then show ?thesis using IH False by (auto simp: fun_eq_iff)
  qed
qed (simp add: fun_eq_iff)

text \<open>
  \<open>Close\<close> settles everything: each request in flight and each queued request that nobody has
  claimed gets exactly one closed error, in order; the requests already claimed keep the
  result they have; table and queue are empty, the transport is closed, no mailbox gets a
  second result, and closing again does nothing.
\<close>

theorem close_settles_everything:
  assumes "ch_wf ch" and "\<not> ch_closed ch" and "distinct (map q_id (queue ch))"
  shows "let ch' = Close ch in
      inflight ch' = [] \<and> queue ch' = [] \<and> ch_closed ch' \<and> ch_state ch' = StateDisconnected
    \<and> mail ch' = mail ch @ map (\<lambda>(k, m). (m, err_result err_closed)) (inflight ch)
    \<and> q_results ch' = q_results ch @ map (\<lambda>q. (q_id q, Some err_closed)) (filter (q_unclaimed ch) (queue ch))
    \<and> (\<forall>q \<in> set (queue ch). \<not> q_unclaimed ch' q)
    \<and> (case genPtr ch of Some g \<Rightarrow> g_tr g \<in> set (closed_trs ch') | None \<Rightarrow> True)
    \<and> ch_wf ch' \<and> Close ch' = ch'"
proof -
  define c1 where "c1 = closeConn (ch\<lparr>ch_closed := True\<rparr>)"
  define c2 where "c2 = failAllInflight (Some (Msg ''closed'')) c1"
  define c3 where "c3 = fail_queue (queue c2) (c2\<lparr>queue := []\<rparr>)"
  have close: "Close ch = c3\<lparr>ch_state := StateDisconnected\<rparr>"
    using assms(2) by (simp add: Close_def c3_def c2_def c1_def failAllQueued_def Let_def)
  have c1: "inflight c1 = inflight ch" "mail c1 = mail ch" "next_box c1 = next_box ch" "ch_closed c1"
    "queue c1 = queue ch" "claimed c1 = claimed ch" "q_results c1 = q_results ch" "genPtr c1 = genPtr ch"
    "case genPtr ch of Some g \<Rightarrow> g_tr g \<in> set (closed_trs c1) | None \<Rightarrow> True"
    by (auto simp: c1_def closeConn_def close_tr_def split: option.split)
  then have wf1: "ch_wf c1" using assms(1) by (simp add: ch_wf_def)
  have err: "settle_error (Some (Msg ''closed'')) = err_closed"
    by (simp add: settle_error_def err_closed_def)
  have c2: "c2 = c1\<lparr>inflight := [], mail := mail ch @ map (\<lambda>(k, m). (m, err_result err_closed)) (inflight ch)\<rparr>"
    unfolding c2_def failAllInflight_eq[OF wf1] err c1 ..
  have wf2: "ch_wf c2" unfolding c2_def by (rule ch_wf_failAll[OF wf1])
  have q: "q_unclaimed (c2\<lparr>queue := []\<rparr>) = q_unclaimed ch" by (simp add: fun_eq_iff q_unclaimed_def c2 c1)
  have d: "distinct (map q_id (queue c2))" using assms(3) by (simp add: c2 c1)
  note fq = fail_queue_eq[OF d, of "c2\<lparr>queue := []\<rparr>", folded c3_def, unfolded q]
  have nb: "next_box (fail_queue qs c) = next_box c" for qs c
    by (induction qs arbitrary: c) (simp_all add: claim_with_eq)
  have "ch_wf (c3\<lparr>ch_state := StateDisconnected\<rparr>)"
    using wf2 fq nb[of "queue c2" "c2\<lparr>queue := []\<rparr>"] by (simp add: ch_wf_def c3_def)
  then show ?thesis
    unfolding close Let_def using fq c1
    by (auto simp: c2 Close_def q_unclaimed_def split: option.splits)
qed


theorem close_settles_everything_witness:
  "let ch = live_channel\<lparr>inflight := [((1, 1), 0)], next_box := 1, claimed := [5 \<mapsto> False],
         queue := [\<lparr>q_id = 5, q_ctx = \<lparr>ctx_deadline = None, ctx_err = None\<rparr>, q_op = ''/a'', q_req = None,
           q_resp = False, q_requestID = [], q_deadline = 3\<rparr>]\<rparr>
   in mail (Close ch) = [(0, err_result err_closed)] \<and> q_results (Close ch) = [(5, Some err_closed)]
      \<and> inflight (Close ch) = [] \<and> Close (Close ch) = Close ch"
proof -
  let ?q = "\<lparr>q_id = 5, q_ctx = \<lparr>ctx_deadline = None, ctx_err = None\<rparr>, q_op = ''/a'', q_req = None,
           q_resp = False, q_requestID = [], q_deadline = 3\<rparr>"
  let ?ch = "live_channel\<lparr>inflight := [((1, 1), 0)], next_box := 1, claimed := [5 \<mapsto> False], queue := [?q]\<rparr>"
  have "ch_wf ?ch" "\<not> ch_closed ?ch" "distinct (map q_id (queue ?ch))" "q_unclaimed ?ch ?q"
    by (simp_all add: ch_wf_def live_channel_def setConn_def new_channel_def q_unclaimed_def)
  then show ?thesis
    using close_settles_everything[of ?ch]
    by (simp add: live_channel_def setConn_def new_channel_def Let_def)
qed

section \<open>Draining\<close>

definition sound :: "channel \<Rightarrow> bool" where
  "sound ch \<longleftrightarrow> ch_wf ch \<and> mail_ok ch"

lemma sound_queue_fields [simp]:
  "sound (ch\<lparr>claimed := c\<rparr>) = sound ch" "sound (ch\<lparr>q_results := r\<rparr>) = sound ch" "sound (ch\<lparr>queue := q\<rparr>) = sound ch"
  by (simp_all add: sound_def ch_wf_def mail_ok_def)

text \<open>What a run of \<open>invokeOnce\<close> cannot do to the queue's bookkeeping.\<close>

definition keeps_queue :: "(queuedInvoke \<Rightarrow> channel \<Rightarrow> (err option \<times> channel) option) \<Rightarrow> bool" where
  "keeps_queue once \<longleftrightarrow> (\<forall>q ch. sound ch \<longrightarrow>
     (\<exists>r ch'. once q ch = Some (r, ch') \<and> sound ch' \<and> queue_part ch' = queue_part ch))"

text \<open>A queued request resent through \<open>invokeOnce\<close>; \<open>reads\<close> and \<open>f\<close> are what happens to it.\<close>

definition resend ::
  "env \<Rightarrow> (nat \<Rightarrow> (err + header \<times> bytes) list) \<Rightarrow> (nat \<Rightarrow> fate) \<Rightarrow> queuedInvoke \<Rightarrow> channel \<Rightarrow> (err option \<times> channel) option" where
  "resend e reads f q ch =
     invokeOnce e (q_op q) (q_req q) (q_resp q) (q_requestID q) (reads (q_id q)) (f (q_id q)) ch"

lemma keeps_queue_resend: "keeps_queue (resend e reads f)"
  unfolding keeps_queue_def resend_def sound_def using invokeOnce_total unfolding clean_def by blast

definition q_outcome :: "queuedInvoke \<Rightarrow> nat \<times> err option \<Rightarrow> bool" where
  "q_outcome q r \<longleftrightarrow> fst r = q_id q
     \<and> (case ctx_err (q_ctx q) of Some x \<Rightarrow> snd r = Some (NetworkError x) | None \<Rightarrow> True)"

lemma drain_step:
  assumes "keeps_queue once" and "sound ch"
  obtains c rs where "drain once (q # qs) ch = drain once qs c" "sound c"
    "\<And>i. i \<noteq> q_id q \<Longrightarrow> claimed c i = claimed ch i" "\<not> q_unclaimed c q" "queue c = queue ch"
    "q_results c = q_results ch @ rs" "list_all2 q_outcome (if q_unclaimed ch q then [q] else []) rs"
proof (cases "ctx_err (q_ctx q)")
  case (Some x)
  then show ?thesis
    using assms(2) by (intro that[of "claim_with (q_id q) (Some (NetworkError x)) ch"
        "if q_unclaimed ch q then [(q_id q, Some (NetworkError x))] else []"])
      (auto simp: claim_with_eq q_unclaimed_def q_outcome_def)
next
  case None
  show ?thesis
  proof (cases "q_unclaimed ch q")
    case False
    then show ?thesis using None assms(2)
      by (intro that[of ch "[]"]) (auto simp: try_claim_eq q_unclaimed_def)
  next
    case True
    let ?c = "ch\<lparr>claimed := (claimed ch)(q_id q \<mapsto> True)\<rparr>"
    have "sound ?c" using assms(2) by simp
    then obtain r c where c: "once q ?c = Some (r, c)" "sound c" "queue_part c = queue_part ?c"
      using assms(1) unfolding keeps_queue_def by blast
    then have "claimed c = claimed ?c" "queue c = queue ch" "q_results c = q_results ch"
      by (simp_all add: queue_part_def)
    with c True None show ?thesis
      by (intro that[of "put_q_result (q_id q) r c" "[(q_id q, r)]"])
        (auto simp: try_claim_eq q_unclaimed_def put_q_result_def q_outcome_def)
  qed
qed

lemma unclaimed_elsewhere:
  assumes "distinct (map q_id (q # qs))" and "\<And>i. i \<noteq> q_id q \<Longrightarrow> claimed c i = claimed ch i"
  shows "filter (q_unclaimed c) qs = filter (q_unclaimed ch) qs"
proof (rule filter_cong[OF refl])
  fix q' assume "q' \<in> set qs"
  from assms(2)[OF distinct_head[OF assms(1) this]] show "q_unclaimed c q' = q_unclaimed ch q'"
    by (simp add: q_unclaimed_def)
qed

lemma drain_results:
  assumes "keeps_queue once" and "sound ch" and "distinct (map q_id qs)"
  shows "\<exists>ch' rs. drain once qs ch = Some ch' \<and> sound ch' \<and> queue ch' = queue ch
    \<and> (\<forall>i. i \<notin> q_id ` set qs \<longrightarrow> claimed ch' i = claimed ch i) \<and> (\<forall>q \<in> set qs. \<not> q_unclaimed ch' q)
    \<and> q_results ch' = q_results ch @ rs \<and> list_all2 q_outcome (filter (q_unclaimed ch) qs) rs"
  using assms(2,3)
proof (induction qs arbitrary: ch)
  case (Cons q qs)
  obtain c rs where c: "drain once (q # qs) ch = drain once qs c" "sound c"
    "\<And>i. i \<noteq> q_id q \<Longrightarrow> claimed c i = claimed ch i" "\<not> q_unclaimed c q" "queue c = queue ch"
    "q_results c = q_results ch @ rs" "list_all2 q_outcome (if q_unclaimed ch q then [q] else []) rs"
    using drain_step[OF assms(1) Cons.prems(1)] by blast
  have "distinct (map q_id qs)" and nq: "q_id q \<notin> q_id ` set qs" using Cons.prems(2) by simp_all
  then obtain ch' rs' where r: "drain once qs c = Some ch'" "sound ch'" "queue ch' = queue c"
    "\<forall>i. i \<notin> q_id ` set qs \<longrightarrow> claimed ch' i = claimed c i" "\<forall>q \<in> set qs. \<not> q_unclaimed ch' q"
    "q_results ch' = q_results c @ rs'" "list_all2 q_outcome (filter (q_unclaimed c) qs) rs'"
    using Cons.IH[OF c(2)] by blast
  have "list_all2 q_outcome (filter (q_unclaimed ch) (q # qs)) (rs @ rs')"
    using list_all2_appendI[OF c(7) r(7)] unclaimed_elsewhere[OF Cons.prems(2) c(3)]
    by (cases "q_unclaimed ch q") simp_all
  moreover have "\<not> q_unclaimed ch' q" using r(4) nq c(4) by (simp add: q_unclaimed_def)
  ultimately show ?case
    using c r by (intro exI[of _ ch'] exI[of _ "rs @ rs'"]) auto
qed simp

lemma drain_cong_live:
  assumes "keeps_queue once" and "sound ch" and "distinct (map q_id qs)"
    and "\<And>q. q \<in> set qs \<Longrightarrow> q_unclaimed ch q \<Longrightarrow> ctx_err (q_ctx q) = None \<Longrightarrow> once' q = once q"
  shows "drain once' qs ch = drain once qs ch"
  using assms(2-4)
proof (induction qs arbitrary: ch)
  case (Cons q qs)
  have rest: "drain once' qs c = drain once qs c"
    if "sound c" "\<And>i. i \<noteq> q_id q \<Longrightarrow> claimed c i = claimed ch i" for c
  proof (rule Cons.IH[OF that(1)])
    show "distinct (map q_id qs)" using Cons.prems(2) by simp
    fix q' assume q': "q' \<in> set qs" "q_unclaimed c q'" "ctx_err (q_ctx q') = None"
    then have "q_unclaimed ch q'"
      using that(2)[OF distinct_head[OF Cons.prems(2) q'(1)]] by (simp add: q_unclaimed_def)
    with q' Cons.prems(3) show "once' q' = once q'" by simp
  qed
  show ?case
  proof (cases "ctx_err (q_ctx q)")
    case (Some x)
    then show ?thesis using rest[of "claim_with (q_id q) (Some (NetworkError x)) ch"] Cons.prems(1)
      by (simp add: claim_with_eq)
  next
    case None
    show ?thesis
    proof (cases "q_unclaimed ch q")
      case False
      then show ?thesis using None rest[of ch] Cons.prems(1) by (simp add: try_claim_eq q_unclaimed_def)
    next
      case True
      let ?c = "ch\<lparr>claimed := (claimed ch)(q_id q \<mapsto> True)\<rparr>"
      obtain r c where c: "once q ?c = Some (r, c)" "sound c" "queue_part c = queue_part ?c"
        using assms(1) Cons.prems(1) unfolding keeps_queue_def by (metis sound_queue_fields(1))
      have "once' q = once q" using Cons.prems(3)[of q] True None by simp
      with c True None rest[of "put_q_result (q_id q) r c"] show ?thesis
        by (simp add: try_claim_eq q_unclaimed_def put_q_result_def queue_part_def)
    qed
  qed
qed simp

text \<open>
  C13: The drain after a reconnect terminates whatever happens to each resent request, empties the
  queue, and appends exactly one result per request nobody had claimed, in queue order; a
  request whose context is done gets a network error. Only unclaimed requests with a live
  context are sent: on all others the drain behaves the same whatever sending would do, so a
  request its caller has given up is never executed late.
\<close>

theorem drain_exactly_once:
  assumes "sound ch" and "distinct (map q_id (queue ch))"
    and "\<forall>q \<in> set (queue ch). q_unclaimed ch q \<and> ctx_err (q_ctx q) = None \<longrightarrow> once' q = resend e reads f q"
  shows "\<exists>ch' rs. drainQueue (resend e reads f) ch = Some ch' \<and> drainQueue once' ch = Some ch'
    \<and> sound ch' \<and> queue ch' = [] \<and> (\<forall>q \<in> set (queue ch). \<not> q_unclaimed ch' q)
    \<and> q_results ch' = q_results ch @ rs \<and> list_all2 q_outcome (filter (q_unclaimed ch) (queue ch)) rs"
proof -
  let ?c = "ch\<lparr>queue := []\<rparr>"
  have u: "q_unclaimed ?c = q_unclaimed ch" by (simp add: fun_eq_iff q_unclaimed_def)
  have "drain once' (queue ch) ?c = drain (resend e reads f) (queue ch) ?c"
    using assms by (intro drain_cong_live[OF keeps_queue_resend]) (auto simp: u)
  then show ?thesis
    using drain_results[OF keeps_queue_resend, of ?c "queue ch" e reads f] assms(1,2) u
    by (auto simp: drainQueue_def)
qed

definition queued :: "nat \<Rightarrow> err option \<Rightarrow> queuedInvoke" where
  "queued i x = \<lparr>q_id = i, q_ctx = \<lparr>ctx_deadline = None, ctx_err = x\<rparr>, q_op = ''/a'', q_req = None,
     q_resp = False, q_requestID = [], q_deadline = 3\<rparr>"

theorem drain_exactly_once_witness:
  "let ch = live_channel\<lparr>claimed := [5 \<mapsto> True, 6 \<mapsto> False],
         queue := [queued 5 None, queued 6 (Some (Sentinel CtxCanceled))]\<rparr>
   in \<exists>ch'. drainQueue (\<lambda>_ _. None) ch = Some ch' \<and> queue ch' = []
        \<and> q_results ch' = [(6, Some (NetworkError (Sentinel CtxCanceled)))]"
proof -
  let ?ch = "live_channel\<lparr>claimed := [5 \<mapsto> True, 6 \<mapsto> False], queue := [queued 5 None, queued 6 (Some (Sentinel CtxCanceled))]\<rparr>"
  have s: "sound ?ch" using live_channel_wf by (simp add: sound_def ch_wf_def mail_ok_def)
  have u: "\<not> q_unclaimed ?ch (queued 5 None)" "q_unclaimed ?ch (queued 6 x)" for x
    by (simp_all add: q_unclaimed_def queued_def)
  have n: "ctx_err (q_ctx (queued 6 (Some (Sentinel CtxCanceled)))) \<noteq> None" by (simp add: queued_def)
  show ?thesis
    using drain_exactly_once[of ?ch "\<lambda>_ _. None" quiet_env "\<lambda>_. []" "\<lambda>_. TimesOut"] s u n
    by (auto simp: queued_def q_outcome_def list_all2_Cons1 live_channel_def setConn_def new_channel_def Let_def)
qed

end
