(* ===== verification/Supervisor.thy ===== *)
theory Supervisor
  imports Teardown
begin

text \<open>
  The life of a client channel (\<open>client/channel.go\<close>, \<open>client/heartbeat.go\<close>): the supervisor
  that reconnects, runs the session hook and drains the queue, the two heartbeats, and the
  race between the supervisor and a terminating read loop. What the outside answers (dials,
  hook results, ticks) is a script; a function of the script that returns \<open>None\<close> has used it
  up and is still trying.
\<close>

section \<open>Reconnecting\<close>

datatype attempt =
    SleepInterrupted
  | DialFailed
  | Dialed nat

text \<open>
  One reconnect: the sleeps taken, in order, are part of the result. A closed channel drops the
  connection it just made.
\<close>

fun reconnectFrom ::
  "attempt list \<Rightarrow> duration \<Rightarrow> channel \<Rightarrow> duration list \<Rightarrow> (generation option \<times> channel \<times> duration list) option" where
  "reconnectFrom [] b ch slept = None"
| "reconnectFrom (SleepInterrupted # as) b ch slept = Some (None, ch, slept @ [b])"
| "reconnectFrom (DialFailed # as) b ch slept =
     reconnectFrom as (nextBackoff (c_backoffMax (prm ch)) b) ch (slept @ [b])"
| "reconnectFrom (Dialed tr # as) b ch slept =
     (if ch_closed ch then Some (None, close_tr tr ch, slept @ [b])
      else let ch = setConn tr ch in Some (genPtr ch, ch, slept @ [b]))"

definition reconnectOnce ::
  "attempt list \<Rightarrow> channel \<Rightarrow> (generation option \<times> channel \<times> duration list) option" where
  "reconnectOnce as ch = reconnectFrom as (c_backoffBase (prm ch)) ch []"

section \<open>The session hook and the drain\<close>

text \<open>
  How one hook run ends: it returned, panicked, timed out, or the channel closed under it; and
  what the hook did to the channel meanwhile (its own requests go straight through).
\<close>

datatype hook_end = HookReturned "err option" | HookPanicked | HookTimedOut | HookChannelClosed

definition runHookSync :: "(channel \<Rightarrow> hook_end \<times> channel) \<Rightarrow> channel \<Rightarrow> err option \<times> channel" where
  "runHookSync hook ch =
     (case hook (ch\<lparr>hookBypass := True\<rparr>) of
        (r, ch) \<Rightarrow>
          ((case r of HookReturned x \<Rightarrow> x
            | HookPanicked \<Rightarrow> Some (Msg ''hook panic'')
            | HookTimedOut \<Rightarrow> Some (Msg ''hook timeout'')
            | HookChannelClosed \<Rightarrow> Some (Msg ''closed'')),
           ch\<lparr>hookBypass := False\<rparr>))"

text \<open>
  \<open>settleGeneration\<close>; each round of the script is a hook run and the dial attempts after it
  fails. \<open>once\<close> resends a queued request.
\<close>

fun settleGeneration ::
  "(queuedInvoke \<Rightarrow> channel \<Rightarrow> (err option \<times> channel) option)
   \<Rightarrow> ((channel \<Rightarrow> hook_end \<times> channel) \<times> attempt list) list \<Rightarrow> generation \<Rightarrow> channel
   \<Rightarrow> (generation option \<times> channel) option" where
  "settleGeneration once rounds ng ch =
     (let settle = (\<lambda>ng ch.
            if ch_closed ch then Some (None, ch)
            else do {
              ch \<leftarrow> drainQueue once (ch\<lparr>ch_state := StateConnected\<rparr>);
              Some (Some ng, ch)
            })
      in if c_onReconnected (prm ch) = None then settle ng ch
         else (case rounds of
            [] \<Rightarrow> None
          | (hook, as) # rounds \<Rightarrow>
              (case runHookSync hook ch of
                 (None, ch) \<Rightarrow> settle ng ch
               | (Some x, ch) \<Rightarrow>
                   do {
                     (ng2, ch, _) \<leftarrow> reconnectFrom as (c_backoffBase (prm ch)) (closeGeneration (g_done ng) ch) [];
                     (case ng2 of
                        None \<Rightarrow> Some (None, ch)
                      | Some ng \<Rightarrow>
                          if ch_closed ch then Some (None, ch)
                          else settleGeneration once rounds ng ch)
                   })))"

declare settleGeneration.simps [simp del]

text \<open>One round of the supervisor after the generation it watched has died.\<close>

definition supervise_round ::
  "(queuedInvoke \<Rightarrow> channel \<Rightarrow> (err option \<times> channel) option)
   \<Rightarrow> attempt list \<Rightarrow> ((channel \<Rightarrow> hook_end \<times> channel) \<times> attempt list) list \<Rightarrow> channel
   \<Rightarrow> (generation option \<times> channel) option" where
  "supervise_round once as rounds ch =
     (if ch_closed ch then Some (None, ch)
      else if \<not> c_autoReconnect (prm ch) then Some (None, ch\<lparr>ch_state := StateDisconnected\<rparr>)
      else do {
        (ng, ch, _) \<leftarrow> reconnectOnce as (ch\<lparr>ch_state := StateReconnecting\<rparr>);
        (case ng of
           None \<Rightarrow> Some (None, ch\<lparr>ch_state := StateDisconnected\<rparr>)
         | Some ng \<Rightarrow>
             if ch_closed ch then Some (None, ch)
             else do {
               (r, ch) \<leftarrow> settleGeneration once rounds ng ch;
               (case r of
                  None \<Rightarrow> Some (None, ch\<lparr>ch_state := StateDisconnected\<rparr>)
                | Some ng \<Rightarrow> Some (Some ng, ch))
             })
      })"

section \<open>Heartbeats\<close>

text \<open>
  The transport heartbeat: one outcome per tick; the result is the tick at which the loop
  closes its generation's connection, if it does.
\<close>

fun heartbeatLoop :: "nat \<Rightarrow> err option list \<Rightarrow> nat option" where
  "heartbeatLoop failures [] = None"
| "heartbeatLoop failures (r # rs) =
     (case r of
        None \<Rightarrow> map_option Suc (heartbeatLoop 0 rs)
      | Some x \<Rightarrow>
          if as_business x \<noteq> None then map_option Suc (heartbeatLoop 0 rs)
          else if failures + 1 \<ge> defaultHeartbeatFailures then Some 0
          else map_option Suc (heartbeatLoop (failures + 1) rs))"

definition counts_as_failure :: "err option \<Rightarrow> bool" where
  "counts_as_failure r = (case r of None \<Rightarrow> False | Some x \<Rightarrow> as_business x = None)"

text \<open>
  The session heartbeat: \<open>op\<close> and outcome of each tick; a business rejection triggers the
  relogin hook unless a reconnect hook runs or an earlier trigger has not finished. The state
  is the busy flag; the result counts the hooks started.
\<close>

definition triggerReloginHook :: "bool \<Rightarrow> bool \<Rightarrow> bool \<times> bool" where
  "triggerReloginHook bypass busy = (if bypass \<or> busy then (False, busy) else (True, True))"

datatype session_tick = SessionTick string "err option" bool | HookFinished

fun sessionHeartbeatLoop :: "bool \<Rightarrow> session_tick list \<Rightarrow> bool list" where
  "sessionHeartbeatLoop busy [] = []"
| "sessionHeartbeatLoop busy (HookFinished # ts) = sessionHeartbeatLoop False ts"
| "sessionHeartbeatLoop busy (SessionTick op r bypass # ts) =
     (if op = [] then False # sessionHeartbeatLoop busy ts
      else (case r of
          Some (BusinessError _) \<Rightarrow>
            (case triggerReloginHook bypass busy of (started, busy) \<Rightarrow> started # sessionHeartbeatLoop busy ts)
        | _ \<Rightarrow> False # sessionHeartbeatLoop busy ts))"

text \<open>Which loops \<open>startConnLoops\<close> starts for a generation.\<close>

datatype conn_loop = ReadLoop | HeartbeatLoop | SessionHeartbeatLoop

definition startConnLoops :: "channel_params \<Rightarrow> conn_loop list" where
  "startConnLoops p =
     (let sessionHB = (c_kind p = KindBusiness \<and> c_sessionHBInterval p > 0 \<and> c_sessionHBOp p \<noteq> None)
      in [ReadLoop] @ (if c_heartbeatInterval p > 0 then [HeartbeatLoop] else [])
         @ (if sessionHB then [SessionHeartbeatLoop] else []))"

section \<open>Dead links\<close>

definition dead_at :: "nat \<Rightarrow> err option list \<Rightarrow> nat \<Rightarrow> bool" where
  "dead_at f rs n \<longleftrightarrow> n < length rs \<and> 2 \<le> n + f \<and> (\<forall>i \<le> n. n < i + 3 \<longrightarrow> counts_as_failure (rs ! i))"

lemma dead_at_alive: "\<not> counts_as_failure r \<Longrightarrow> dead_at f (r # rs) n \<longleftrightarrow> (\<exists>k. n = Suc k \<and> dead_at 0 rs k)"
proof (cases n)
  case (Suc k)
  assume r: "\<not> counts_as_failure r"
  show ?thesis
  proof
    assume d: "dead_at f (r # rs) n"
    then have "\<not> n < 3" using r by (auto simp: dead_at_def)
    then show "\<exists>k. n = Suc k \<and> dead_at 0 rs k" using d Suc by (auto simp: dead_at_def)
  next
    assume "\<exists>k. n = Suc k \<and> dead_at 0 rs k"
    then show "dead_at f (r # rs) n" using Suc by (auto simp: dead_at_def nth_Cons split: nat.split)
  qed
qed (auto simp: dead_at_def)

lemma dead_at_failing:
  assumes "counts_as_failure r" and "f < 2"
  shows "dead_at f (r # rs) n \<longleftrightarrow> (\<exists>k. n = Suc k \<and> dead_at (Suc f) rs k)"
proof (cases n)
  case (Suc k)
  then show ?thesis using assms(1) by (auto simp: dead_at_def nth_Cons split: nat.split)
qed (use assms in \<open>auto simp: dead_at_def\<close>)

lemma dead_at_third: "counts_as_failure r \<Longrightarrow> dead_at 2 (r # rs) 0"
  by (simp add: dead_at_def)

lemma least_Suc:
  "(\<exists>k. n = Suc k \<and> P k) \<and> (\<forall>k < n. \<not> (\<exists>j. k = Suc j \<and> P j)) \<longleftrightarrow> (\<exists>k. n = Suc k \<and> P k \<and> (\<forall>j < k. \<not> P j))"
  by auto

lemma heartbeatLoop_iff:
  "f \<le> 2 \<Longrightarrow> heartbeatLoop f rs = Some n \<longleftrightarrow> dead_at f rs n \<and> (\<forall>k < n. \<not> dead_at f rs k)"
proof (induction rs arbitrary: f n)
  case Nil
  then show ?case by (simp add: dead_at_def)
next
  case (Cons r rs)
  have alive: "heartbeatLoop f (r # rs) = map_option Suc (heartbeatLoop 0 rs)" if "\<not> counts_as_failure r"
    using that by (auto simp: counts_as_failure_def split: option.splits)
  show ?case
  proof (cases "counts_as_failure r")
    case False
    then show ?thesis
      unfolding alive[OF False] dead_at_alive[OF False] least_Suc using Cons.IH[of 0] by auto
  next
    case True
    then have step: "heartbeatLoop f (r # rs) =
        (if f + 1 \<ge> 3 then Some 0 else map_option Suc (heartbeatLoop (f + 1) rs))"
      by (auto simp: counts_as_failure_def defaultHeartbeatFailures_def split: option.splits)
    show ?thesis
    proof (cases "f = 2")
      case f: True
      then show ?thesis using step dead_at_third[OF True, of rs] by (cases n) auto
    next
      case f: False
      then have "f < 2" using Cons.prems by simp
      then show ?thesis
        unfolding step dead_at_failing[OF True \<open>f < 2\<close>] least_Suc using Cons.IH[of "Suc f"] by auto
    qed
  qed
qed

text \<open>
  C35: Dead links: the heartbeat closes its connection exactly at the third failure in a row. A
  success or a business rejection (a completed round trip) starts the count again; nothing
  else closes the connection, and three network failures in a row always do.
\<close>

theorem heartbeat_three_strikes:
  "(heartbeatLoop 0 rs = Some n)
     = (n < length rs \<and> 2 \<le> n \<and> counts_as_failure (rs ! n) \<and> counts_as_failure (rs ! (n - 1)) \<and> counts_as_failure (rs ! (n - 2))
        \<and> list_all (\<lambda>k. \<not> (counts_as_failure (rs ! k) \<and> counts_as_failure (rs ! (k - 1)) \<and> counts_as_failure (rs ! (k - 2)))) [2..<n])"
proof -
  have d: "dead_at 0 rs k \<longleftrightarrow> k < length rs \<and> 2 \<le> k \<and> counts_as_failure (rs ! k)
      \<and> counts_as_failure (rs ! (k - 1)) \<and> counts_as_failure (rs ! (k - 2))" for k
  proof -
    have "i = k \<or> i = k - 1 \<or> i = k - 2" if "i \<le> k" "k < i + 3" for i using that by linarith
    then show ?thesis by (auto simp: dead_at_def)
  qed
  show ?thesis unfolding heartbeatLoop_iff[of 0, simplified] d by (auto simp: list_all_iff)
qed

section \<open>The hook gates the queue\<close>

text \<open>
  What a hook run cannot do: touch the queue or the settings, or call the channel connected, which only the
  constructor and the supervisor do.
\<close>

definition hook_ok :: "(channel \<Rightarrow> hook_end \<times> channel) \<Rightarrow> bool" where
  "hook_ok hook \<longleftrightarrow> (\<forall>ch. sound ch \<longrightarrow>
     sound (snd (hook ch)) \<and> queue_part (snd (hook ch)) = queue_part ch \<and> prm (snd (hook ch)) = prm ch
     \<and> (ch_state (snd (hook ch)) = StateConnected \<longrightarrow> ch_state ch = StateConnected))"

lemma sound_other [simp]:
  "sound (ch\<lparr>genPtr := a\<rparr>) = sound ch" "sound (ch\<lparr>next_tr := n\<rparr>) = sound ch"
  "sound (ch\<lparr>closed_trs := l\<rparr>) = sound ch" "sound (ch\<lparr>hookBypass := b\<rparr>) = sound ch"
  "sound (ch\<lparr>ch_state := st\<rparr>) = sound ch"
  by (simp_all add: sound_def ch_wf_def mail_ok_def)

lemma queue_part_other [simp]:
  "queue_part (ch\<lparr>genPtr := a\<rparr>) = queue_part ch" "queue_part (ch\<lparr>next_tr := n\<rparr>) = queue_part ch"
  "queue_part (ch\<lparr>closed_trs := l\<rparr>) = queue_part ch" "queue_part (ch\<lparr>hookBypass := b\<rparr>) = queue_part ch"
  "queue_part (ch\<lparr>ch_state := st\<rparr>) = queue_part ch"
  by (simp_all add: queue_part_def)

lemma reconnectFrom_keeps:
  "reconnectFrom as b ch ds = Some (g, ch', ds') \<Longrightarrow>
     (sound ch \<longrightarrow> sound ch') \<and> queue_part ch' = queue_part ch \<and> prm ch' = prm ch \<and> ch_state ch' = ch_state ch
     \<and> (g \<noteq> None \<longrightarrow> \<not> ch_closed ch' \<and> genPtr ch' = g)"
proof (induction as arbitrary: b ds)
  case (Cons a as)
  show ?case
  proof (cases a)
    case DialFailed
    then show ?thesis using Cons by simp
  next
    case (Dialed tr)
    then show ?thesis
      using Cons.prems by (auto simp: setConn_def close_tr_def Let_def split: if_splits)
  qed (use Cons.prems in auto)
qed simp

lemma closeGeneration_keeps [simp]:
  "queue_part (closeGeneration d ch) = queue_part ch" "prm (closeGeneration d ch) = prm ch"
  "sound (closeGeneration d ch) = sound ch" "ch_state (closeGeneration d ch) = ch_state ch"
  by (simp_all add: closeGeneration_def close_tr_def split: option.split)

lemma queue_part_q_unclaimed: "queue_part c = queue_part ch \<Longrightarrow> q_unclaimed c = q_unclaimed ch \<and> queue c = queue ch"
  by (simp add: queue_part_def q_unclaimed_def fun_eq_iff)

lemma runHookSync_keeps:
  assumes "hook_ok hook" and "sound ch" and "runHookSync hook ch = (r, ch')"
  shows "sound ch' \<and> queue_part ch' = queue_part ch \<and> prm ch' = prm ch
    \<and> (ch_state ch' = StateConnected \<longrightarrow> ch_state ch = StateConnected)"
proof -
  obtain h c where hc: "hook (ch\<lparr>hookBypass := True\<rparr>) = (h, c)" by (cases "hook (ch\<lparr>hookBypass := True\<rparr>)")
  have "sound c \<and> queue_part c = queue_part ch \<and> prm c = prm ch \<and> (ch_state c = StateConnected \<longrightarrow> ch_state ch = StateConnected)"
    using assms(1)[unfolded hook_ok_def, rule_format, of "ch\<lparr>hookBypass := True\<rparr>"] assms(2) hc by simp
  then show ?thesis using assms(3) hc by (auto simp: runHookSync_def)
qed

lemma settle_drains:
  assumes "keeps_queue once" and "sound ch" and "distinct (map q_id (queue ch))"
  shows "\<exists>ch'. drainQueue once (ch\<lparr>ch_state := StateConnected\<rparr>) = Some ch' \<and> queue ch' = []
    \<and> (\<forall>q \<in> set (queue ch). \<not> q_unclaimed ch' q)"
proof -
  let ?c = "ch\<lparr>ch_state := StateConnected, queue := []\<rparr>"
  have "sound ?c" using assms(2) by simp
  from drain_results[OF assms(1) this assms(3)] show ?thesis
    unfolding drainQueue_def by fastforce
qed

text \<open>
  The rounds before the last: each hook run fails, its generation is closed and the redial after it
  succeeds on a channel that is still open.
\<close>

type_synonym hook_rounds = "((channel \<Rightarrow> hook_end \<times> channel) \<times> attempt list) list"

inductive redialled :: "hook_rounds \<Rightarrow> generation \<Rightarrow> channel \<Rightarrow> hook_rounds \<Rightarrow> generation \<Rightarrow> channel \<Rightarrow> bool" where
  redialled_none: "redialled rounds ng ch rounds ng ch"
| redialled_once: "runHookSync h ch = (Some x, c) \<Longrightarrow>
     reconnectFrom as (c_backoffBase (prm c)) (closeGeneration (g_done ng) c) [] = Some (Some ng', c', ds) \<Longrightarrow>
     redialled rounds ng' c' rest g d \<Longrightarrow> redialled ((h, as) # rounds) ng ch rest g d"

text \<open>The last round: no hook, or a hook run that returned without error, on an open channel.\<close>

definition let_through :: "hook_rounds \<Rightarrow> channel \<Rightarrow> channel \<Rightarrow> bool" where
  "let_through rest d c \<longleftrightarrow> \<not> ch_closed c
     \<and> (if c_onReconnected (prm d) = None then c = d else (\<exists>h as later. rest = (h, as) # later \<and> runHookSync h d = (None, c)))"

lemma settleGeneration_redialled:
  assumes "redialled rounds ng ch rest g d" and "\<forall>(h, as) \<in> set rounds. hook_ok h" and "sound ch"
    and "c_onReconnected (prm ch) \<noteq> None"
  shows "settleGeneration once rounds ng ch = settleGeneration once rest g d
    \<and> sound d \<and> queue_part d = queue_part ch \<and> prm d = prm ch \<and> (\<forall>(h, as) \<in> set rest. hook_ok h)"
  using assms
proof (induction rule: redialled.induct)
  case (redialled_once h ch x c as ng ng' c' ds rounds rest g d)
  have "hook_ok h" using redialled_once.prems(1) by simp
  note k = runHookSync_keeps[OF this redialled_once.prems(2) redialled_once.hyps(1)]
    and r = reconnectFrom_keeps[OF redialled_once.hyps(2)]
  have "settleGeneration once ((h, as) # rounds) ng ch = settleGeneration once rounds ng' c'"
    using redialled_once.hyps(1,2) redialled_once.prems(3) r
    by (auto simp: settleGeneration.simps[of once "(h, as) # rounds"])
  then show ?case using redialled_once.IH redialled_once.prems k r by simp
qed simp

lemma let_through_settles:
  assumes "keeps_queue once" and "let_through rest d c" and "\<forall>(h, as) \<in> set rest. hook_ok h" and "sound d"
    and "distinct (map q_id (queue d))"
  shows "\<exists>ch'. settleGeneration once rest g d = Some (Some g, ch') \<and> queue_part c = queue_part d
    \<and> drainQueue once (c\<lparr>ch_state := StateConnected\<rparr>) = Some ch' \<and> queue ch' = [] \<and> (\<forall>q \<in> set (queue d). \<not> q_unclaimed ch' q)"
proof -
  have k: "sound c" "queue_part c = queue_part d"
  proof -
    have "sound c \<and> queue_part c = queue_part d"
      using assms(2-4) runHookSync_keeps[of _ d None c] unfolding let_through_def by (auto split: if_splits)
    then show "sound c" "queue_part c = queue_part d" by simp_all
  qed
  note q = queue_part_q_unclaimed[OF k(2)]
  obtain ch' where "drainQueue once (c\<lparr>ch_state := StateConnected\<rparr>) = Some ch'" "queue ch' = []"
      "\<forall>q \<in> set (queue d). \<not> q_unclaimed ch' q"
    using settle_drains[OF assms(1) k(1)] assms(5) q by auto
  moreover from this(1) have "settleGeneration once rest g d = Some (Some g, ch')"
    using assms(2) by (auto simp: let_through_def settleGeneration.simps[of once rest] split: if_splits)
  ultimately show ?thesis using k(2) by blast
qed

definition gate_passed :: "hook_rounds \<Rightarrow> generation \<Rightarrow> channel \<Rightarrow> generation \<Rightarrow> bool" where
  "gate_passed rounds ng ch g \<longleftrightarrow> (\<exists>rest d c. redialled rounds ng ch rest g d \<and> let_through rest d c)"

lemma gate_now: "let_through rounds ch c \<Longrightarrow> gate_passed rounds ng ch ng"
  using redialled_none unfolding gate_passed_def by blast

lemma gate_open: "c_onReconnected (prm ch) = None \<Longrightarrow> \<not> ch_closed ch \<Longrightarrow> gate_passed rounds ng ch ng"
  by (rule gate_now[of _ _ ch]) (simp add: let_through_def)

lemma gate_hook:
  "c_onReconnected (prm ch) \<noteq> None \<Longrightarrow> \<not> ch_closed c \<Longrightarrow> runHookSync h ch = (None, c) \<Longrightarrow>
     gate_passed ((h, as) # rounds) ng ch ng"
  by (rule gate_now[of _ _ c]) (auto simp: let_through_def)

lemma gate_later:
  assumes "runHookSync h ch = (Some x, c)"
    and "reconnectFrom as (c_backoffBase (prm c)) (closeGeneration (g_done ng) c) [] = Some (Some ng', c', ds)"
    and "gate_passed rounds ng' c' g"
  shows "gate_passed ((h, as) # rounds) ng ch g"
  using assms redialled_once unfolding gate_passed_def by blast

lemma settleGeneration_outcome:
  assumes "keeps_queue once" and "\<forall>(h, as) \<in> set rounds. hook_ok h" and "sound ch"
    and "distinct (map q_id (queue ch))" and "settleGeneration once rounds ng ch = Some (r, ch')"
  shows "case r of
      None \<Rightarrow> queue_part ch' = queue_part ch \<and> (ch_state ch' = StateConnected \<longrightarrow> ch_state ch = StateConnected)
    | Some g \<Rightarrow> gate_passed rounds ng ch g"
  using assms(2-5)
proof (induction rounds arbitrary: ng ch)
  case Nil
  then have "c_onReconnected (prm ch) = None" by (auto simp: settleGeneration.simps split: if_splits)
  then show ?case
    using Nil(4) settle_drains[OF assms(1) Nil(2,3)] gate_open[of ch "[]" ng]
    by (auto simp: settleGeneration.simps split: if_splits)
next
  case (Cons p rounds)
  obtain hook as where p: "p = (hook, as)" by (cases p)
  note run = Cons.prems(4)[unfolded p]
  show ?case
  proof (cases "c_onReconnected (prm ch) = None")
    case True
    then show ?thesis
      using settle_drains[OF assms(1) Cons.prems(2,3)] Cons.prems(4) gate_open[of ch "p # rounds" ng]
      by (auto simp: settleGeneration.simps split: if_splits)
  next
    case False
    obtain x c where h: "runHookSync hook ch = (x, c)" by (cases "runHookSync hook ch")
    have k: "sound c" "queue_part c = queue_part ch" "prm c = prm ch" "ch_state c = StateConnected \<longrightarrow> ch_state ch = StateConnected"
      using runHookSync_keeps[OF _ Cons.prems(2) h] Cons.prems(1) p by auto
    show ?thesis
    proof (cases x)
      case None
      have "distinct (map q_id (queue c))" using queue_part_q_unclaimed[OF k(2)] Cons.prems(3) by simp
      from settle_drains[OF assms(1) k(1) this] False h None run k show ?thesis
        using gate_hook[of ch c hook as rounds ng]
        by (auto simp: settleGeneration.simps[of once "(hook, as) # rounds"] p split: if_splits)
    next
      case (Some e)
      let ?c = "closeGeneration (g_done ng) c"
      obtain g c2 ds where rc: "reconnectFrom as (c_backoffBase (prm c)) ?c [] = Some (g, c2, ds)"
        using run False h Some
        by (auto simp: settleGeneration.simps[of once "(hook, as) # rounds"] bind_eq_Some_conv)
      have k2: "sound c2" "queue_part c2 = queue_part ch" "ch_state c2 = ch_state c" "prm c2 = prm ch"
        using reconnectFrom_keeps[OF rc] k by auto
      show ?thesis
      proof (cases "g = None \<or> ch_closed c2")
        case True
        then have "r = None" "ch' = c2"
          using run False h Some rc
          by (auto simp: settleGeneration.simps[of once "(hook, as) # rounds"] split: option.splits)
        then show ?thesis using k k2 by simp
      next
        case go: False
        then obtain ng2 where ng2: "g = Some ng2" by auto
        then have "settleGeneration once rounds ng2 c2 = Some (r, ch')"
          using run False h Some rc go
          by (simp add: settleGeneration.simps[of once "(hook, as) # rounds"])
        moreover have "distinct (map q_id (queue c2))" "\<forall>(h, as) \<in> set rounds. hook_ok h"
          using queue_part_q_unclaimed[OF k2(2)] Cons.prems(1,3) by simp_all
        ultimately have "case r of
              None \<Rightarrow> queue_part ch' = queue_part c2 \<and> (ch_state ch' = StateConnected \<longrightarrow> ch_state c2 = StateConnected)
            | Some g \<Rightarrow> gate_passed rounds ng2 c2 g"
          using Cons.IH[of c2 ng2] k2(1) by blast
        then show ?thesis
          using k k2 gate_later[OF h[unfolded Some] rc[unfolded ng2]] unfolding p by (cases r) auto
      qed
    qed
  qed
qed

text \<open>
  C36: The session hook gates the queue. With a hook, the queue is drained, and the channel called connected, only
  after a hook run has returned without error on an open channel, however many hook runs failed before and were
  followed by a successful redial; and then it is. Until then the queue is as it was, every request unsent and
  unclaimed; in the end it is empty, with every request claimed. A reconnect that is given up leaves the queue as it was,
  for \<open>Close\<close> to settle, and does not call the channel connected.
\<close>

theorem hook_gates_queue:
  assumes "\<forall>(h, as) \<in> set rounds. hook_ok h" and "sound ch" and "distinct (map q_id (queue ch))"
    and "settleGeneration (resend e reads f) rounds ng ch = Some (r, ch')" and "c_onReconnected (prm ch) \<noteq> None"
  shows "(case r of
      None \<Rightarrow> queue_part ch' = queue_part ch \<and> (ch_state ch' = StateConnected \<longrightarrow> ch_state ch = StateConnected)
    | Some g \<Rightarrow> \<exists>h as later d c. redialled rounds ng ch ((h, as) # later) g d \<and> runHookSync h d = (None, c) \<and> \<not> ch_closed c
        \<and> queue_part c = queue_part ch \<and> drainQueue (resend e reads f) (c\<lparr>ch_state := StateConnected\<rparr>) = Some ch'
        \<and> queue ch' = [] \<and> (\<forall>q \<in> set (queue ch). \<not> q_unclaimed ch' q))
    \<and> (\<forall>h as later g d c. redialled rounds ng ch ((h, as) # later) g d \<and> runHookSync h d = (None, c) \<and> \<not> ch_closed c
         \<longrightarrow> r = Some g)"
proof -
  note keeps = keeps_queue_resend[of e reads f]
  have through: "r = Some g \<and> queue_part c = queue_part ch \<and> drainQueue (resend e reads f) (c\<lparr>ch_state := StateConnected\<rparr>) = Some ch'
      \<and> queue ch' = [] \<and> (\<forall>q \<in> set (queue ch). \<not> q_unclaimed ch' q)
      \<and> (\<exists>h as later. rest = (h, as) # later \<and> runHookSync h d = (None, c) \<and> \<not> ch_closed c)"
    if redial: "redialled rounds ng ch rest g d" and "let_through rest d c" for rest g d c
  proof -
    have d: "settleGeneration (resend e reads f) rest g d = Some (r, ch')" "sound d" "queue_part d = queue_part ch"
        "prm d = prm ch" "\<forall>(h, as) \<in> set rest. hook_ok h"
      using settleGeneration_redialled[OF redial assms(1,2,5)] assms(4) by auto
    note q = queue_part_q_unclaimed[OF d(3)]
    show ?thesis
      using let_through_settles[OF keeps \<open>let_through rest d c\<close> d(5,2), of g] d(1,3,4) q assms(3,5) \<open>let_through rest d c\<close>
      by (auto simp: let_through_def)
  qed
  show ?thesis
  proof (intro conjI allI impI)
    show "case r of
        None \<Rightarrow> queue_part ch' = queue_part ch \<and> (ch_state ch' = StateConnected \<longrightarrow> ch_state ch = StateConnected)
      | Some g \<Rightarrow> \<exists>h as later d c. redialled rounds ng ch ((h, as) # later) g d \<and> runHookSync h d = (None, c) \<and> \<not> ch_closed c
          \<and> queue_part c = queue_part ch \<and> drainQueue (resend e reads f) (c\<lparr>ch_state := StateConnected\<rparr>) = Some ch'
          \<and> queue ch' = [] \<and> (\<forall>q \<in> set (queue ch). \<not> q_unclaimed ch' q)"
    proof (cases r)
      case None
      then show ?thesis using settleGeneration_outcome[OF keeps assms(1-4)] by simp
    next
      case (Some g)
      then obtain rest d c where d: "redialled rounds ng ch rest g d" "let_through rest d c"
        using settleGeneration_outcome[OF keeps assms(1-4)] by (auto simp: gate_passed_def)
      from through[OF d] obtain h as later where h: "rest = (h, as) # later" "runHookSync h d = (None, c)" "\<not> ch_closed c" by blast
      show ?thesis
        unfolding Some option.case
        by (rule exI[of _ h], rule exI[of _ as], rule exI[of _ later], rule exI[of _ d], rule exI[of _ c])
          (use through[OF d] d(1) h in simp)
    qed
    show "r = Some g"
      if "redialled rounds ng ch ((h, as) # later) g d \<and> runHookSync h d = (None, c) \<and> \<not> ch_closed c" for h as later g d c
    proof -
      have "prm d = prm ch" using settleGeneration_redialled[OF _ assms(1,2,5)] that by blast
      then have "let_through ((h, as) # later) d c" using that assms(5) by (auto simp: let_through_def)
      then show ?thesis using through that by blast
    qed
  qed
qed

theorem hook_gates_queue_witness:
  "let ch = live_channel\<lparr>prm := (prm live_channel)\<lparr>c_onReconnected := Some (UserHook 0)\<rparr>, ch_state := StateReconnecting,
         claimed := [6 \<mapsto> False], queue := [queued 6 (Some (Sentinel CtxCanceled))]\<rparr>;
       g = \<lparr>g_epoch = 1, g_tr = 0, g_done = 0\<rparr>;
       again = [(\<lambda>c. (HookTimedOut, c), [DialFailed, Dialed 4]), (\<lambda>c. (HookReturned None, c), [])]
   in (\<exists>r ch'. settleGeneration (resend quiet_env (\<lambda>_. []) (\<lambda>_. TimesOut)) again g ch = Some (r, ch') \<and> r \<noteq> None \<and> queue ch' = [])
      \<and> (\<exists>ch'. settleGeneration (resend quiet_env (\<lambda>_. []) (\<lambda>_. TimesOut)) [(\<lambda>c. (HookPanicked, c), [SleepInterrupted])] g ch
             = Some (None, ch') \<and> queue ch' = queue ch \<and> ch_state ch' \<noteq> StateConnected)"
proof -
  let ?ch = "live_channel\<lparr>prm := (prm live_channel)\<lparr>c_onReconnected := Some (UserHook 0)\<rparr>, ch_state := StateReconnecting,
         claimed := [6 \<mapsto> False], queue := [queued 6 (Some (Sentinel CtxCanceled))]\<rparr>"
  let ?g = "\<lparr>g_epoch = 1, g_tr = 0, g_done = 0\<rparr> :: generation"
  let ?again = "[(\<lambda>c. (HookTimedOut, c), [DialFailed, Dialed 4]), (\<lambda>c. (HookReturned None, c), [])]"
  let ?never = "[(\<lambda>c. (HookPanicked, c), [SleepInterrupted])]"
  let ?once = "resend quiet_env (\<lambda>_. []) (\<lambda>_. TimesOut)"
  have s: "sound ?ch" using live_channel_wf by (simp add: sound_def ch_wf_def mail_ok_def)
  have ok: "\<forall>(h, as) \<in> set ?again. hook_ok h" "\<forall>(h, as) \<in> set ?never. hook_ok h" by (simp_all add: hook_ok_def)
  have hook: "c_onReconnected (prm ?ch) \<noteq> None" "distinct (map q_id (queue ?ch))" by simp_all
  have "\<exists>r ch'. settleGeneration ?once ?again ?g ?ch = Some (r, ch') \<and> r \<noteq> None"
    by (simp add: settleGeneration.simps runHookSync_def closeGeneration_def trOfDone_def close_tr_def setConn_def
        live_channel_def new_channel_def queued_def drainQueue_def claim_with_eq Let_def)
  then obtain r ch' where r: "settleGeneration ?once ?again ?g ?ch = Some (r, ch')" "r \<noteq> None" by blast
  have "\<exists>ch'. settleGeneration ?once ?never ?g ?ch = Some (None, ch')"
    by (simp add: settleGeneration.simps runHookSync_def live_channel_def new_channel_def Let_def)
  then obtain ch2 where n: "settleGeneration ?once ?never ?g ?ch = Some (None, ch2)" by blast
  have "queue ch' = []" using hook_gates_queue[OF ok(1) s hook(2) r(1) hook(1)] r(2) by auto
  moreover have "queue_part ch2 = queue_part ?ch" "ch_state ch2 \<noteq> StateConnected"
    using hook_gates_queue[OF ok(2) s hook(2) n hook(1)] by simp_all
  ultimately show ?thesis using r n queue_part_q_unclaimed[of ch2 ?ch] unfolding Let_def by blast
qed

section \<open>Termination against a settling reconnect\<close>

text \<open>
  The stores of \<open>closed\<close> and \<open>state\<close> by a terminating read loop (of the generation just dialled)
  and by the supervisor in \<open>settleGeneration\<close> and after it, one atomic access per step.
  \<open>terminate\<close> takes \<open>lifecycleMu\<close>, the settling supervisor \<open>genMu\<close>, so neither excludes the other.
\<close>

datatype sup_pc = SettleCheck | SettleStore | SupFailed | Watching | SupReturned
datatype term_pc = TermClose | TermStore | TermDone

record life =
  l_closed :: bool
  l_state :: State
  l_sup :: sup_pc
  l_term :: term_pc

datatype life_op = SupStep | TermStep

fun life_do :: "life \<Rightarrow> life_op \<Rightarrow> life option" where
  "life_do s SupStep =
     (case l_sup s of
        SettleCheck \<Rightarrow> Some (s\<lparr>l_sup := if l_closed s then SupFailed else SettleStore\<rparr>)
      | SettleStore \<Rightarrow> Some (s\<lparr>l_state := StateConnected, l_sup := Watching\<rparr>)
      | SupFailed \<Rightarrow> Some (s\<lparr>l_state := StateDisconnected, l_sup := SupReturned\<rparr>)
      | Watching \<Rightarrow> if l_closed s then Some (s\<lparr>l_sup := SupReturned\<rparr>) else None
      | SupReturned \<Rightarrow> None)"
| "life_do s TermStep =
     (case l_term s of
        TermClose \<Rightarrow> Some (s\<lparr>l_closed := True, l_term := TermStore\<rparr>)
      | TermStore \<Rightarrow> Some (s\<lparr>l_state := StateDisconnected, l_term := TermDone\<rparr>)
      | TermDone \<Rightarrow> None)"

definition life_start :: life where
  "life_start = \<lparr>l_closed = False, l_state = StateReconnecting, l_sup = SettleCheck, l_term = TermClose\<rparr>"

definition life_over :: "life \<Rightarrow> bool" where
  "life_over s \<longleftrightarrow> l_sup s = SupReturned \<and> l_term s = TermDone"

text \<open>
  C37: The race that is left: a schedule exists after which the supervisor has returned and
  \<open>terminate\<close> has finished, the channel is closed for good, and its state still says connected;
  a later \<open>Close\<close> finds the closed flag set and does not correct it.
\<close>

theorem terminated_but_connected:
  "(\<exists>ops s. run_steps life_do life_start ops = Some s \<and> life_over s \<and> l_closed s \<and> l_state s = StateConnected)
   \<and> Close (live_channel\<lparr>ch_closed := True, ch_state := StateConnected\<rparr>)
       = live_channel\<lparr>ch_closed := True, ch_state := StateConnected\<rparr>"
proof
  have "run_steps life_do life_start [SupStep, TermStep, TermStep, SupStep, SupStep]
      = Some \<lparr>l_closed = True, l_state = StateConnected, l_sup = SupReturned, l_term = TermDone\<rparr>"
    by (simp add: life_start_def)
  then show "\<exists>ops s. run_steps life_do life_start ops = Some s \<and> life_over s \<and> l_closed s \<and> l_state s = StateConnected"
    by (fastforce simp: life_over_def)
  show "Close (live_channel\<lparr>ch_closed := True, ch_state := StateConnected\<rparr>)
       = live_channel\<lparr>ch_closed := True, ch_state := StateConnected\<rparr>"
    by (simp add: Close_def)
qed

end
