(* ===== verification/Transports.thy ===== *)
theory Transports
  imports Edge
begin

text \<open>
  The message-boundary transports: WebSocket and UDP of the client
  (\<open>client/transport_ws.go\<close>, \<open>client/transport_udp.go\<close>) and of the direct package
  (\<open>direct/transport.go\<close>, where a UDP datagram carries a flow id), and the hello exchange that
  opens a direct datagram flow. TCP and KCP read and write through the stream codec of
  \<open>FrameCodec\<close>. What the socket hands up is a script: a message, or an error.
\<close>

section \<open>The interface\<close>

text \<open>
  A reading loop over messages: \<open>Blocked\<close> when the script is used up, otherwise what the call
  returned and the script that is left.
\<close>

datatype 'a read_result = Blocked | ReadPanicked | Returned "err + 'a" "(err + bytes) list"

fun read_skipping ::
  "(bytes \<Rightarrow> (err + 'a) option) \<Rightarrow> (err \<Rightarrow> bool) \<Rightarrow> (err + bytes) list \<Rightarrow> 'a read_result" where
  "read_skipping f skip [] = Blocked"
| "read_skipping f skip (Inl x # ds) = Returned (Inl x) ds"
| "read_skipping f skip (Inr d # ds) =
     (case f d of
        None \<Rightarrow> ReadPanicked
      | Some (Inr a) \<Rightarrow> Returned (Inr a) ds
      | Some (Inl x) \<Rightarrow> if skip x then read_skipping f skip ds else Returned (Inl x) ds)"

text \<open>
  A transport: the message a frame is sent as, what a received message is read as, and which
  frames it carries. A carried frame is read back, and reading never panics.
\<close>

locale message_transport =
  fixes msg_of :: "header \<times> bytes \<Rightarrow> (err + bytes) option"
    and frame_of :: "bytes \<Rightarrow> (err + header \<times> bytes) option"
    and carries :: "header \<times> bytes \<Rightarrow> bool"
  assumes carried: "carries (h, body) \<Longrightarrow> \<exists>d. msg_of (h, body) = Some (Inr d) \<and> frame_of d = Some (Inr (on_wire h body, body))"
    and reads: "\<exists>r. frame_of d = Some r"
begin

definition junk :: "(err \<Rightarrow> bool) \<Rightarrow> bytes \<Rightarrow> bool" where
  "junk skip d \<longleftrightarrow> (\<exists>x. frame_of d = Some (Inl x) \<and> skip x)"

lemma never_panics: "read_skipping frame_of skip ds \<noteq> ReadPanicked"
proof (induction ds)
  case (Cons d ds)
  show ?case
  proof (cases d)
    case (Inr m)
    then show ?thesis using Cons reads[of m] by (auto split: sum.splits if_splits)
  qed simp
qed simp

lemma skips_junk:
  "list_all (junk skip) js \<Longrightarrow> read_skipping frame_of skip (map Inr js @ ds) = read_skipping frame_of skip ds"
  by (induction js) (auto simp: junk_def)

lemma delivers:
  assumes "carries (h, body)" and "list_all (junk skip) js"
  shows "\<exists>d. msg_of (h, body) = Some (Inr d)
    \<and> read_skipping frame_of skip (map Inr js @ Inr d # ds) = Returned (Inr (on_wire h body, body)) ds"
  using carried[OF assms(1)] skips_junk[OF assms(2)] by auto

end

section \<open>WebSocket (client/transport_ws.go)\<close>

definition normalizeWSURL :: "string \<Rightarrow> string \<Rightarrow> string" where
  "normalizeWSURL addr path =
     (if take 5 addr = ''ws://'' \<or> take 6 addr = ''wss://'' then addr
      else
        let path = (if path = [] then ''/ws'' else path);
            path = (if take 1 path \<noteq> ''/'' then ''/'' @ path else path)
        in ''ws://'' @ addr @ path)"

text \<open>The read limit \<open>dialWS\<close> sets on the connection.\<close>

definition ws_read_limit :: "int \<Rightarrow> int" where
  "ws_read_limit maxBodySize =
     int HeaderSize + (if maxBodySize \<le> 0 then MaxBodySize else maxBodySize)"

definition ws_ReadFrame :: "int \<Rightarrow> err + bytes \<Rightarrow> (err + header \<times> bytes) option" where
  "ws_ReadFrame maxBodySize r =
     (case r of
        Inl x \<Rightarrow>
          Some (Inl (if errors_is x WsErrReadLimit then Wrap ''websocket'' [x, Sentinel FrameErrProtocol] else x))
      | Inr msg \<Rightarrow> DecodeMessage msg maxBodySize)"

definition ws_WriteFrame :: "int \<Rightarrow> header \<times> bytes \<Rightarrow> (err + bytes) option" where
  "ws_WriteFrame maxBodySize f = Encode (fst f) (snd f) maxBodySize"

section \<open>UDP (client/transport_udp.go)\<close>

definition udpMaxDatagramSize :: nat where "udpMaxDatagramSize = 65536"

text \<open>A datagram longer than the read buffer is cut to it.\<close>

fun udp_ReadFrame :: "int \<Rightarrow> (err + bytes) list \<Rightarrow> (header \<times> bytes) read_result" where
  "udp_ReadFrame maxBodySize [] = Blocked"
| "udp_ReadFrame maxBodySize (Inl x # ds) = Returned (Inl x) ds"
| "udp_ReadFrame maxBodySize (Inr d # ds) =
     (case DecodeMessage (take udpMaxDatagramSize d) maxBodySize of
        None \<Rightarrow> ReadPanicked
      | Some (Inl _) \<Rightarrow> udp_ReadFrame maxBodySize ds
      | Some (Inr (h, body)) \<Rightarrow> Returned (Inr (h, copy_at 0 body (replicate (length body) 0))) ds)"

definition udp_WriteFrame :: "int \<Rightarrow> header \<times> bytes \<Rightarrow> (err + bytes) option" where
  "udp_WriteFrame maxBodySize f =
     (if length (snd f) + HeaderSize > udpMaxDatagramSize then Some (Inl (Msg ''udp: datagram too large''))
      else Encode (fst f) (snd f) maxBodySize)"

section \<open>UDP with a flow id (direct/transport.go)\<close>

definition udp_wrap :: "u64 \<Rightarrow> bytes \<Rightarrow> bytes" where
  "udp_wrap flowID payload = (if flowID = 0 then payload else WrapFlowID flowID payload)"

definition udp_strip :: "u64 \<Rightarrow> bytes \<Rightarrow> (err + bytes) option" where
  "udp_strip flowID dat =
     (if flowID = 0 then Some (Inr dat)
      else if length dat < FlowIDLen then Some (Inl (wrap_sentinel ErrFlowIDMismatch))
      else do {
        h \<leftarrow> slice 0 FlowIDLen dat; i \<leftarrow> uint64_be h;
        (if i \<noteq> flowID then Some (Inl (wrap_sentinel ErrFlowIDMismatch))
         else do { rest \<leftarrow> slice_from FlowIDLen dat; Some (Inr rest) })
      })"

definition direct_readBuf :: nat where "direct_readBuf = 64 * 1024"

fun direct_udp_ReadFrame :: "u64 \<Rightarrow> int \<Rightarrow> (err + bytes) list \<Rightarrow> (header \<times> bytes) read_result" where
  "direct_udp_ReadFrame flowID maxBodySize [] = Blocked"
| "direct_udp_ReadFrame flowID maxBodySize (Inl x # ds) = Returned (Inl x) ds"
| "direct_udp_ReadFrame flowID maxBodySize (Inr d # ds) =
     (case udp_strip flowID (take direct_readBuf d) of
        None \<Rightarrow> ReadPanicked
      | Some (Inl _) \<Rightarrow> direct_udp_ReadFrame flowID maxBodySize ds
      | Some (Inr payload) \<Rightarrow>
          (case DecodeMessage payload maxBodySize of
             None \<Rightarrow> ReadPanicked
           | Some (Inl x) \<Rightarrow> Returned (Inl x) ds
           | Some (Inr (h, body)) \<Rightarrow> Returned (Inr (h, copy_at 0 body (replicate (length body) 0))) ds))"

definition direct_udp_WriteFrame :: "u64 \<Rightarrow> int \<Rightarrow> header \<times> bytes \<Rightarrow> (err + bytes) option" where
  "direct_udp_WriteFrame flowID maxBodySize f =
     do {
       r \<leftarrow> Encode (fst f) (snd f) maxBodySize;
       (case r of
          Inl x \<Rightarrow> Some (Inl x)
        | Inr buf \<Rightarrow>
            if length buf + FlowIDLen > direct_readBuf then Some (Inl (Msg ''datagram too large''))
            else Some (Inr (udp_wrap flowID buf)))
     }"

section \<open>The hello exchange (direct/transport.go)\<close>

text \<open>The errors \<open>isTimeout\<close> recognises; the write's error and the reply are given.\<close>

definition isTimeout :: "err \<Rightarrow> bool" where
  "isTimeout x \<longleftrightarrow> errors_is x NetTimeout \<or> errors_is x CtxDeadlineExceeded"

definition edgeHello :: "err option \<Rightarrow> err + bytes \<Rightarrow> (err + u64) option" where
  "edgeHello wr reply =
     (case wr of
        Some x \<Rightarrow> Some (Inl (NetworkError (Wrap ''write hello'' [x])))
      | None \<Rightarrow>
          (case reply of
             Inl x \<Rightarrow>
               Some (Inl (if isTimeout x then wrap_sentinel ErrRejected
                          else NetworkError (Wrap ''read flow-id'' [x])))
           | Inr d \<Rightarrow>
               let buf = take FlowIDLen d in
               (if length buf \<noteq> FlowIDLen then Some (Inl (wrap_sentinel ErrRejected))
                else do { i \<leftarrow> uint64_be buf; Some (Inr i) })))"

definition classifyWSHandshake :: "bool \<Rightarrow> err \<Rightarrow> err" where
  "classifyWSHandshake got_response x =
     (if isTimeout x \<or> errors_is x CtxCanceled then NetworkError (Wrap ''ws handshake timeout'' [x])
      else if \<not> got_response then wrap_sentinel ErrRejected
      else wrap_sentinel ErrRejected)"

section \<open>The transports carry frames\<close>

lemma copy_at_whole [simp]: "copy_at 0 b (replicate (length b) 0) = b"
  by (simp add: copy_at_def)

lemma DecodeMessage_total: "\<exists>r. DecodeMessage d maxb = Some r"
  by (rule DecodeMessage_spec[of d maxb]) auto

lemma Encode_sendable:
  assumes "sendable h body maxb"
  shows "\<exists>d. Encode h body maxb = Some (Inr d) \<and> length d = HeaderSize + length body
    \<and> DecodeMessage d maxb = Some (Inr (on_wire h body, body))"
  using assms DecodeMessage_on_wire[OF assms] by (simp add: Encode_eq sendable_def HeaderSize_def)

interpretation ws: message_transport "ws_WriteFrame maxb" "\<lambda>d. ws_ReadFrame maxb (Inr d)" "\<lambda>(h, body). sendable h body maxb"
  for maxb
proof
  show "\<exists>d. ws_WriteFrame maxb (h, body) = Some (Inr d) \<and> ws_ReadFrame maxb (Inr d) = Some (Inr (on_wire h body, body))"
    if "case (h, body) of (h, body) \<Rightarrow> sendable h body maxb" for h body
    using Encode_sendable[of h body maxb] that by (auto simp: ws_WriteFrame_def ws_ReadFrame_def)
qed (simp add: ws_ReadFrame_def DecodeMessage_total)

text \<open>UDP: reading a datagram is decoding what fits the buffer.\<close>

definition udp_carries :: "int \<Rightarrow> header \<times> bytes \<Rightarrow> bool" where
  "udp_carries maxb f \<longleftrightarrow> sendable (fst f) (snd f) maxb \<and> length (snd f) + HeaderSize \<le> udpMaxDatagramSize"

definition udp_frame :: "int \<Rightarrow> bytes \<Rightarrow> (err + header \<times> bytes) option" where
  "udp_frame maxb d = DecodeMessage (take udpMaxDatagramSize d) maxb"

interpretation udp: message_transport "udp_WriteFrame maxb" "udp_frame maxb" "udp_carries maxb" for maxb
proof
  show "\<exists>d. udp_WriteFrame maxb (h, body) = Some (Inr d) \<and> udp_frame maxb d = Some (Inr (on_wire h body, body))"
    if "udp_carries maxb (h, body)" for h body
    using Encode_sendable[of h body maxb] that by (auto simp: udp_carries_def udp_WriteFrame_def udp_frame_def)
qed (simp add: udp_frame_def DecodeMessage_total)

lemma udp_ReadFrame_eq: "udp_ReadFrame maxb ds = read_skipping (udp_frame maxb) (\<lambda>_. True) ds"
proof (induction ds)
  case (Cons d ds)
  then show ?case by (cases d) (auto simp: udp_frame_def split: option.split sum.split)
qed simp

text \<open>UDP with a flow id: only a mismatch is skipped.\<close>

lemma udp_strip_eq:
  "udp_strip i d = (if i = 0 then Some (Inr d)
     else map_option (map_sum (\<lambda>_. wrap_sentinel ErrFlowIDMismatch) id) (StripFlowID d i))"
proof -
  have "\<exists>v. uint64_be (take FlowIDLen d) = Some v" if "FlowIDLen \<le> length d"
    using uint_be_total(3)[of "take FlowIDLen d"] that by (simp add: FlowIDLen_def)
  then show ?thesis
    by (auto simp: udp_strip_def StripFlowID_def DecodeFlowID_def copy_at_def)
qed

definition direct_frame :: "u64 \<Rightarrow> int \<Rightarrow> bytes \<Rightarrow> (err + header \<times> bytes) option" where
  "direct_frame i maxb d =
     do {
       r \<leftarrow> udp_strip i (take direct_readBuf d);
       (case r of Inl x \<Rightarrow> Some (Inl x) | Inr p \<Rightarrow> DecodeMessage p maxb)
     }"

definition direct_carries :: "int \<Rightarrow> header \<times> bytes \<Rightarrow> bool" where
  "direct_carries maxb f \<longleftrightarrow> sendable (fst f) (snd f) maxb \<and> HeaderSize + length (snd f) + FlowIDLen \<le> direct_readBuf"

lemma StripFlowID_total: "\<exists>r. StripFlowID d i = Some r"
  using uint_be_total(3)[of "take FlowIDLen d"]
  by (auto simp: StripFlowID_def DecodeFlowID_def FlowIDLen_def)

interpretation dudp: message_transport "direct_udp_WriteFrame i maxb" "direct_frame i maxb" "direct_carries maxb"
  for i maxb
proof
  show "\<exists>d. direct_udp_WriteFrame i maxb (h, body) = Some (Inr d) \<and> direct_frame i maxb d = Some (Inr (on_wire h body, body))"
    if c: "direct_carries maxb (h, body)" for h body
  proof -
    obtain d where d: "Encode h body maxb = Some (Inr d)" "length d = HeaderSize + length body"
      "DecodeMessage d maxb = Some (Inr (on_wire h body, body))"
      using Encode_sendable[of h body maxb] c by (auto simp: direct_carries_def)
    have "take direct_readBuf (udp_wrap i d) = udp_wrap i d"
      using c d(2) by (simp add: direct_carries_def udp_wrap_def WrapFlowID_def EncodeFlowID_def FlowIDLen_def)
    then show ?thesis
      using c d(1,3) d(2)
      by (auto simp: direct_udp_WriteFrame_def direct_frame_def direct_carries_def udp_strip_eq)
        (auto simp: udp_wrap_def strip_wrap)
  qed
  show "\<exists>r. direct_frame i maxb d = Some r" for d
    using StripFlowID_total[of "take direct_readBuf d" i] DecodeMessage_total
    by (auto simp: direct_frame_def udp_strip_eq split: sum.split)
qed

lemma udp_strip_cases:
  obtains "udp_strip i d = Some (Inl (wrap_sentinel ErrFlowIDMismatch))" | p where "udp_strip i d = Some (Inr p)"
proof -
  obtain r where "StripFlowID d i = Some r" using StripFlowID_total by blast
  then show ?thesis using that by (cases "i = 0"; cases r) (simp_all add: udp_strip_eq)
qed

lemma direct_udp_ReadFrame_eq:
  "direct_udp_ReadFrame i maxb ds = read_skipping (direct_frame i maxb) (\<lambda>x. x = wrap_sentinel ErrFlowIDMismatch) ds"
proof (induction ds)
  case (Cons d ds)
  show ?case
  proof (cases d)
    case (Inr m)
    have "x \<noteq> wrap_sentinel ErrFlowIDMismatch" if "DecodeMessage p maxb = Some (Inl x)" for p x
      using that by (cases rule: DecodeMessage_spec[of p maxb]) auto
    then show ?thesis
      using Inr Cons by (cases rule: udp_strip_cases[of i "take direct_readBuf m"])
        (auto simp: direct_frame_def split: option.split sum.split)
  qed simp
qed simp

section \<open>Properties\<close>

text \<open>
  The client's UDP channel: a frame that fits a datagram is sent as one datagram, and is read
  back whatever undecodable datagrams arrive before it; what is behind it stays for the next
  read, and no datagram makes the reader panic. A frame that does not fit is refused before
  anything is sent.
\<close>

theorem udp_delivers:
  assumes "sendable h body maxb" and "length body + HeaderSize \<le> udpMaxDatagramSize"
    and "list_all (\<lambda>j. \<exists>x. DecodeMessage (take udpMaxDatagramSize j) maxb = Some (Inl x)) junk"
  shows "(\<exists>d. udp_WriteFrame maxb (h, body) = Some (Inr d) \<and> length d = HeaderSize + length body
      \<and> udp_ReadFrame maxb (map Inr junk @ Inr d # ds) = Returned (Inr (on_wire h body, body)) ds)
    \<and> udp_ReadFrame maxb other \<noteq> ReadPanicked
    \<and> udp_WriteFrame maxb (h, body @ replicate udpMaxDatagramSize 0) = Some (Inl (Msg ''udp: datagram too large''))"
proof -
  have "list_all (udp.junk maxb (\<lambda>_. True)) junk"
    using assms(3) by (simp add: udp.junk_def udp_frame_def list_all_iff)
  moreover have "udp_carries maxb (h, body)" using assms(1,2) by (simp add: udp_carries_def)
  ultimately obtain d where d: "udp_WriteFrame maxb (h, body) = Some (Inr d)"
    "udp_ReadFrame maxb (map Inr junk @ Inr d # ds) = Returned (Inr (on_wire h body, body)) ds"
    using udp.delivers[of maxb h body "\<lambda>_. True" junk ds] unfolding udp_ReadFrame_eq by blast
  have "length d = HeaderSize + length body"
    using Encode_sendable[OF assms(1)] d(1) assms(2) by (auto simp: udp_WriteFrame_def)
  moreover have "udp_ReadFrame maxb other \<noteq> ReadPanicked"
    unfolding udp_ReadFrame_eq by (rule udp.never_panics)
  moreover have "udp_WriteFrame maxb (h, body @ replicate udpMaxDatagramSize 0) = Some (Inl (Msg ''udp: datagram too large''))"
    by (simp add: udp_WriteFrame_def HeaderSize_def)
  ultimately show ?thesis using d by blast
qed

definition ping :: header where
  "ping = \<lparr>hMagic = 0, hVersion = 0, hType = 1, hFlags = 1, hSeq = 7, hLength = 0\<rparr>"

lemma sendable_ping: "sendable ping [1, 2] 0"
  by (simp add: ping_def sendable_def on_wire_def with_defaults_def toGen_def fromGen_def CheckHeader_def
      frame_consts NormalizeMaxBodySize_def IsPayloadVersion_def Let_def)

theorem udp_delivers_witness:
  "\<exists>d. udp_WriteFrame 0 (ping, [1, 2]) = Some (Inr d)
     \<and> udp_ReadFrame 0 [Inr [9, 9], Inr d] = Returned (Inr (on_wire ping [1, 2], [1, 2])) []"
proof -
  have "\<exists>x. DecodeMessage (take udpMaxDatagramSize [9, 9]) 0 = Some (Inl x)"
    by (simp add: udpMaxDatagramSize_def DecodeMessage_def GenDecodeMessage_def frame_consts)
  then show ?thesis
    using udp_delivers[of ping "[1, 2]" 0 "[[9, 9]]" "[]" "[]"] sendable_ping
    by (force simp: udpMaxDatagramSize_def HeaderSize_def)
qed

text \<open>
  The direct UDP channel: over a flow, a frame that fits is read back whatever datagrams of
  other flows (or too short for a flow id) arrive before it, and no datagram makes the reader
  panic. Unlike the client's UDP channel it does not skip a datagram of its own flow that does
  not decode: that read fails with the decoder's protocol error.
\<close>

theorem direct_udp_delivers:
  assumes "sendable h body maxb" and "HeaderSize + length body + FlowIDLen \<le> direct_readBuf"
    and "i \<noteq> 0" and "list_all (\<lambda>j. \<forall>p. j \<noteq> WrapFlowID i p) foreign"
    and "DecodeMessage (take (direct_readBuf - FlowIDLen) bad) maxb = Some (Inl x)"
  shows "(\<exists>d. direct_udp_WriteFrame i maxb (h, body) = Some (Inr d)
      \<and> direct_udp_ReadFrame i maxb (map Inr foreign @ Inr d # ds) = Returned (Inr (on_wire h body, body)) ds)
    \<and> direct_udp_ReadFrame i maxb other \<noteq> ReadPanicked
    \<and> direct_udp_ReadFrame i maxb (map Inr foreign @ Inr (WrapFlowID i bad) # ds) = Returned (Inl x) ds
    \<and> errors_is x FrameErrProtocol"
proof -
  let ?skip = "\<lambda>x. x = wrap_sentinel ErrFlowIDMismatch"
  have "take direct_readBuf j \<noteq> WrapFlowID i p" if "\<forall>p. j \<noteq> WrapFlowID i p" for j p
  proof
    assume "take direct_readBuf j = WrapFlowID i p"
    then have "j = WrapFlowID i (p @ drop direct_readBuf j)"
      using append_take_drop_id[of direct_readBuf j] by (simp add: WrapFlowID_def)
    then show False using that by blast
  qed
  then have "dudp.junk i maxb ?skip j" if "\<forall>p. j \<noteq> WrapFlowID i p" for j
    using strip_other[of "take direct_readBuf j" i] that assms(3)
    by (auto simp: dudp.junk_def direct_frame_def udp_strip_eq)
  then have foreign: "list_all (dudp.junk i maxb ?skip) foreign" using assms(4) by (simp add: list_all_iff)
  have "take direct_readBuf (WrapFlowID i bad) = WrapFlowID i (take (direct_readBuf - FlowIDLen) bad)"
    by (simp add: WrapFlowID_def EncodeFlowID_def FlowIDLen_def direct_readBuf_def)
  then have bad: "direct_frame i maxb (WrapFlowID i bad) = Some (Inl x)"
    using assms(3,5) by (simp add: direct_frame_def udp_strip_eq strip_wrap)
  have "errors_is x FrameErrProtocol \<and> x \<noteq> wrap_sentinel ErrFlowIDMismatch"
    using assms(5) by (cases rule: DecodeMessage_spec[of "take (direct_readBuf - FlowIDLen) bad" maxb]) auto
  then show ?thesis
    using dudp.delivers[OF _ foreign, of h body ds] dudp.never_panics dudp.skips_junk[OF foreign] bad assms(1,2)
    by (simp add: direct_udp_ReadFrame_eq direct_carries_def)
qed

theorem direct_udp_delivers_witness:
  "\<exists>d. direct_udp_WriteFrame 3 0 (ping, [1, 2]) = Some (Inr d)
     \<and> direct_udp_ReadFrame 3 0 [Inr [0], Inr (WrapFlowID 4 [9]), Inr d] = Returned (Inr (on_wire ping [1, 2], [1, 2])) []"
proof -
  have "drop 7 (EncodeFlowID 4) = [4]" "drop 7 (EncodeFlowID 3) = [3]"
    by (simp_all add: EncodeFlowID_def put_uint64_def)
  then have neq: "WrapFlowID 4 [9] \<noteq> WrapFlowID 3 p" for p
    by (auto simp: WrapFlowID_def EncodeFlowID_def put_uint64_def)
  have short: "[0] \<noteq> WrapFlowID 3 p" for p by (simp add: WrapFlowID_def EncodeFlowID_def put_uint64_def)
  have "take n ([] :: bytes) = []" for n by simp
  moreover obtain x where "DecodeMessage [] 0 = Some (Inl x)"
    by (simp add: DecodeMessage_def GenDecodeMessage_def frame_consts)
  ultimately show ?thesis
    using direct_udp_delivers[of ping "[1, 2]" 0 3 "[[0], WrapFlowID 4 [9]]" "[]" x "[]" "[]"] sendable_ping neq short
    by (simp add: direct_readBuf_def frame_consts FlowIDLen_def del: direct_udp_ReadFrame.simps)
qed

text \<open>
  The WebSocket read limit is invisible but for the error text: given a library that hands up
  messages within the limit and reports \<open>ErrReadLimit\<close> for longer ones, the client reads every
  message as the decoder alone would; a message over the limit is a protocol error either way,
  so an oversized message ends the channel instead of reconnecting it.
\<close>

theorem ws_limit_agrees:
  assumes "\<And>msg. deliver msg = (if int (length msg) \<le> ws_read_limit maxb then Inr msg else Inl (Sentinel WsErrReadLimit))"
  shows "\<exists>r r'. ws_ReadFrame maxb (deliver msg) = Some r \<and> DecodeMessage msg maxb = Some r'
    \<and> (case (r, r') of
         (Inr f, Inr f') \<Rightarrow> f = f'
       | (Inl x, Inl x') \<Rightarrow> errors_is x FrameErrProtocol \<and> errors_is x' FrameErrProtocol
       | _ \<Rightarrow> False)"
proof (cases rule: DecodeMessage_spec[of msg maxb])
  case (1 e)
  then show ?thesis by (simp add: ws_ReadFrame_def assms)
next
  case (2 h)
  then have "int (length msg) \<le> ws_read_limit maxb"
    using CheckHeader_bound[of h maxb] by (auto simp: ws_read_limit_def HeaderSize_def NormalizeMaxBodySize_def split: if_splits)
  then show ?thesis using 2 by (simp add: ws_ReadFrame_def assms)
qed

theorem ws_limit_agrees_witness:
  "ws_ReadFrame 1 (if int (length (replicate 18 0)) \<le> ws_read_limit 1 then Inr (replicate 18 0) else Inl (Sentinel WsErrReadLimit))
     = Some (Inl (Wrap ''websocket'' [Sentinel WsErrReadLimit, Sentinel FrameErrProtocol]))
   \<and> (\<exists>x. DecodeMessage (replicate 18 0) 1 = Some (Inl x) \<and> errors_is x FrameErrProtocol)"
  using ws_limit_agrees[of "\<lambda>msg. if int (length msg) \<le> ws_read_limit 1 then Inr msg else Inl (Sentinel WsErrReadLimit)" 1 "replicate 18 0"]
  by (cases "DecodeMessage (replicate 18 0) 1") (auto simp: ws_read_limit_def ws_ReadFrame_def HeaderSize_def split: sum.splits)

text \<open>
  The hello exchange has three outcomes: the flow id of an eight-byte reply (a longer one is
  cut to its first eight bytes), a retryable network error when the socket fails, and
  \<open>ErrRejected\<close> otherwise. The last includes the one-byte \<open>HelloRejectUnavailable\<close>, by
  which the access layer asks for an immediate retry.
\<close>

theorem hello_exchange:
  "edgeHello None (Inr (EncodeFlowID i @ rest)) = Some (Inr i)
   \<and> (\<exists>r. edgeHello wr reply = Some r
        \<and> (case r of
             Inr j \<Rightarrow> wr = None \<and> (\<exists>rest. reply = Inr (EncodeFlowID j @ rest))
           | Inl x \<Rightarrow> is_network_error x \<or> x = wrap_sentinel ErrRejected))
   \<and> (if IsHelloRejectUnavailable d then edgeHello None (Inr d) = Some (Inl (wrap_sentinel ErrRejected)) else True)"
proof -
  have len: "length (EncodeFlowID i) = FlowIDLen" for i by (simp add: EncodeFlowID_def FlowIDLen_def)
  have reply: "\<exists>j. edgeHello None (Inr d) = Some (Inr j) \<and> d = EncodeFlowID j @ drop FlowIDLen d"
    if "FlowIDLen \<le> length d" for d
  proof -
    obtain j where j: "uint64_be (take FlowIDLen d) = Some j"
      using uint_be_total(3)[of "take FlowIDLen d"] \<open>FlowIDLen \<le> length d\<close> by (auto simp: FlowIDLen_def)
    then have "EncodeFlowID j = take FlowIDLen d"
      using put_uint64_be[OF _ j] \<open>FlowIDLen \<le> length d\<close> by (simp add: EncodeFlowID_def FlowIDLen_def)
    then show ?thesis using j \<open>FlowIDLen \<le> length d\<close> by (simp add: edgeHello_def Let_def)
  qed
  have "\<exists>r. edgeHello wr reply = Some r \<and> (case r of
             Inr j \<Rightarrow> wr = None \<and> (\<exists>rest. reply = Inr (EncodeFlowID j @ rest))
           | Inl x \<Rightarrow> is_network_error x \<or> x = wrap_sentinel ErrRejected)"
  proof (cases "wr = None \<and> (\<exists>d. reply = Inr d \<and> FlowIDLen \<le> length d)")
    case True
    then obtain d where d: "reply = Inr d" "FlowIDLen \<le> length d" "wr = None" by blast
    obtain j where "edgeHello None (Inr d) = Some (Inr j)" "d = EncodeFlowID j @ drop FlowIDLen d"
      using reply[OF d(2)] by blast
    then show ?thesis using d by auto
  next
    case False
    then show ?thesis by (cases wr; cases reply) (auto simp: edgeHello_def Let_def)
  qed
  moreover have "edgeHello None (Inr d) = Some (Inl (wrap_sentinel ErrRejected))" if "IsHelloRejectUnavailable d"
    using that by (simp add: edgeHello_def IsHelloRejectUnavailable_def FlowIDLen_def)
  ultimately show ?thesis by (simp add: edgeHello_def Let_def len) (simp add: EncodeFlowID_def)
qed

end
