(* ===== verification/Notify.thy ===== *)
theory Notify
  imports Body "HOL-Library.AList"
begin

text \<open>
  Subscriptions to pushes (\<open>client/notify.go\<close>). A Go map is a reference, and an \<open>off\<close>
  function captures the map it was made with, so the subscription sets live in an explicit
  store of addresses: the table from operations to sets, and the set of the wildcard, hold
  addresses. Each operation is one or two critical sections, kept apart, and the last section
  interleaves them.
\<close>

section \<open>State\<close>

text \<open>
  A handler is a function value: its code pointer, which is all that \<open>handlerKey\<close> sees of it,
  and its identity as a closure.
\<close>

record handler =
  h_code :: nat
  h_closure :: nat

record PushEnvelope =
  pe_op :: bytes
  pe_version :: byte
  pe_body :: bytes

type_synonym notifyKey = "bytes \<times> string"
type_synonym notify_set = "(notifyKey \<times> handler) list"

record notify_table =
  nt_sets :: "nat \<Rightarrow> notify_set"
  nt_ops :: "(bytes \<times> nat) list"
  nt_next :: nat

text \<open>The address of the wildcard set.\<close>

definition notifyAny :: nat where "notifyAny = 0"

definition empty_table :: notify_table where
  "empty_table = \<lparr>nt_sets = (\<lambda>_. []), nt_ops = [], nt_next = 1\<rparr>"

section \<open>Keys\<close>

fun FormatHex :: "nat \<Rightarrow> string" where
  "FormatHex n = (if n < 16 then [''0123456789abcdef'' ! n]
     else FormatHex (n div 16) @ [''0123456789abcdef'' ! (n mod 16)])"

declare FormatHex.simps [simp del]

definition handlerKey :: "handler option \<Rightarrow> string" where
  "handlerKey h = (case h of None \<Rightarrow> [] | Some h \<Rightarrow> ''fn:'' @ FormatHex (h_code h))"

section \<open>The critical sections\<close>

definition notifySet :: "bytes \<Rightarrow> notify_table \<Rightarrow> nat \<times> notify_table" where
  "notifySet op nt =
     (case map_of (nt_ops nt) op of
        Some a \<Rightarrow> (a, nt)
      | None \<Rightarrow>
          (nt_next nt, nt\<lparr>nt_sets := (nt_sets nt)(nt_next nt := []),
             nt_ops := AList.update op (nt_next nt) (nt_ops nt), nt_next := Suc (nt_next nt)\<rparr>))"

definition subscribe :: "nat \<Rightarrow> notifyKey \<Rightarrow> handler \<Rightarrow> notify_table \<Rightarrow> notify_table" where
  "subscribe a key h nt = nt\<lparr>nt_sets := (nt_sets nt)(a := AList.update key h (nt_sets nt a))\<rparr>"

definition unsubscribe :: "nat \<Rightarrow> notifyKey \<Rightarrow> notify_table \<Rightarrow> notify_table" where
  "unsubscribe a key nt = nt\<lparr>nt_sets := (nt_sets nt)(a := AList.delete key (nt_sets nt a))\<rparr>"

definition dropNotifySet :: "bytes \<Rightarrow> notify_table \<Rightarrow> notify_table" where
  "dropNotifySet op nt =
     (case map_of (nt_ops nt) op of
        Some a \<Rightarrow> if nt_sets nt a = [] then nt\<lparr>nt_ops := AList.delete op (nt_ops nt)\<rparr> else nt
      | None \<Rightarrow> nt)"

section \<open>Subscribing and unsubscribing\<close>

text \<open>
  An \<open>off\<close> function as data: nothing, the entry it deletes from the set it captured, and the
  operation whose empty set it drops afterwards.
\<close>

datatype off = OffNothing | OffEntry nat notifyKey | OffEntryDrop nat notifyKey bytes

fun run_off :: "off \<Rightarrow> notify_table \<Rightarrow> notify_table" where
  "run_off OffNothing nt = nt"
| "run_off (OffEntry a key) nt = unsubscribe a key nt"
| "run_off (OffEntryDrop a key op) nt = dropNotifySet op (unsubscribe a key nt)"

definition onKeyed :: "bytes \<Rightarrow> string \<Rightarrow> handler option \<Rightarrow> notify_table \<Rightarrow> off \<times> notify_table" where
  "onKeyed op i h nt =
     (case h of
        None \<Rightarrow> (OffNothing, nt)
      | Some h \<Rightarrow> (case notifySet op nt of (a, nt) \<Rightarrow> (OffEntry a (op, i), subscribe a (op, i) h nt)))"

definition on :: "bytes \<Rightarrow> handler option \<Rightarrow> notify_table \<Rightarrow> off \<times> notify_table" where
  "on op h nt =
     (case h of
        None \<Rightarrow> (OffNothing, nt)
      | Some _ \<Rightarrow>
          (case onKeyed op (handlerKey h) h nt of
             (OffEntry a key, nt) \<Rightarrow> (OffEntryDrop a key op, nt)
           | (off, nt) \<Rightarrow> (off, nt)))"

definition onAnyKeyed :: "string \<Rightarrow> handler option \<Rightarrow> notify_table \<Rightarrow> off \<times> notify_table" where
  "onAnyKeyed key h nt =
     (case h of
        None \<Rightarrow> (OffNothing, nt)
      | Some h \<Rightarrow> (OffEntry notifyAny ([], key), subscribe notifyAny ([], key) h nt))"

definition onAny :: "handler option \<Rightarrow> notify_table \<Rightarrow> off \<times> notify_table" where
  "onAny h nt = (case h of None \<Rightarrow> (OffNothing, nt) | Some _ \<Rightarrow> onAnyKeyed (handlerKey h) h nt)"

text \<open>
  The dispatch of a frame: the calls it starts, one goroutine each. Go's order of a map is
  unspecified, so only the multiset of the list means anything.
\<close>

definition dispatchNotify :: "byte \<Rightarrow> bytes \<Rightarrow> notify_table \<Rightarrow> (handler \<times> PushEnvelope) list option" where
  "dispatchNotify ver body nt =
     do {
       r \<leftarrow> ParseRequestBody body;
       (case r of
          Inl _ \<Rightarrow> Some []
        | Inr (op, payload) \<Rightarrow>
            let env = \<lparr>pe_op = op, pe_version = ver, pe_body = payload\<rparr>;
                by_op = (case map_of (nt_ops nt) op of None \<Rightarrow> [] | Some a \<Rightarrow> map snd (nt_sets nt a));
                handlers = by_op @ map snd (nt_sets nt notifyAny)
            in Some (map (\<lambda>h. (h, env)) handlers))
     }"

section \<open>The table as a map\<close>

text \<open>What callers rely on: per operation, and for the wildcard, a map from keys to handlers.\<close>

definition subs :: "notify_table \<Rightarrow> bytes \<Rightarrow> string \<Rightarrow> handler option" where
  "subs nt op i = (case map_of (nt_ops nt) op of None \<Rightarrow> None | Some a \<Rightarrow> map_of (nt_sets nt a) (op, i))"

definition any_subs :: "notify_table \<Rightarrow> string \<Rightarrow> handler option" where
  "any_subs nt i = map_of (nt_sets nt notifyAny) ([], i)"

text \<open>
  Distinct operations have distinct sets, none is the wildcard's, and a set holds the keys of
  its own operation only.
\<close>

definition only_keys :: "bytes \<Rightarrow> notify_set \<Rightarrow> bool" where
  "only_keys op t \<longleftrightarrow> fst ` fst ` set t \<subseteq> {op}"

definition nt_wf :: "notify_table \<Rightarrow> bool" where
  "nt_wf nt \<longleftrightarrow> distinct (map fst (nt_ops nt))
     \<and> (\<forall>op op' a. map_of (nt_ops nt) op = Some a \<longrightarrow> map_of (nt_ops nt) op' = Some a \<longrightarrow> op = op')
     \<and> (\<forall>op a. map_of (nt_ops nt) op = Some a \<longrightarrow> a \<noteq> notifyAny \<and> a < nt_next nt)
     \<and> notifyAny < nt_next nt
     \<and> (\<forall>a. distinct (map fst (nt_sets nt a)))
     \<and> (\<forall>op a. map_of (nt_ops nt) op = Some a \<longrightarrow> only_keys op (nt_sets nt a))
     \<and> only_keys [] (nt_sets nt notifyAny)"

text \<open>An \<open>off\<close> captured set \<open>a\<close> for \<open>op\<close>; no other operation ever gets that address.\<close>

definition captured :: "nat \<Rightarrow> bytes \<Rightarrow> notify_table \<Rightarrow> bool" where
  "captured a op nt \<longleftrightarrow> a \<noteq> notifyAny \<and> a < nt_next nt \<and> (\<forall>op'. map_of (nt_ops nt) op' = Some a \<longrightarrow> op' = op)"

lemma nt_wf_empty: "nt_wf empty_table"
  by (simp add: nt_wf_def empty_table_def notifyAny_def only_keys_def)

lemma distinct_update_keys: "distinct (map fst t) \<Longrightarrow> distinct (map fst (AList.update k v t))"
  by (simp add: distinct_update)

lemma only_keys_Nil [simp]: "only_keys op []"
  by (simp add: only_keys_def)

lemma only_keys_update: "only_keys op t \<Longrightarrow> only_keys op (AList.update (op, i) (v :: handler) t)"
proof -
  have "fst ` set (AList.update k v t) = insert k (fst ` set t)" for k and v :: handler
    by (induction t) auto
  then show "only_keys op t \<Longrightarrow> only_keys op (AList.update (op, i) v t)" by (simp add: only_keys_def)
qed

lemma only_keys_delete: "only_keys op t \<Longrightarrow> only_keys op (AList.delete k t)"
  unfolding only_keys_def by (induction t) auto

section \<open>Each critical section\<close>

lemma notifySet_new:
  assumes "nt_wf nt" and "map_of (nt_ops nt) op = None"
  shows "map_of (nt_ops nt) op' \<noteq> Some (nt_next nt)" and "notifyAny \<noteq> nt_next nt"
    and "map_of (nt_ops nt) op' = Some b \<Longrightarrow> b < nt_next nt \<and> b \<noteq> notifyAny"
  using assms unfolding nt_wf_def by (metis less_irrefl)+

lemma notifySet_spec:
  assumes "nt_wf nt" and "notifySet op nt = (a, nt')"
  shows "nt_wf nt' \<and> map_of (nt_ops nt') op = Some a \<and> subs nt' = subs nt \<and> any_subs nt' = any_subs nt
    \<and> captured a op nt'"
proof (cases "map_of (nt_ops nt) op")
  case (Some b)
  then have "nt' = nt" "a = b" using assms(2) by (simp_all add: notifySet_def)
  moreover have "captured b op nt"
    using assms(1) Some unfolding nt_wf_def captured_def by blast
  ultimately show ?thesis using assms(1) Some by simp
next
  case None
  note new = notifySet_new[OF assms(1) None]
  let ?n = "nt_next nt"
  have nt': "nt' = nt\<lparr>nt_sets := (nt_sets nt)(?n := []), nt_ops := AList.update op ?n (nt_ops nt), nt_next := Suc ?n\<rparr>"
    "a = ?n"
    using assms(2) None by (auto simp: notifySet_def)
  have ops: "map_of (nt_ops nt') = (map_of (nt_ops nt))(op \<mapsto> ?n)" using nt' by (simp add: update_conv')
  have "nt_wf nt'"
    unfolding nt_wf_def ops
  proof (intro conjI allI impI)
    show "distinct (map fst (nt_ops nt'))" using assms(1) by (simp add: nt' nt_wf_def distinct_update)
    show "notifyAny < nt_next nt'" using assms(1) by (simp add: nt' nt_wf_def)
    show "distinct (map fst (nt_sets nt' b))" for b using assms(1) by (simp add: nt' nt_wf_def)
    show "only_keys [] (nt_sets nt' notifyAny)" using assms(1) new(2) by (simp add: nt' nt_wf_def)
    show "op1 = op2" if "((map_of (nt_ops nt))(op \<mapsto> ?n)) op1 = Some b" "((map_of (nt_ops nt))(op \<mapsto> ?n)) op2 = Some b" for op1 op2 b
      using assms(1) that new(1) unfolding nt_wf_def by (metis fun_upd_apply option.inject)
    fix op1 b assume "((map_of (nt_ops nt))(op \<mapsto> ?n)) op1 = Some b"
    then consider "op1 = op" "b = ?n" | "map_of (nt_ops nt) op1 = Some b" "b \<noteq> ?n"
      using new(1)[of op1] by (cases "op1 = op") auto
    then show "b \<noteq> notifyAny" "b < nt_next nt'" "only_keys op1 (nt_sets nt' b)"
      using new(2) new(3)[of op1 b] assms(1) by (cases; force simp: nt' nt_wf_def)+
  qed
  moreover have "subs nt' = subs nt"
    using new(1) None unfolding subs_def ops by (intro ext) (auto simp: nt' split: option.split)
  moreover have "any_subs nt' = any_subs nt" using new(2) by (simp add: any_subs_def nt' fun_eq_iff)
  moreover have "captured a op nt'"
    using new(1,2) unfolding captured_def ops by (simp add: nt')
  ultimately show ?thesis using ops nt'(2) by simp
qed

text \<open>Replacing the set at a captured address.\<close>

lemma nt_wf_set:
  assumes "nt_wf nt" and "captured a op nt" and "distinct (map fst t)" and "only_keys op (nt_sets nt a) \<Longrightarrow> only_keys op t"
  shows "nt_wf (nt\<lparr>nt_sets := (nt_sets nt)(a := t)\<rparr>)"
proof -
  have keys: "only_keys op' (((nt_sets nt)(a := t)) b)" if "map_of (nt_ops nt) op' = Some b" for op' b
    using assms that by (cases "b = a") (auto simp: nt_wf_def captured_def simp del: map_of_eq_Some_iff)
  have "distinct (map fst (((nt_sets nt)(a := t)) b))" for b
    using assms(1,3) by (simp add: nt_wf_def)
  moreover have "((nt_sets nt)(a := t)) notifyAny = nt_sets nt notifyAny"
    using assms(2) by (simp add: captured_def)
  ultimately show ?thesis
    using assms(1) keys unfolding nt_wf_def by simp
qed

lemma subs_set:
  assumes "nt_wf nt" and "captured a op nt" and "\<And>j. map_of t (op, j) = (m :: string \<Rightarrow> handler option) j"
  shows "subs (nt\<lparr>nt_sets := (nt_sets nt)(a := t)\<rparr>)
    = (if map_of (nt_ops nt) op = Some a then (subs nt)(op := m) else subs nt)"
proof (intro ext)
  fix op' j
  show "subs (nt\<lparr>nt_sets := (nt_sets nt)(a := t)\<rparr>) op' j
    = (if map_of (nt_ops nt) op = Some a then (subs nt)(op := m) else subs nt) op' j"
  proof (cases "map_of (nt_ops nt) op' = Some a")
    case True
    then have "op' = op" using assms(2) by (auto simp: captured_def)
    then show ?thesis using True assms(3) by (simp add: subs_def)
  qed (use assms(1) in \<open>auto simp: subs_def split: option.split\<close>)
qed

lemma captured_set [simp]: "captured a op (nt\<lparr>nt_sets := f\<rparr>) = captured a op nt"
  by (simp add: captured_def)

lemma any_subs_set: "captured a op nt \<Longrightarrow> any_subs (nt\<lparr>nt_sets := (nt_sets nt)(a := t)\<rparr>) = any_subs nt"
  by (simp add: any_subs_def captured_def fun_eq_iff)

lemma subs_here: "map_of (nt_ops nt) op = Some a \<Longrightarrow> subs nt op i = map_of (nt_sets nt a) (op, i)"
  by (simp add: subs_def)

lemma subscribe_spec:
  assumes "nt_wf nt" and "captured a op nt"
  shows "nt_wf (subscribe a (op, i) h nt) \<and> captured a op (subscribe a (op, i) h nt)
    \<and> any_subs (subscribe a (op, i) h nt) = any_subs nt
    \<and> subs (subscribe a (op, i) h nt) =
        (if map_of (nt_ops nt) op = Some a then (subs nt)(op := (subs nt op)(i \<mapsto> h)) else subs nt)"
proof -
  let ?t = "AList.update (op, i) h (nt_sets nt a)"
  have "nt_wf (nt\<lparr>nt_sets := (nt_sets nt)(a := ?t)\<rparr>)"
    using assms(1) by (intro nt_wf_set[OF assms]) (simp_all add: nt_wf_def distinct_update only_keys_update)
  then show ?thesis
    using assms(2) any_subs_set[OF assms(2)]
      subs_set[OF assms, of ?t "(\<lambda>j. map_of (nt_sets nt a) (op, j))(i \<mapsto> h)"]
    by (auto simp: subscribe_def update_conv' subs_here fun_eq_iff)
qed

lemma unsubscribe_spec:
  assumes "nt_wf nt" and "captured a op nt"
  shows "nt_wf (unsubscribe a (op, i) nt) \<and> captured a op (unsubscribe a (op, i) nt)
    \<and> any_subs (unsubscribe a (op, i) nt) = any_subs nt
    \<and> subs (unsubscribe a (op, i) nt) =
        (if map_of (nt_ops nt) op = Some a then (subs nt)(op := (subs nt op)(i := None)) else subs nt)"
proof -
  let ?t = "AList.delete (op, i) (nt_sets nt a)"
  have "nt_wf (nt\<lparr>nt_sets := (nt_sets nt)(a := ?t)\<rparr>)"
    using assms(1) by (intro nt_wf_set[OF assms]) (simp_all add: nt_wf_def distinct_delete only_keys_delete)
  then show ?thesis
    using assms(2) any_subs_set[OF assms(2)]
      subs_set[OF assms, of ?t "(\<lambda>j. map_of (nt_sets nt a) (op, j))(i := None)"]
    by (auto simp: unsubscribe_def delete_conv' subs_here fun_eq_iff)
qed

lemma dropNotifySet_spec:
  assumes "nt_wf nt"
  shows "nt_wf (dropNotifySet op nt) \<and> subs (dropNotifySet op nt) = subs nt
    \<and> any_subs (dropNotifySet op nt) = any_subs nt
    \<and> (captured a op' nt \<longrightarrow> captured a op' (dropNotifySet op nt))"
proof (cases "\<exists>a. map_of (nt_ops nt) op = Some a \<and> nt_sets nt a = []")
  case True
  then have d: "dropNotifySet op nt = nt\<lparr>nt_ops := AList.delete op (nt_ops nt)\<rparr>"
    by (auto simp: dropNotifySet_def)
  have ops: "map_of (AList.delete op (nt_ops nt)) k = Some b \<Longrightarrow> map_of (nt_ops nt) k = Some b" for k b
    by (auto simp: delete_conv' split: if_splits)
  have "subs (dropNotifySet op nt) = subs nt"
    using True unfolding d by (auto simp: subs_def fun_eq_iff delete_conv' split: option.splits)
  moreover have "nt_wf (dropNotifySet op nt)"
    using assms unfolding d nt_wf_def by (auto simp: distinct_delete simp del: map_of_eq_Some_iff dest!: ops)
  moreover have "captured a op' nt \<longrightarrow> captured a op' (dropNotifySet op nt)"
    unfolding d captured_def by (auto simp del: map_of_eq_Some_iff dest!: ops)
  ultimately show ?thesis by (simp add: d any_subs_def fun_eq_iff)
next
  case False
  then have "dropNotifySet op nt = nt" by (auto simp: dropNotifySet_def split: option.splits)
  then show ?thesis using assms by simp
qed

section \<open>What subscribing and unsubscribing do\<close>

lemma digit_inject: "i < 16 \<Longrightarrow> j < 16 \<Longrightarrow> ''0123456789abcdef'' ! i = ''0123456789abcdef'' ! j \<Longrightarrow> i = j"
  using nth_eq_iff_index_eq[of "''0123456789abcdef''" i j] by simp

lemma FormatHex_not_Nil: "FormatHex n \<noteq> []"
  by (subst FormatHex.simps) simp

lemma FormatHex_inject: "FormatHex m = FormatHex n \<Longrightarrow> m = n"
proof (induction m arbitrary: n rule: FormatHex.induct)
  case (1 m)
  let ?d = "''0123456789abcdef''"
  have m: "FormatHex m = (if m < 16 then [?d ! m] else FormatHex (m div 16) @ [?d ! (m mod 16)])"
    and n: "FormatHex n = (if n < 16 then [?d ! n] else FormatHex (n div 16) @ [?d ! (n mod 16)])"
    by (rule FormatHex.simps)+
  have len: "m < 16 \<longleftrightarrow> n < 16"
    using 1(2) unfolding m n by (auto simp: FormatHex_not_Nil FormatHex_not_Nil[symmetric] split: if_splits)
  show ?case
  proof (cases "m < 16")
    case True
    then show ?thesis using 1(2) len digit_inject[of m n] unfolding m n by simp
  next
    case False
    then have "FormatHex (m div 16) = FormatHex (n div 16)" "?d ! (m mod 16) = ?d ! (n mod 16)"
      using 1(2) len unfolding m n by simp_all
    then have "m div 16 = n div 16" "m mod 16 = n mod 16"
      using 1(1)[OF False] digit_inject by simp_all
    then show ?thesis by (metis div_mult_mod_eq)
  qed
qed

lemma handlerKey_inject: "handlerKey (Some h) = handlerKey (Some h') \<longleftrightarrow> h_code h = h_code h'"
  using FormatHex_inject by (auto simp: handlerKey_def)

lemma on_spec:
  assumes "nt_wf nt" and "on op (Some h) nt = (off, nt')"
  shows "\<exists>a. off = OffEntryDrop a (op, handlerKey (Some h)) op \<and> captured a op nt' \<and> map_of (nt_ops nt') op = Some a
    \<and> nt_wf nt' \<and> any_subs nt' = any_subs nt
    \<and> subs nt' = (subs nt)(op := (subs nt op)(handlerKey (Some h) \<mapsto> h))"
proof -
  obtain a nt1 where n: "notifySet op nt = (a, nt1)" by (cases "notifySet op nt")
  note s = notifySet_spec[OF assms(1) n]
  have r: "off = OffEntryDrop a (op, handlerKey (Some h)) op" "nt' = subscribe a (op, handlerKey (Some h)) h nt1"
    using assms(2) n by (auto simp: on_def onKeyed_def)
  have "map_of (nt_ops nt') op = Some a" using s r by (simp add: subscribe_def)
  then show ?thesis using s subscribe_spec[of nt1 a op "handlerKey (Some h)" h] r by auto
qed

lemma any_subs_subscribe:
  assumes "nt_wf nt"
  shows "nt_wf (subscribe notifyAny ([], i) h nt) \<and> subs (subscribe notifyAny ([], i) h nt) = subs nt
    \<and> any_subs (subscribe notifyAny ([], i) h nt) = (any_subs nt)(i \<mapsto> h)"
proof -
  have "map_of (nt_ops nt) op \<noteq> Some notifyAny" for op using assms unfolding nt_wf_def by blast
  then show ?thesis
    using assms
    by (auto simp: nt_wf_def subscribe_def subs_def any_subs_def fun_eq_iff distinct_update update_conv'
        only_keys_update simp del: map_of_eq_Some_iff split: option.splits)
qed



section \<open>Dispatch\<close>

lemma count_values:
  "distinct (map fst t) \<Longrightarrow> count_list (map snd t) v = card {k. map_of t k = Some v}"
proof (induction t)
  case (Cons p t)
  obtain k w where p: "p = (k, w)" by (cases p)
  have fin: "finite {k. map_of t k = Some v}"
    by (rule finite_subset[of _ "fst ` set t"]) (force dest: map_of_SomeD)+
  have "map_of t k = None" using Cons.prems p by (simp add: map_of_eq_None_iff)
  then have "{k'. map_of ((k, w) # t) k' = Some v} = (if w = v then insert k {k. map_of t k = Some v} else {k. map_of t k = Some v})"
    by auto
  moreover have "k \<notin> {k. map_of t k = Some v}" using \<open>map_of t k = None\<close> by simp
  ultimately show ?case using Cons fin p by simp
qed simp

lemma count_subscribers:
  assumes "distinct (map fst t)" and "only_keys op t"
  shows "count_list (map snd t) h = card {i. map_of t (op, i) = Some h}"
proof -
  have "{k. map_of t k = Some h} = Pair op ` {i. map_of t (op, i) = Some h}"
    using assms(2) by (force simp: only_keys_def simp del: map_of_eq_Some_iff dest: map_of_SomeD)
  then show ?thesis
    unfolding count_values[OF assms(1)] by (simp add: card_image inj_on_def)
qed

lemma ParseRequestBody_build:
  assumes "body_ok op [] []"
  shows "\<exists>b. BuildRequestBody op payload = Some (Inr b) \<and> ParseRequestBody b = Some (Inr (op, payload))"
  using body_round[OF assms, of payload]
  by (auto simp: BuildRequestBody_def BuildRequestBodyFull_def ParseRequestBody_def ParseRequestBodyFull_def body_flags_def)

lemma ParseRequestBody_total: "\<exists>r. ParseRequestBody b = Some r"
proof (cases "ParseRequestBody b")
  case None
  then have "parseRequestBody b 0 = None" by (simp add: ParseRequestBody_def)
  then show ?thesis using parseRequestBody_total[of b 0] by simp
qed simp

lemma count_list_map_pair: "count_list (map (\<lambda>h. (h, e)) hs) (h, e) = count_list hs h"
  by (induction hs) auto

text \<open>
  Dispatch: a well-formed push starts each handler once for each key it is subscribed under,
  by its operation or by the wildcard, with the operation, the frame's version and the
  payload it was built from; nobody else is called. A malformed body calls nobody and never
  panics.
\<close>

theorem dispatch_exactly_subscribers:
  assumes "nt_wf nt" and "body_ok op [] []"
  shows "\<exists>b calls. BuildRequestBody op payload = Some (Inr b) \<and> dispatchNotify ver b nt = Some calls
      \<and> (let env = \<lparr>pe_op = op, pe_version = ver, pe_body = payload\<rparr> in
           snd ` set calls \<subseteq> {env}
         \<and> (\<forall>h. count_list calls (h, env) = card {i. subs nt op i = Some h} + card {i. any_subs nt i = Some h}))
      \<and> dispatchNotify ver other nt \<noteq> None
      \<and> (\<forall>x. ParseRequestBody other = Some (Inl x) \<longrightarrow> dispatchNotify ver other nt = Some [])"
proof -
  obtain b where b: "BuildRequestBody op payload = Some (Inr b)" "ParseRequestBody b = Some (Inr (op, payload))"
    using ParseRequestBody_build[OF assms(2)] by blast
  have "count_list (map snd (nt_sets nt notifyAny)) h = card {i. any_subs nt i = Some h}" for h
    using assms(1) count_subscribers[of "nt_sets nt notifyAny" "[]" h] by (simp add: any_subs_def nt_wf_def)
  moreover have "count_list (case map_of (nt_ops nt) op of None \<Rightarrow> [] | Some a \<Rightarrow> map snd (nt_sets nt a)) h
      = card {i. subs nt op i = Some h}" for h
    using assms(1) count_subscribers[of _ op h]
    by (auto simp: subs_def nt_wf_def simp del: map_of_eq_Some_iff split: option.split)
  moreover obtain r where "ParseRequestBody other = Some r" using ParseRequestBody_total by blast
  ultimately show ?thesis
    using b
    by (auto simp: dispatchNotify_def Let_def count_list_map_pair simp flip: map_append split: sum.splits)
qed

theorem dispatch_exactly_subscribers_witness:
  "\<exists>b calls. BuildRequestBody [47] [9] = Some (Inr b)
     \<and> dispatchNotify 1 b (snd (on [47] (Some \<lparr>h_code = 10, h_closure = 0\<rparr>) empty_table)) = Some calls
     \<and> count_list calls (\<lparr>h_code = 10, h_closure = 0\<rparr>, \<lparr>pe_op = [47], pe_version = 1, pe_body = [9]\<rparr>) = 1"
proof -
  let ?h = "\<lparr>h_code = 10, h_closure = 0\<rparr>"
  obtain off nt where o: "on [47] (Some ?h) empty_table = (off, nt)" by (cases "on [47] (Some ?h) empty_table")
  have "subs empty_table = (\<lambda>_ _. None)" "any_subs empty_table = (\<lambda>_. None)"
    by (simp_all add: any_subs_def subs_def empty_table_def fun_eq_iff)
  then have s: "nt_wf nt" "any_subs nt = (\<lambda>_. None)" "subs nt [47] = [handlerKey (Some ?h) \<mapsto> ?h]"
    using on_spec[OF nt_wf_empty o] by auto
  have "{i. subs nt [47] i = Some ?h} = {handlerKey (Some ?h)}" "{i. any_subs nt i = Some ?h} = {}"
    using s by (auto split: if_splits)
  then show ?thesis
    using dispatch_exactly_subscribers[OF s(1), of "[47]" "[9]" 1 "[]"] o
    by (auto simp: body_ok_def frame_consts Let_def)
qed

section \<open>A lost subscription\<close>

text \<open>
  \<open>onKeyed\<close> looks its set up in one critical section and fills it in another; an \<open>off\<close> of the
  last other subscriber between the two drops the set.
\<close>

text \<open>
  C38: Lost subscription: with one subscriber \<open>h\<close> on an operation, let a second \<open>on\<close> stop between its
  two critical sections while the first one's \<open>off\<close> runs. When both have returned the second
  handler is not subscribed: no push of the operation ever reaches it, though in either
  sequential order it is subscribed.
\<close>

theorem lost_subscription:
  "(case on op (Some h) empty_table of (off, nt) \<Rightarrow>
      (case notifySet op nt of (a, nt1) \<Rightarrow>
         let nt2 = subscribe a (op, handlerKey (Some h')) h' (run_off off nt1)
         in subs nt2 op (handlerKey (Some h')) = None
          \<and> dispatchNotify ver body nt2 = dispatchNotify ver body empty_table))
   \<and> (case on op (Some h) empty_table of (off, nt) \<Rightarrow>
        subs (snd (on op (Some h') (run_off off nt))) op (handlerKey (Some h')) = Some h')"
proof
  obtain off nt where o: "on op (Some h) empty_table = (off, nt)" by (cases "on op (Some h) empty_table")
  then have nt: "off = OffEntryDrop 1 (op, handlerKey (Some h)) op" "notifySet op nt = (1, nt)"
    "nt = \<lparr>nt_sets = (\<lambda>_. [])(1 := [((op, handlerKey (Some h)), h)]), nt_ops = [(op, 1)], nt_next = 2\<rparr>"
    by (auto simp: on_def onKeyed_def notifySet_def empty_table_def subscribe_def)
  have off: "run_off off nt = \<lparr>nt_sets = \<lambda>_. [], nt_ops = [], nt_next = 2\<rparr>"
    by (simp add: nt unsubscribe_def dropNotifySet_def fun_eq_iff)
  have "dispatchNotify ver body (subscribe 1 k h' (run_off off nt)) = dispatchNotify ver body empty_table" for k
    unfolding off
    by (cases "ParseRequestBody body")
      (auto simp: dispatchNotify_def subscribe_def empty_table_def notifyAny_def Let_def split: sum.splits)
  then show "case on op (Some h) empty_table of (off, nt) \<Rightarrow>
      (case notifySet op nt of (a, nt1) \<Rightarrow>
         let nt2 = subscribe a (op, handlerKey (Some h')) h' (run_off off nt1)
         in subs nt2 op (handlerKey (Some h')) = None
          \<and> dispatchNotify ver body nt2 = dispatchNotify ver body empty_table)"
    by (simp add: o nt(2) off) (simp add: subs_def subscribe_def)
  have wf: "nt_wf (run_off off nt)" unfolding off by (simp add: nt_wf_def notifyAny_def)
  obtain off' nt' where o': "on op (Some h') (run_off off nt) = (off', nt')" by (cases "on op (Some h') (run_off off nt)")
  show "case on op (Some h) empty_table of (off, nt) \<Rightarrow>
        subs (snd (on op (Some h') (run_off off nt))) op (handlerKey (Some h')) = Some h'"
    using on_spec[OF wf o'] by (auto simp: o o')
qed

end
