(* ===== verification/ClientSession.thy ===== *)
theory ClientSession
  imports Notify ClientOptions
begin

text \<open>
  The session manager of the client (\<open>client/session.go\<close>, \<open>client/session_message.go\<close>,
  \<open>client/session_protocol.go\<close>): it keeps the credentials of a session, fills in the
  session requests, and is bound to the pushes of one client at a time. The project's message
  types and its \<open>SessionProtocol\<close> are a parameter of type \<open>'m\<close>; the protobuf registry and
  the client's \<open>Invoke\<close> are the functions of a record. Every operation returns the requests
  it sent.
\<close>

section \<open>The protocol seam (client/session_protocol.go)\<close>

record SessionOps =
  op_register :: string
  op_login :: string
  op_resume :: string
  op_logout :: string
  op_heartbeat :: string

record 'm SessionProtocol =
  sp_Ops :: SessionOps
  sp_Token :: "'m \<Rightarrow> string"
  sp_PlayerID :: "'m \<Rightarrow> string"
  sp_Kicked :: "PushEnvelope \<Rightarrow> string option"

section \<open>Session messages (client/session_message.go, client/version.go)\<close>

definition ClientVersion :: string where "ClientVersion = ''0.7.0''"
definition sessionFieldToken :: string where "sessionFieldToken = ''token''"
definition sessionFieldPlayerID :: string where "sessionFieldPlayerID = ''player_id''"
definition sessionFieldClientVersion :: string where "sessionFieldClientVersion = ''client_version''"

lemmas field_consts = ClientVersion_def sessionFieldToken_def sessionFieldPlayerID_def sessionFieldClientVersion_def

text \<open>\<open>strings.Split\<close> on one character, and \<open>strings.ToUpper\<close> of an ASCII letter.\<close>

fun split_on :: "char \<Rightarrow> string \<Rightarrow> string list" where
  "split_on c [] = [[]]"
| "split_on c (x # xs) =
     (if x = c then [] # split_on c xs
      else (case split_on c xs of [] \<Rightarrow> [[x]] | p # ps \<Rightarrow> (x # p) # ps))"

definition upper :: "char \<Rightarrow> char" where
  "upper c = (let n = of_char c :: nat in if 97 \<le> n \<and> n \<le> 122 then char_of (n - 32) else c)"

definition capitalize :: "string \<Rightarrow> string" where
  "capitalize s = (case s of [] \<Rightarrow> [] | c # cs \<Rightarrow> upper c # cs)"

definition jsonNameOf :: "string \<Rightarrow> string" where
  "jsonNameOf name =
     (case split_on (CHR ''_'') name of [] \<Rightarrow> [] | p # ps \<Rightarrow> concat (p # map capitalize ps))"

text \<open>The position of the last slash, and the split of \<open>/<package>.<Service>/<Method>\<close>.\<close>

fun last_index :: "char \<Rightarrow> string \<Rightarrow> nat option" where
  "last_index c [] = None"
| "last_index c (x # xs) =
     (case last_index c xs of Some i \<Rightarrow> Some (Suc i) | None \<Rightarrow> if x = c then Some 0 else None)"

definition splitSessionOp :: "string \<Rightarrow> (string \<times> string) option" where
  "splitSessionOp op =
     (let trimmed = (if take 1 op = ''/'' then drop 1 op else op) in
      case last_index (CHR ''/'') trimmed of
        None \<Rightarrow> None
      | Some i \<Rightarrow>
          if i = 0 \<or> i = length trimmed - 1 then None
          else Some (take i trimmed, drop (Suc i) trimmed))"

text \<open>
  The registry and the client: \<open>registered service method output\<close>, an input message with the
  given fields set, the client version set on a message, and \<open>Invoke\<close> of a client, which fills
  the reply message of a registered operation.
\<close>

datatype 'm request = NilRequest | MsgRequest 'm | MapRequest "(string \<times> string) list"

record 'm session_env =
  se_registered :: "string \<Rightarrow> string \<Rightarrow> bool \<Rightarrow> bool"
  se_message :: "string \<Rightarrow> (string \<times> string) list \<Rightarrow> 'm"
  se_set :: "'m \<Rightarrow> (string \<times> string) list \<Rightarrow> 'm"
  se_invoke :: "nat \<Rightarrow> string \<Rightarrow> 'm request \<Rightarrow> err + 'm"

definition sessionMessageForOp :: "'m session_env \<Rightarrow> string \<Rightarrow> bool \<Rightarrow> bool" where
  "sessionMessageForOp e op output =
     (case splitSessionOp op of None \<Rightarrow> False | Some (service, meth) \<Rightarrow> se_registered e service meth output)"

definition newSessionRequest :: "'m session_env \<Rightarrow> string \<Rightarrow> (string \<times> string) list \<Rightarrow> 'm request" where
  "newSessionRequest e op fs =
     (if sessionMessageForOp e op False then MsgRequest (se_message e op fs)
      else if fs = [] then NilRequest
      else MapRequest (map (\<lambda>(name, v). (jsonNameOf name, v)) fs))"

definition applyClientVersion :: "'m session_env \<Rightarrow> 'm request \<Rightarrow> 'm request" where
  "applyClientVersion e req =
     (case req of
        NilRequest \<Rightarrow> NilRequest
      | MsgRequest m \<Rightarrow> MsgRequest (se_set e m [(sessionFieldClientVersion, ClientVersion)])
      | MapRequest fs \<Rightarrow> MapRequest (AList.update (jsonNameOf sessionFieldClientVersion) ClientVersion fs))"

section \<open>The session (client/session.go)\<close>

record 'm Session =
  ss_addr :: nat
  ss_cli :: "nat option"
  ss_proto :: "'m SessionProtocol option"
  ss_token :: string
  ss_playerID :: string
  ss_kickedReason :: string
  ss_unbind :: "(nat \<times> off) option"
  ss_heartbeatInterval :: duration
  ss_autoResume :: bool
  ss_onKicked :: bool
  ss_extraOnReconnect :: "err option option"

type_synonym 'm sent = "(string \<times> 'm request) list"

definition new_session :: "nat \<Rightarrow> 'm SessionProtocol option \<Rightarrow> 'm Session" where
  "new_session addr p = \<lparr>ss_addr = addr, ss_cli = None, ss_proto = p, ss_token = [], ss_playerID = [],
     ss_kickedReason = [], ss_unbind = None, ss_heartbeatInterval = 30 * second, ss_autoResume = True,
     ss_onKicked = False, ss_extraOnReconnect = None\<rparr>"

definition WithSessionHeartbeatInterval :: "duration \<Rightarrow> 'm Session \<Rightarrow> 'm Session" where
  "WithSessionHeartbeatInterval interval s = s\<lparr>ss_heartbeatInterval := interval\<rparr>"

definition WithAutoResume :: "bool \<Rightarrow> 'm Session \<Rightarrow> 'm Session" where
  "WithAutoResume enabled s = s\<lparr>ss_autoResume := enabled\<rparr>"

text \<open>A resume hook is the error it will return.\<close>

definition WithResumeHook :: "err option option \<Rightarrow> 'm Session \<Rightarrow> 'm Session" where
  "WithResumeHook fn s = s\<lparr>ss_extraOnReconnect := fn\<rparr>"

definition WithOnKicked :: "bool \<Rightarrow> 'm Session \<Rightarrow> 'm Session" where "WithOnKicked fn s = s\<lparr>ss_onKicked := fn\<rparr>"

definition WithSessionProtocol :: "'m SessionProtocol option \<Rightarrow> 'm Session \<Rightarrow> 'm Session" where
  "WithSessionProtocol p s = s\<lparr>ss_proto := p\<rparr>"

text \<open>The getters answer on a nil session too.\<close>

definition Session_Token :: "'m Session option \<Rightarrow> string" where
  "Session_Token s = (case s of None \<Rightarrow> [] | Some s \<Rightarrow> ss_token s)"

definition Session_PlayerID :: "'m Session option \<Rightarrow> string" where
  "Session_PlayerID s = (case s of None \<Rightarrow> [] | Some s \<Rightarrow> ss_playerID s)"

definition Session_KickedReason :: "'m Session option \<Rightarrow> string" where
  "Session_KickedReason s = (case s of None \<Rightarrow> [] | Some s \<Rightarrow> ss_kickedReason s)"

definition sessionProtocol :: "'m Session \<Rightarrow> err + 'm SessionProtocol" where
  "sessionProtocol s = (case ss_proto s of None \<Rightarrow> Inl (Sentinel ErrNoSessionProtocol) | Some p \<Rightarrow> Inr p)"

definition ready :: "'m Session \<Rightarrow> err + 'm SessionProtocol" where
  "ready s =
     (case sessionProtocol s of
        Inl e \<Rightarrow> Inl e
      | Inr p \<Rightarrow> if ss_cli s = None then Inl (Msg ''session: no client'') else Inr p)"

definition session_invoke :: "'m session_env \<Rightarrow> string \<Rightarrow> 'm request \<Rightarrow> 'm Session \<Rightarrow> (err + 'm) \<times> 'm sent" where
  "session_invoke e op req s =
     (case ss_cli s of
        None \<Rightarrow> (Inl (Msg ''session: no client''), [])
      | Some c \<Rightarrow> (se_invoke e c op req, [(op, req)]))"

definition invokeSession :: "'m session_env \<Rightarrow> string \<Rightarrow> 'm request \<Rightarrow> 'm Session \<Rightarrow> (err + 'm) \<times> 'm sent" where
  "invokeSession e op req s =
     (if \<not> sessionMessageForOp e op True then (Inl (Wrap [] [Sentinel ErrSessionReplyUnresolved]), [])
      else session_invoke e op req s)"

definition clear :: "'m Session \<Rightarrow> 'm Session" where
  "clear s = s\<lparr>ss_token := [], ss_playerID := []\<rparr>"

definition credentials_empty :: err where
  "credentials_empty = Wrap [] [Sentinel ErrSessionCredentialsEmpty]"

definition Login :: "'m session_env \<Rightarrow> 'm request \<Rightarrow> 'm Session \<Rightarrow> (err + 'm) \<times> 'm Session \<times> 'm sent" where
  "Login e req s =
     (case ready s of
        Inl x \<Rightarrow> (Inl x, s, [])
      | Inr p \<Rightarrow>
          (case invokeSession e (op_login (sp_Ops p)) (applyClientVersion e req) s of
             (Inl x, sent) \<Rightarrow> (Inl x, s, sent)
           | (Inr reply, sent) \<Rightarrow>
               let token = sp_Token p reply; playerID = sp_PlayerID p reply in
               if token = [] \<and> playerID = [] then (Inl credentials_empty, s, sent)
               else (Inr reply, s\<lparr>ss_token := token, ss_playerID := playerID, ss_kickedReason := []\<rparr>, sent)))"

definition Register :: "'m session_env \<Rightarrow> 'm request \<Rightarrow> 'm Session \<Rightarrow> (err + 'm) \<times> 'm Session \<times> 'm sent" where
  "Register e req s =
     (case ready s of
        Inl x \<Rightarrow> (Inl x, s, [])
      | Inr p \<Rightarrow>
          (case invokeSession e (op_register (sp_Ops p)) req s of
             (Inl x, sent) \<Rightarrow> (Inl x, s, sent)
           | (Inr reply, sent) \<Rightarrow>
               if sp_PlayerID p reply = [] \<and> sp_Token p reply = [] then (Inl credentials_empty, s, sent)
               else (Inr reply, s, sent)))"

definition restoreWith ::
  "'m session_env \<Rightarrow> string \<Rightarrow> string \<Rightarrow> 'm Session \<Rightarrow> (err + 'm) \<times> 'm Session \<times> 'm sent" where
  "restoreWith e token playerID s =
     (case ready s of
        Inl x \<Rightarrow> (Inl x, s, [])
      | Inr p \<Rightarrow>
          let op = op_resume (sp_Ops p);
              req = newSessionRequest e op [(sessionFieldToken, token), (sessionFieldPlayerID, playerID),
                      (sessionFieldClientVersion, ClientVersion)]
          in (case invokeSession e op req s of
                (Inl x, sent) \<Rightarrow> (Inl x, s, sent)
              | (Inr reply, sent) \<Rightarrow>
                  let got = sp_PlayerID p reply in
                  if got = [] then (Inl credentials_empty, s, sent)
                  else
                    let s = (if sp_Token p reply \<noteq> [] then s\<lparr>ss_token := sp_Token p reply\<rparr> else s)
                    in (Inr reply, s\<lparr>ss_playerID := got\<rparr>, sent)))"

definition Resume :: "'m session_env \<Rightarrow> 'm Session \<Rightarrow> (err + 'm) \<times> 'm Session \<times> 'm sent" where
  "Resume e s =
     (case ready s of
        Inl x \<Rightarrow> (Inl x, s, [])
      | Inr _ \<Rightarrow>
          if ss_token s = [] then (Inl (Msg ''session: not logged in''), s, [])
          else restoreWith e (ss_token s) (ss_playerID s) s)"

definition Restore ::
  "'m session_env \<Rightarrow> string \<Rightarrow> string \<Rightarrow> 'm Session \<Rightarrow> (err + 'm) \<times> 'm Session \<times> 'm sent" where
  "Restore e token playerID s =
     (if token = [] \<or> playerID = [] then (Inl (Msg ''session: empty credentials''), s, [])
      else restoreWith e token playerID s)"

definition Logout :: "'m session_env \<Rightarrow> 'm Session \<Rightarrow> err option \<times> 'm Session \<times> 'm sent" where
  "Logout e s =
     (case ready s of
        Inl x \<Rightarrow> (Some x, s, [])
      | Inr p \<Rightarrow>
          let op = op_logout (sp_Ops p) in
          (case session_invoke e op (newSessionRequest e op []) s of
             (r, sent) \<Rightarrow> (case r of Inl x \<Rightarrow> Some x | Inr _ \<Rightarrow> None, clear s, sent)))"

definition Heartbeat :: "'m session_env \<Rightarrow> 'm Session \<Rightarrow> (err + 'm) \<times> 'm Session \<times> 'm sent" where
  "Heartbeat e s =
     (case ready s of
        Inl x \<Rightarrow> (Inl x, s, [])
      | Inr p \<Rightarrow>
          if ss_token s = [] then (Inl (Msg ''session: not logged in''), s, [])
          else (case invokeSession e (op_heartbeat (sp_Ops p)) NilRequest s of (r, sent) \<Rightarrow> (r, s, sent)))"

definition heartbeatRequest :: "'m Session \<Rightarrow> string" where
  "heartbeatRequest s =
     (case ss_proto s of
        None \<Rightarrow> []
      | Some p \<Rightarrow> if ss_token s = [] then [] else op_heartbeat (sp_Ops p))"

text \<open>The hook after a reconnect; the result says whether the user's extra hook ran.\<close>

definition resumeHook :: "'m session_env \<Rightarrow> 'm Session \<Rightarrow> err option \<times> bool \<times> 'm Session \<times> 'm sent" where
  "resumeHook e s =
     (if ss_token s = [] then (None, False, s, [])
      else (case Resume e s of
              (Inl x, s, sent) \<Rightarrow> (Some x, False, s, sent)
            | (Inr _, s, sent) \<Rightarrow>
                (case ss_extraOnReconnect s of
                   None \<Rightarrow> (None, False, s, sent)
                 | Some r \<Rightarrow> (r, True, s, sent))))"

text \<open>A push; the result is the reason handed to \<open>onKicked\<close>, if it is called.\<close>

definition handlePush :: "'m SessionProtocol \<Rightarrow> PushEnvelope \<Rightarrow> 'm Session \<Rightarrow> string option \<times> 'm Session" where
  "handlePush p env s =
     (case sp_Kicked p env of
        None \<Rightarrow> (None, s)
      | Some reason \<Rightarrow>
          (if ss_onKicked s then Some reason else None, (clear s)\<lparr>ss_kickedReason := reason\<rparr>))"

section \<open>Binding (client/session.go)\<close>

text \<open>
  The subscription tables of the clients' business channels; a client without one makes \<open>Bind\<close>
  panic. The handler closes over the session, so its identity is the session's.
\<close>

type_synonym tables = "nat \<Rightarrow> notify_table option"

definition pushKey :: "'m Session \<Rightarrow> string" where
  "pushKey s = ''session:0x'' @ FormatHex (ss_addr s)"

definition unsubscribe_session :: "'m Session \<Rightarrow> tables \<Rightarrow> 'm Session \<times> tables" where
  "unsubscribe_session s ts =
     (case ss_unbind s of
        None \<Rightarrow> (s, ts)
      | Some (c, off) \<Rightarrow> (s\<lparr>ss_unbind := None\<rparr>, ts(c := map_option (run_off off) (ts c))))"

definition Bind :: "nat \<Rightarrow> nat \<Rightarrow> 'm Session \<Rightarrow> tables \<Rightarrow> (err option \<times> 'm Session \<times> tables) option" where
  "Bind code cli s ts =
     (case sessionProtocol s of
        Inl x \<Rightarrow> Some (Some x, s, ts)
      | Inr p \<Rightarrow>
          (case unsubscribe_session s ts of
             (s, ts) \<Rightarrow>
               do {
                 nt \<leftarrow> ts cli;
                 let (off, nt) = onAnyKeyed (pushKey s) (Some \<lparr>h_code = code, h_closure = ss_addr s\<rparr>) nt;
                 Some (None, s\<lparr>ss_cli := Some cli, ss_unbind := Some (cli, off)\<rparr>, ts(cli \<mapsto> nt))
               }))"

definition Session_Close :: "'m Session \<Rightarrow> tables \<Rightarrow> 'm Session \<times> tables" where
  "Session_Close s ts = (case unsubscribe_session s ts of (s, ts) \<Rightarrow> (s\<lparr>ss_cli := None\<rparr>, ts))"

text \<open>The options for the business channel: token provider, heartbeat factory and hook by identity.\<close>

definition ChannelOptions :: "nat \<Rightarrow> nat \<Rightarrow> nat \<Rightarrow> 'm Session \<Rightarrow> Option list" where
  "ChannelOptions token_fn heartbeat_fn hook_fn s =
     [WithSessionTokenProvider (Some token_fn)]
     @ (if ss_heartbeatInterval s > 0 then [WithSessionHeartbeat (ss_heartbeatInterval s) (Some heartbeat_fn)] else [])
     @ (if ss_autoResume s then [WithOnReconnected (Some (UserHook hook_fn))] else [])"

section \<open>Credentials\<close>

datatype 'm session_call =
    CallLogin "'m request"
  | CallRegister "'m request"
  | CallRestore string string
  | CallResume
  | CallHeartbeat

fun run_call :: "'m session_env \<Rightarrow> 'm session_call \<Rightarrow> 'm Session \<Rightarrow> (err + 'm) \<times> 'm Session \<times> 'm sent" where
  "run_call e (CallLogin req) s = Login e req s"
| "run_call e (CallRegister req) s = Register e req s"
| "run_call e (CallRestore token playerID) s = Restore e token playerID s"
| "run_call e CallResume s = Resume e s"
| "run_call e CallHeartbeat s = Heartbeat e s"

text \<open>What a successful call leaves of the credentials.\<close>

fun after_call :: "'m SessionProtocol \<Rightarrow> 'm \<Rightarrow> 'm session_call \<Rightarrow> 'm Session \<Rightarrow> 'm Session" where
  "after_call p reply (CallLogin _) s =
     s\<lparr>ss_token := sp_Token p reply, ss_playerID := sp_PlayerID p reply, ss_kickedReason := []\<rparr>"
| "after_call p reply (CallRegister _) s = s"
| "after_call p reply CallHeartbeat s = s"
| "after_call p reply _ s =
     s\<lparr>ss_token := (if sp_Token p reply = [] then ss_token s else sp_Token p reply), ss_playerID := sp_PlayerID p reply\<rparr>"

fun enough :: "'m SessionProtocol \<Rightarrow> 'm \<Rightarrow> 'm session_call \<Rightarrow> bool" where
  "enough p reply CallHeartbeat = True"
| "enough p reply (CallLogin _) = (sp_Token p reply \<noteq> [] \<or> sp_PlayerID p reply \<noteq> [])"
| "enough p reply (CallRegister _) = (sp_Token p reply \<noteq> [] \<or> sp_PlayerID p reply \<noteq> [])"
| "enough p reply _ = (sp_PlayerID p reply \<noteq> [])"

lemma ready_Inr: "ready s = Inr p \<longleftrightarrow> ss_proto s = Some p \<and> ss_cli s \<noteq> None"
  by (auto simp: ready_def sessionProtocol_def split: option.splits)

lemma invokeSession_cases:
  obtains x where "invokeSession e op req s = (Inl x, [])" 
  | x where "invokeSession e op req s = (Inl x, [(op, req)])"
  | c reply where "invokeSession e op req s = (Inr reply, [(op, req)])" "ss_cli s = Some c"
      "sessionMessageForOp e op True" "se_invoke e c op req = Inr reply"
proof (cases "sessionMessageForOp e op True \<and> ss_cli s \<noteq> None")
  case True
  then obtain c where c: "ss_cli s = Some c" by blast
  show ?thesis
    using True c that by (cases "se_invoke e c op req") (auto simp: invokeSession_def session_invoke_def)
next
  case False
  then have "\<exists>x. invokeSession e op req s = (Inl x, [])"
    by (auto simp: invokeSession_def session_invoke_def)
  then show ?thesis using that(1) by blast
qed

text \<open>The one shape all five calls have: an outcome of \<open>ready\<close>, of the request, and of the check.\<close>

definition call_shape :: "'m session_env \<Rightarrow> 'm session_call \<Rightarrow> 'm Session \<Rightarrow> (err + 'm) \<times> 'm Session \<times> 'm sent \<Rightarrow> bool" where
  "call_shape e c s r \<longleftrightarrow>
     (case r of
        (Inl x, s', sent) \<Rightarrow> s' = s \<and> length sent \<le> 1
      | (Inr reply, s', sent) \<Rightarrow>
          \<exists>p cli op req. ss_proto s = Some p \<and> ss_cli s = Some cli \<and> sent = [(op, req)]
            \<and> sessionMessageForOp e op True \<and> se_invoke e cli op req = Inr reply
            \<and> enough p reply c \<and> s' = after_call p reply c s)"

lemma restoreWith_shape:
  assumes "c = CallResume \<or> c = CallRestore token' playerID'"
  shows "call_shape e c s (restoreWith e token playerID s)"
proof (cases "ready s")
  case (Inr p)
  let ?op = "op_resume (sp_Ops p)"
  let ?req = "newSessionRequest e ?op [(sessionFieldToken, token), (sessionFieldPlayerID, playerID),
      (sessionFieldClientVersion, ClientVersion)]"
  show ?thesis
    by (cases rule: invokeSession_cases[of e ?op ?req s])
      (use Inr Inr[unfolded ready_Inr] assms in \<open>auto simp: call_shape_def restoreWith_def Let_def\<close>)
qed (simp add: call_shape_def restoreWith_def)

lemma run_call_shape: "call_shape e c s (run_call e c s)"
proof (cases c)
  case (CallRestore token playerID)
  then show ?thesis
    using restoreWith_shape[of c token playerID e s token playerID] by (simp add: Restore_def call_shape_def)
next
  case CallResume
  then show ?thesis
    using restoreWith_shape[of c "[]" "[]" e s "ss_token s" "ss_playerID s"]
    by (cases "ready s") (simp_all add: Resume_def call_shape_def)
next
  case (CallLogin req)
  show ?thesis
  proof (cases "ready s")
    case (Inr p)
    show ?thesis
      by (cases rule: invokeSession_cases[of e "op_login (sp_Ops p)" "applyClientVersion e req" s])
        (use Inr Inr[unfolded ready_Inr] CallLogin in \<open>auto simp: call_shape_def Login_def Let_def\<close>)
  qed (simp add: call_shape_def CallLogin Login_def)
next
  case (CallRegister req)
  show ?thesis
  proof (cases "ready s")
    case (Inr p)
    show ?thesis
      by (cases rule: invokeSession_cases[of e "op_register (sp_Ops p)" req s])
        (use Inr Inr[unfolded ready_Inr] CallRegister in \<open>auto simp: call_shape_def Register_def\<close>)
  qed (simp add: call_shape_def CallRegister Register_def)
next
  case CallHeartbeat
  show ?thesis
  proof (cases "ready s")
    case (Inr p)
    show ?thesis
      by (cases rule: invokeSession_cases[of e "op_heartbeat (sp_Ops p)" NilRequest s])
        (use Inr Inr[unfolded ready_Inr] CallHeartbeat in \<open>auto simp: call_shape_def Heartbeat_def\<close>)
  qed (simp add: call_shape_def CallHeartbeat Heartbeat_def)
qed

text \<open>
  Everything that may touch the credentials: the five calls, a logout, the hook after a reconnect
  and a push that the client delivers to the bound session.
\<close>

datatype 'm session_event = Calls "'m session_call" | LogsOut | Reconnected | Pushed PushEnvelope

fun run_event :: "'m session_env \<Rightarrow> 'm session_event \<Rightarrow> 'm Session \<Rightarrow> 'm Session" where
  "run_event e (Calls c) s = fst (snd (run_call e c s))"
| "run_event e LogsOut s = fst (snd (Logout e s))"
| "run_event e Reconnected s = fst (snd (snd (resumeHook e s)))"
| "run_event e (Pushed env) s = (case ss_proto s of None \<Rightarrow> s | Some p \<Rightarrow> snd (handlePush p env s))"

lemma Logout_state: "fst (snd (Logout e s)) = (case ready s of Inl _ \<Rightarrow> s | Inr _ \<Rightarrow> clear s)"
  by (simp add: Logout_def Let_def split: sum.split prod.split)

lemma resumeHook_state: "fst (snd (snd (resumeHook e s))) = (if ss_token s = [] then s else fst (snd (Resume e s)))"
  by (simp add: resumeHook_def split: prod.split sum.split option.split)

text \<open>A reply of a call of the session whose reply type is registered.\<close>

definition session_reply :: "'m session_env \<Rightarrow> 'm \<Rightarrow> bool" where
  "session_reply e reply \<longleftrightarrow> (\<exists>cli op req. sessionMessageForOp e op True \<and> se_invoke e cli op req = Inr reply)"

text \<open>The credentials held are empty or came in such a reply.\<close>

definition credited :: "'m session_env \<Rightarrow> 'm SessionProtocol \<Rightarrow> 'm Session \<Rightarrow> bool" where
  "credited e p s \<longleftrightarrow> ss_proto s = Some p
     \<and> (ss_token s = [] \<or> (\<exists>reply. session_reply e reply \<and> ss_token s = sp_Token p reply))
     \<and> (ss_playerID s = [] \<or> (\<exists>reply. session_reply e reply \<and> ss_playerID s = sp_PlayerID p reply))"

lemma credited_call:
  assumes "credited e p s"
  shows "credited e p (fst (snd (run_call e c s)))"
proof -
  obtain r s' sent where r: "run_call e c s = (r, s', sent)" by (cases "run_call e c s")
  show ?thesis
  proof (cases r)
    case (Inl x)
    then show ?thesis using run_call_shape[of e c s] r assms by (simp add: call_shape_def)
  next
    case (Inr reply)
    then obtain cli op req where *: "sessionMessageForOp e op True" "se_invoke e cli op req = Inr reply" "s' = after_call p reply c s"
      using run_call_shape[of e c s] r assms by (auto simp: call_shape_def credited_def)
    then have "session_reply e reply" by (auto simp: session_reply_def)
    then have "credited e p (after_call p reply c s)" using assms by (cases c) (auto simp: credited_def)
    then show ?thesis using r * by simp
  qed
qed

lemma credited_cleared:
  "credited e p s \<Longrightarrow> credited e p (s\<lparr>ss_token := [], ss_playerID := []\<rparr>)
     \<and> credited e p (s\<lparr>ss_token := [], ss_playerID := [], ss_kickedReason := r\<rparr>)"
  by (simp add: credited_def)

lemma credited_event: "credited e p s \<Longrightarrow> credited e p (run_event e ev s)"
  using credited_call[of e p s] credited_call[of e p s CallResume] credited_cleared[of e p s]
  by (cases ev) (auto simp: resumeHook_state Logout_state handlePush_def clear_def split: sum.split option.split)

text \<open>
  C11: What changes the credentials. A failed call of any kind leaves the session as it was; a successful one
  sent exactly one request, under an operation whose reply type is registered, got that reply from
  the client, found enough credentials in it, and stores exactly those. A logout of a usable session
  clears token and player whether its request succeeded or not, a push that the protocol recognises as a
  kick clears them and records the reason, and any other push changes nothing. So after any sequence of
  calls, logouts, reconnects and pushes a session that started without credentials holds either nothing or what such a reply carried.
\<close>

theorem session_credentials:
  "(case run_call e c s of
      (Inl x, s', sent) \<Rightarrow> s' = s \<and> length sent \<le> 1
    | (Inr reply, s', sent) \<Rightarrow>
        \<exists>p cli op req. ss_proto s = Some p \<and> ss_cli s = Some cli \<and> sent = [(op, req)]
          \<and> sessionMessageForOp e op True \<and> se_invoke e cli op req = Inr reply
          \<and> enough p reply c \<and> s' = after_call p reply c s)
   \<and> run_event e LogsOut s = (case ready s of Inl _ \<Rightarrow> s | Inr _ \<Rightarrow> s\<lparr>ss_token := [], ss_playerID := []\<rparr>)
   \<and> run_event e Reconnected s = (if ss_token s = [] then s else run_event e (Calls CallResume) s)
   \<and> run_event e (Pushed env) s = (case Option.bind (ss_proto s) (\<lambda>p. sp_Kicked p env) of
        None \<Rightarrow> s | Some reason \<Rightarrow> s\<lparr>ss_token := [], ss_playerID := [], ss_kickedReason := reason\<rparr>)
   \<and> (let held = fold (run_event e) evs (s\<lparr>ss_proto := Some p, ss_token := [], ss_playerID := []\<rparr>) in
       (ss_token held = [] \<or> (\<exists>reply. session_reply e reply \<and> ss_token held = sp_Token p reply))
       \<and> (ss_playerID held = [] \<or> (\<exists>reply. session_reply e reply \<and> ss_playerID held = sp_PlayerID p reply)))"
proof -
  have "call_shape e c s (run_call e c s)" by (rule run_call_shape)
  moreover have "credited e p (fold (run_event e) evs t)" if "credited e p t" for t
    using that by (induction evs arbitrary: t) (auto intro: credited_event)
  then have "credited e p (fold (run_event e) evs (s\<lparr>ss_proto := Some p, ss_token := [], ss_playerID := []\<rparr>))"
    by (simp add: credited_def)
  ultimately show ?thesis
    by (simp add: call_shape_def credited_def Logout_state resumeHook_state handlePush_def clear_def Let_def split: option.split sum.split)
qed

text \<open>
  The end of a session: a logout of a usable session clears the credentials whether the request
  succeeded or not; a push the protocol recognises as a kick clears them and records the
  reason; any other push changes nothing. A session without a token sends no heartbeat, resumes
  nothing after a reconnect and does not make the reconnect fail.
\<close>

theorem session_ends:
  "(case (Logout e s, ready s) of
      ((r, s', sent), Inl x) \<Rightarrow> r = Some x \<and> s' = s \<and> sent = []
    | ((r, s', sent), Inr p) \<Rightarrow> s' = s\<lparr>ss_token := [], ss_playerID := []\<rparr> \<and> length sent = 1)
   \<and> handlePush p env s =
       (case sp_Kicked p env of
          None \<Rightarrow> (None, s)
        | Some reason \<Rightarrow> (if ss_onKicked s then Some reason else None,
                          s\<lparr>ss_token := [], ss_playerID := [], ss_kickedReason := reason\<rparr>))
   \<and> (let s0 = s\<lparr>ss_token := []\<rparr>
      in heartbeatRequest s0 = [] \<and> resumeHook e s0 = (None, False, s0, []) \<and> snd (snd (Heartbeat e s0)) = [])"
proof (intro conjI)
  show "case (Logout e s, ready s) of
      ((r, s', sent), Inl x) \<Rightarrow> r = Some x \<and> s' = s \<and> sent = []
    | ((r, s', sent), Inr p) \<Rightarrow> s' = s\<lparr>ss_token := [], ss_playerID := []\<rparr> \<and> length sent = 1"
  proof (cases "ready s")
    case (Inr p)
    then show ?thesis
      using Inr[unfolded ready_Inr] by (auto simp: Logout_def clear_def session_invoke_def Let_def)
  qed (simp add: Logout_def)
qed (auto simp: handlePush_def clear_def heartbeatRequest_def resumeHook_def Heartbeat_def Let_def
      split: option.split sum.split)

text \<open>
  Restoring loses the token: \<open>Restore\<close> is given a token and its reply carries a player but no
  token (the shipped \<open>ResumeReply\<close> has no token field). It succeeds, but the session keeps its
  old token, not the one it was given; on a session that had none it stays without one, so it
  sends no heartbeats, refuses to resume, and the reconnect hook resumes nothing.
\<close>

theorem restore_drops_token:
  assumes "ss_proto s = Some p" and "ss_cli s = Some cli" and "ss_token s = []"
    and "token \<noteq> []" and "playerID \<noteq> []" and "sessionMessageForOp e (op_resume (sp_Ops p)) True"
    and "se_invoke e cli (op_resume (sp_Ops p)) (newSessionRequest e (op_resume (sp_Ops p))
           [(sessionFieldToken, token), (sessionFieldPlayerID, playerID), (sessionFieldClientVersion, ClientVersion)])
         = Inr reply"
    and "sp_PlayerID p reply \<noteq> []" and "sp_Token p reply = []"
  shows "\<exists>s' sent. Restore e token playerID s = (Inr reply, s', sent)
    \<and> ss_playerID s' = sp_PlayerID p reply \<and> ss_token s' = []
    \<and> heartbeatRequest s' = [] \<and> Resume e s' = (Inl (Msg ''session: not logged in''), s', [])
    \<and> resumeHook e s' = (None, False, s', [])"
  using assms
  by (simp add: Restore_def restoreWith_def ready_def sessionProtocol_def invokeSession_def session_invoke_def
      Let_def heartbeatRequest_def Resume_def resumeHook_def)

definition demo_ops :: SessionOps where
  "demo_ops = \<lparr>op_register = ''/g.S/Register'', op_login = ''/g.S/Login'', op_resume = ''/g.S/Resume'',
     op_logout = ''/g.S/Logout'', op_heartbeat = ''/g.S/Heartbeat''\<rparr>"

theorem restore_drops_token_witness:
  "\<exists>s' sent. Restore \<lparr>se_registered = \<lambda>_ _ _. True, se_message = \<lambda>_ _. ([], []), se_set = \<lambda>m _. m,
        se_invoke = \<lambda>_ _ _. Inr ([], ''42'')\<rparr> ''tok'' ''42''
      ((new_session 1 (Some \<lparr>sp_Ops = demo_ops, sp_Token = fst, sp_PlayerID = snd, sp_Kicked = \<lambda>_. None\<rparr>))\<lparr>ss_cli := Some 0\<rparr>)
    = (Inr ([], ''42''), s', sent) \<and> ss_playerID s' = ''42'' \<and> ss_token s' = []"
proof -
  let ?e = "\<lparr>se_registered = \<lambda>_ _ _. True, se_message = \<lambda>_ _. ([], []), se_set = \<lambda>m _. m,
        se_invoke = \<lambda>_ _ _. Inr ([], ''42'')\<rparr> :: (string \<times> string) session_env"
  let ?p = "\<lparr>sp_Ops = demo_ops, sp_Token = fst, sp_PlayerID = snd, sp_Kicked = \<lambda>_. None\<rparr> :: (string \<times> string) SessionProtocol"
  have "sessionMessageForOp ?e (op_resume demo_ops) True"
    by (simp add: sessionMessageForOp_def splitSessionOp_def demo_ops_def Let_def)
  then show ?thesis
    using restore_drops_token[of "(new_session 1 (Some ?p))\<lparr>ss_cli := Some 0\<rparr>" ?p 0 "''tok''" "''42''" ?e "([], ''42'')"]
    by (auto simp: new_session_def)
qed

section \<open>At most one subscription\<close>

datatype bind_op = BindTo nat | Unbind

fun run_binds :: "nat \<Rightarrow> bind_op list \<Rightarrow> 'm Session \<Rightarrow> tables \<Rightarrow> ('m Session \<times> tables) option" where
  "run_binds code [] s ts = Some (s, ts)"
| "run_binds code (BindTo c # ops) s ts =
     do { (_, s, ts) \<leftarrow> Bind code c s ts; run_binds code ops s ts }"
| "run_binds code (Unbind # ops) s ts = (case Session_Close s ts of (s, ts) \<Rightarrow> run_binds code ops s ts)"

lemma any_subs_off:
  assumes "nt_wf nt"
  shows "nt_wf (run_off (OffEntry notifyAny ([], k)) nt) \<and> subs (run_off (OffEntry notifyAny ([], k)) nt) = subs nt
    \<and> any_subs (run_off (OffEntry notifyAny ([], k)) nt) = (any_subs nt)(k := None)"
proof -
  have "map_of (nt_ops nt) op \<noteq> Some notifyAny" for op using assms unfolding nt_wf_def by blast
  then show ?thesis
    using assms
    by (auto simp: nt_wf_def unsubscribe_def subs_def any_subs_def fun_eq_iff distinct_delete delete_conv'
        only_keys_delete simp del: map_of_eq_Some_iff split: option.splits)
qed

text \<open>A table against what it was before the session: the session's key holds \<open>v\<close>, all else is kept.\<close>

definition entry_ok :: "string \<Rightarrow> handler option \<Rightarrow> notify_table \<Rightarrow> notify_table \<Rightarrow> bool" where
  "entry_ok k v nt nt0 \<longleftrightarrow> nt_wf nt \<and> subs nt = subs nt0 \<and> any_subs nt = (any_subs nt0)(k := v)"

lemma entry_ok_off: "entry_ok k v nt nt0 \<Longrightarrow> entry_ok k None (run_off (OffEntry notifyAny ([], k)) nt) nt0"
  using any_subs_off[of nt k] by (simp add: entry_ok_def)

lemma entry_ok_subscribe: "entry_ok k v nt nt0 \<Longrightarrow> entry_ok k (Some h) (subscribe notifyAny ([], k) h nt) nt0"
  using any_subs_subscribe[of nt k h] by (simp add: entry_ok_def)

definition own_handler :: "nat \<Rightarrow> 'm Session \<Rightarrow> nat \<Rightarrow> handler option" where
  "own_handler code s c = (if ss_cli s = Some c then Some \<lparr>h_code = code, h_closure = ss_addr s\<rparr> else None)"

definition bind_inv :: "nat \<Rightarrow> tables \<Rightarrow> 'm Session \<Rightarrow> tables \<Rightarrow> bool" where
  "bind_inv code ts0 s ts \<longleftrightarrow>
     (case ss_unbind s of None \<Rightarrow> ss_cli s = None | Some (c, off) \<Rightarrow> ss_cli s = Some c \<and> off = OffEntry notifyAny ([], pushKey s))
   \<and> (\<forall>c. rel_option (entry_ok (pushKey s) (own_handler code s c)) (ts c) (ts0 c))"

lemma pushKey_update [simp]: "pushKey (s\<lparr>ss_cli := c\<rparr>) = pushKey s" "pushKey (s\<lparr>ss_unbind := u\<rparr>) = pushKey s"
  by (simp_all add: pushKey_def)

lemma bind_inv_unsubscribe:
  assumes "bind_inv code ts0 s ts" and "unsubscribe_session s ts = (s1, ts1)"
  shows "bind_inv code ts0 (s1\<lparr>ss_cli := None\<rparr>) ts1 \<and> s1 = s\<lparr>ss_unbind := None\<rparr>"
proof (cases "ss_unbind s")
  case None
  then have "s\<lparr>ss_cli := None\<rparr> = s" "s1 = s" "ts1 = ts" "s\<lparr>ss_unbind := None\<rparr> = s"
    using assms by (auto simp: unsubscribe_session_def bind_inv_def)
  then show ?thesis using assms by simp
next
  case (Some u)
  obtain c off where u: "u = (c, off)" by (cases u)
  have off: "off = OffEntry notifyAny ([], pushKey s)" "ss_cli s = Some c"
    using assms(1) Some u by (auto simp: bind_inv_def)
  have eq: "s1 = s\<lparr>ss_unbind := None\<rparr>" "ts1 = ts(c := map_option (run_off off) (ts c))"
    using assms(2) Some u by (auto simp: unsubscribe_session_def)
  have old: "rel_option (entry_ok (pushKey s) (own_handler code s d)) (ts d) (ts0 d)" for d
    using assms(1) by (simp add: bind_inv_def)
  have "rel_option (entry_ok (pushKey s) None) (ts1 d) (ts0 d)" for d
    using old[of d] entry_ok_off[of "pushKey s"]
    by (cases "d = c") (auto simp: eq off own_handler_def option.rel_map simp del: run_off.simps elim: option.rel_mono_strong)
  then show ?thesis by (simp add: eq bind_inv_def own_handler_def)
qed

lemma bind_inv_Bind:
  assumes "bind_inv code ts0 s ts" and "Bind code cli s ts = Some (x, s', ts')"
  shows "bind_inv code ts0 s' ts' \<and> ss_addr s' = ss_addr s"
proof (cases "sessionProtocol s")
  case (Inl x)
  then show ?thesis using assms by (simp add: Bind_def)
next
  case (Inr p)
  obtain s1 ts1 where u: "unsubscribe_session s ts = (s1, ts1)" by (cases "unsubscribe_session s ts")
  note inv = bind_inv_unsubscribe[OF assms(1) u]
  obtain nt where nt: "ts1 cli = Some nt" using assms(2) Inr u by (auto simp: Bind_def bind_eq_Some_conv)
  let ?h = "\<lparr>h_code = code, h_closure = ss_addr s1\<rparr>"
  have eq: "s' = s1\<lparr>ss_cli := Some cli, ss_unbind := Some (cli, OffEntry notifyAny ([], pushKey s1))\<rparr>"
    "ts' = ts1(cli \<mapsto> subscribe notifyAny ([], pushKey s1) ?h nt)"
    using assms(2) Inr u nt by (auto simp: Bind_def onAnyKeyed_def Let_def)
  have old: "rel_option (entry_ok (pushKey s1) None) (ts1 d) (ts0 d)" for d
    using conjunct1[OF inv] unfolding bind_inv_def by (simp add: own_handler_def)
  have "rel_option (entry_ok (pushKey s1) (own_handler code s' d)) (ts' d) (ts0 d)" for d
    using old[of d] nt entry_ok_subscribe[of "pushKey s1" None nt]
    by (cases "d = cli"; cases "ts0 d") (auto simp: eq own_handler_def)
  then show ?thesis using inv by (simp add: eq bind_inv_def)
qed

lemma bind_inv_run:
  "bind_inv code ts0 s ts \<Longrightarrow> run_binds code ops s ts = Some (s', ts') \<Longrightarrow> bind_inv code ts0 s' ts' \<and> ss_addr s' = ss_addr s"
proof (induction ops arbitrary: s ts)
  case (Cons o' ops)
  show ?case
  proof (cases o')
    case (BindTo c)
    then obtain x s1 ts1 where "Bind code c s ts = Some (x, s1, ts1)" "run_binds code ops s1 ts1 = Some (s', ts')"
      using Cons.prems by (auto simp: bind_eq_Some_conv)
    then show ?thesis using Cons.IH[of s1 ts1] bind_inv_Bind[OF Cons.prems(1)] by auto
  next
    case Unbind
    obtain s1 ts1 where u: "unsubscribe_session s ts = (s1, ts1)" by (cases "unsubscribe_session s ts")
    then show ?thesis
      using Cons Unbind bind_inv_unsubscribe[OF Cons.prems(1) u] by (auto simp: Session_Close_def)
  qed
qed simp

text \<open>
  Binding: whatever sequence of \<open>Bind\<close> and \<open>Close\<close> a session goes through, its key is
  subscribed in the table of the client it is bound to and in no other, once; every other
  subscription of every client is as before; and its key is neither another session's nor that
  of any handler subscribed with \<open>On\<close>.
\<close>

theorem bind_single_subscription:
  assumes "run_binds code ops (new_session addr pr) ts0 = Some (s, ts)"
    and "\<And>c nt. ts0 c = Some nt \<Longrightarrow> nt_wf nt \<and> any_subs nt (''session:0x'' @ FormatHex addr) = None"
    and "ts c = Some nt"
  shows "\<exists>nt0. ts0 c = Some nt0 \<and> subs nt = subs nt0
    \<and> any_subs nt = (any_subs nt0)(pushKey s :=
        (if ss_cli s = Some c then Some \<lparr>h_code = code, h_closure = addr\<rparr> else None))
    \<and> (pushKey s = pushKey (new_session addr' pr) \<longleftrightarrow> addr = addr') \<and> pushKey s \<noteq> handlerKey h"
proof -
  let ?s0 = "new_session addr pr"
  have "rel_option (entry_ok (pushKey ?s0) None) (ts0 c) (ts0 c)" for c
    using assms(2) by (cases "ts0 c") (auto simp: entry_ok_def new_session_def pushKey_def fun_eq_iff)
  then have "bind_inv code ts0 ?s0 ts0" by (simp add: bind_inv_def new_session_def own_handler_def)
  from bind_inv_run[OF this assms(1)] have inv: "bind_inv code ts0 s ts" "ss_addr s = addr"
    by (simp_all add: new_session_def)
  obtain nt0 where "ts0 c = Some nt0" "entry_ok (pushKey s) (own_handler code s c) nt nt0"
    using inv(1) assms(3) unfolding bind_inv_def by (metis option_rel_Some1)
  moreover have "pushKey s = pushKey (new_session addr' pr) \<longleftrightarrow> addr = addr'"
    using FormatHex_inject[of addr addr'] inv(2) by (auto simp: pushKey_def new_session_def)
  moreover have "pushKey s \<noteq> handlerKey h" by (cases h) (simp_all add: pushKey_def handlerKey_def)
  ultimately show ?thesis using inv(2) by (auto simp: entry_ok_def own_handler_def)
qed

theorem bind_single_subscription_witness:
  "\<exists>s ts nt. run_binds 5 [BindTo 0, BindTo 0] (new_session 1 (Some \<lparr>sp_Ops = demo_ops, sp_Token = fst, sp_PlayerID = snd, sp_Kicked = \<lambda>_. None\<rparr>))
      [0 \<mapsto> empty_table] = Some (s, ts) \<and> ts 0 = Some nt
    \<and> any_subs nt = [pushKey s \<mapsto> \<lparr>h_code = 5, h_closure = 1\<rparr>]"
proof -
  let ?p = "Some \<lparr>sp_Ops = demo_ops, sp_Token = fst, sp_PlayerID = snd, sp_Kicked = \<lambda>_. None\<rparr> :: (string \<times> string) SessionProtocol option"
  have none: "any_subs empty_table = (\<lambda>_. None)" by (simp add: any_subs_def empty_table_def fun_eq_iff)
  obtain s ts nt where r: "run_binds 5 [BindTo 0, BindTo 0] (new_session 1 ?p) [0 \<mapsto> empty_table] = Some (s, ts)"
      "ts 0 = Some nt" "ss_cli s = Some 0"
    by (simp add: Bind_def sessionProtocol_def new_session_def unsubscribe_session_def onAnyKeyed_def Let_def)
  have wf: "nt_wf nt' \<and> any_subs nt' (''session:0x'' @ FormatHex 1) = None" if "[0 \<mapsto> empty_table] c = Some nt'" for c :: nat and nt'
    using that nt_wf_empty none by (simp split: if_splits)
  from bind_single_subscription[OF r(1) wf r(2), where addr' = 1 and h = None] obtain nt0 where
    "[0 \<mapsto> empty_table] (0 :: nat) = Some nt0" "any_subs nt = (any_subs nt0)(pushKey s := Some \<lparr>h_code = 5, h_closure = 1\<rparr>)"
    using r(3) by auto
  then show ?thesis using r none by auto
qed

end
