(* ===== verification/DirectPlan.thy ===== *)
theory DirectPlan
  imports ClientOptions Base64
begin

text \<open>
  How a direct battle session is set up: transports and the plan (\<open>direct/plan.go\<close>), the
  payload version (\<open>direct/version.go\<close>), the options and their defaults
  (\<open>direct/options.go\<close>), and the reading of a match notification (\<open>direct/notify.go\<close>).
  Names that the client package also uses carry the suffix \<open>_direct\<close>.
\<close>

section \<open>Transports and plans (direct/plan.go)\<close>

type_synonym DTransport = byte

definition DTransportWS :: DTransport where "DTransportWS = 1"
definition DTransportKCP :: DTransport where "DTransportKCP = 2"
definition DTransportUDP :: DTransport where "DTransportUDP = 3"

lemmas dtransport_consts = DTransportWS_def DTransportKCP_def DTransportUDP_def

text \<open>\<open>strings.ToLower\<close> of an ASCII character.\<close>

definition to_lower :: "char \<Rightarrow> char" where
  "to_lower c = (let n = of_char c :: nat in if 65 \<le> n \<and> n \<le> 90 then char_of (n + 32) else c)"

definition ParseTransport :: "string \<Rightarrow> err + DTransport" where
  "ParseTransport name =
     (let n = ToUpper (TrimSpace name) in
      if n = ''EDGE_TRANSPORT_WS'' \<or> n = ''WS'' then Inr DTransportWS
      else if n = ''EDGE_TRANSPORT_KCP'' \<or> n = ''KCP'' then Inr DTransportKCP
      else if n = ''EDGE_TRANSPORT_UDP'' \<or> n = ''UDP'' then Inr DTransportUDP
      else Inl (wrap_sentinel ErrTransportUnknown))"

record Plan =
  p_MatchID :: string
  p_BattleID :: string
  p_Ticket :: bytes
  p_Endpoints :: "(DTransport \<times> string) list"
  p_MaxNetworkGap :: duration

definition Endpoint :: "Plan \<Rightarrow> DTransport \<Rightarrow> err + string" where
  "Endpoint p t =
     (case map_of (p_Endpoints p) t of
        None \<Rightarrow> Inl (wrap_sentinel ErrTransportNotFound)
      | Some addr \<Rightarrow> if addr = [] then Inl (wrap_sentinel ErrTransportNotFound) else Inr addr)"

definition defaultPriority :: "DTransport list" where
  "defaultPriority = [DTransportWS, DTransportKCP, DTransportUDP]"

fun first_endpoint :: "Plan \<Rightarrow> DTransport list \<Rightarrow> err + DTransport \<times> string" where
  "first_endpoint p [] = Inl (wrap_sentinel ErrTransportNotFound)"
| "first_endpoint p (t # ts) =
     (case Endpoint p t of Inr addr \<Rightarrow> Inr (t, addr) | Inl _ \<Rightarrow> first_endpoint p ts)"

definition pickEndpoint :: "Plan \<Rightarrow> DTransport \<Rightarrow> err + DTransport \<times> string" where
  "pickEndpoint p want =
     (if want \<noteq> 0 then map_sum id (Pair want) (Endpoint p want) else first_endpoint p defaultPriority)"

section \<open>Payload versions (direct/version.go)\<close>

definition supportedVersion :: "byte \<Rightarrow> bool" where
  "supportedVersion ver \<longleftrightarrow> ver = Version \<or> ver = Version2"

definition payloadVersion :: "Serializer \<Rightarrow> err + byte" where
  "payloadVersion serial =
     (case declared serial of
        None \<Rightarrow> Inr Version
      | Some ver \<Rightarrow> if supportedVersion ver then Inr ver else Inl (wrap_sentinel ErrPayloadVersion))"

section \<open>Options (direct/options.go)\<close>

record Replay =
  rp_Op :: string
  rp_Req :: "nat option"

record options =
  d_transport :: DTransport
  d_path :: string
  d_invokeTimeout :: duration
  d_handshakeTimeout :: duration
  d_backoffBase :: duration
  d_backoffMax :: duration
  d_autoReconnect :: bool
  d_edgeHello :: bool
  d_heartbeat :: duration
  d_probeOp :: string
  d_probeReq :: "nat option"
  d_replay :: "Replay list"
  d_endLinger :: duration
  d_frameNumber :: "nat option"
  d_serial :: Serializer
  d_switchWindow :: duration
  d_idleSwitch :: duration
  d_idleDead :: duration
  d_idleDeadExplicit :: bool
  d_swallowMax :: nat
  d_switchHelloTimeout :: duration
  d_switchRetryBase :: duration
  d_switchPollInterval :: duration
  d_switchDialer :: "nat option"
  d_switchWatcher :: "nat option"
  d_switchClock :: "nat option"

definition defaultOptions :: options where
  "defaultOptions = \<lparr>d_transport = 0, d_path = ''/'', d_invokeTimeout = 10 * second,
     d_handshakeTimeout = 3 * second, d_backoffBase = 500 * millisecond, d_backoffMax = 10 * second,
     d_autoReconnect = True, d_edgeHello = True, d_heartbeat = 2 * second, d_probeOp = [],
     d_probeReq = None, d_replay = [], d_endLinger = 2 * second, d_frameNumber = None,
     d_serial = ProtoJSONSerializer, d_switchWindow = 500 * millisecond, d_idleSwitch = 3 * second,
     d_idleDead = 15 * second, d_idleDeadExplicit = False, d_swallowMax = 256,
     d_switchHelloTimeout = second, d_switchRetryBase = 200 * millisecond, d_switchPollInterval = second,
     d_switchDialer = None, d_switchWatcher = None, d_switchClock = None\<rparr>"

type_synonym DOption = "options \<Rightarrow> options"

definition WithTransport :: "DTransport \<Rightarrow> DOption" where
  "WithTransport t o' = o'\<lparr>d_transport := t\<rparr>"

definition WithPath :: "string \<Rightarrow> DOption" where
  "WithPath path o' = (if path \<noteq> [] then o'\<lparr>d_path := path\<rparr> else o')"

definition WithInvokeTimeout_direct :: "duration \<Rightarrow> DOption" where
  "WithInvokeTimeout_direct d o' = (if d > 0 then o'\<lparr>d_invokeTimeout := d\<rparr> else o')"

definition WithHandshakeTimeout :: "duration \<Rightarrow> DOption" where
  "WithHandshakeTimeout d o' = (if d > 0 then o'\<lparr>d_handshakeTimeout := d\<rparr> else o')"

definition WithReconnectBackoff :: "duration \<Rightarrow> duration \<Rightarrow> DOption" where
  "WithReconnectBackoff base maxd o' =
     (let o' = (if base > 0 then o'\<lparr>d_backoffBase := base\<rparr> else o')
      in if maxd \<ge> d_backoffBase o' then o'\<lparr>d_backoffMax := maxd\<rparr> else o')"

definition WithAutoReconnect_direct :: "bool \<Rightarrow> DOption" where
  "WithAutoReconnect_direct enabled o' = o'\<lparr>d_autoReconnect := enabled\<rparr>"

definition WithoutEdgeHello :: DOption where
  "WithoutEdgeHello o' = o'\<lparr>d_edgeHello := False\<rparr>"

definition WithProbe :: "string \<Rightarrow> nat option \<Rightarrow> DOption" where
  "WithProbe op req o' = (if op \<noteq> [] then o'\<lparr>d_probeOp := op, d_probeReq := req\<rparr> else o')"

definition WithReplay :: "Replay list \<Rightarrow> DOption" where
  "WithReplay steps o' = (if steps \<noteq> [] then o'\<lparr>d_replay := steps\<rparr> else o')"

definition WithHeartbeat :: "duration \<Rightarrow> DOption" where
  "WithHeartbeat period o' = o'\<lparr>d_heartbeat := period\<rparr>"

definition WithEndLinger :: "duration \<Rightarrow> DOption" where
  "WithEndLinger d o' = o'\<lparr>d_endLinger := max d 0\<rparr>"

definition WithSerializer_direct :: "Serializer option \<Rightarrow> DOption" where
  "WithSerializer_direct s o' = (case s of None \<Rightarrow> o' | Some s \<Rightarrow> o'\<lparr>d_serial := s\<rparr>)"

definition WithFrameNumberFunc :: "nat option \<Rightarrow> DOption" where
  "WithFrameNumberFunc fn o' = (if fn \<noteq> None then o'\<lparr>d_frameNumber := fn\<rparr> else o')"

definition WithSwitchWindow :: "duration \<Rightarrow> DOption" where
  "WithSwitchWindow d o' = o'\<lparr>d_switchWindow := d\<rparr>"

definition WithIdleSwitch :: "duration \<Rightarrow> DOption" where
  "WithIdleSwitch d o' = o'\<lparr>d_idleSwitch := d\<rparr>"

definition WithIdleDeadline :: "duration \<Rightarrow> DOption" where
  "WithIdleDeadline d o' = o'\<lparr>d_idleDead := d, d_idleDeadExplicit := True\<rparr>"

definition WithSwitchHelloTimeout :: "duration \<Rightarrow> DOption" where
  "WithSwitchHelloTimeout d o' = o'\<lparr>d_switchHelloTimeout := d\<rparr>"

definition WithSwallowBudget :: "nat \<Rightarrow> DOption" where
  "WithSwallowBudget n o' = o'\<lparr>d_swallowMax := n\<rparr>"

text \<open>Injected functions are opaque; \<open>None\<close> is the default, or nil as an argument.\<close>

definition WithSwitchDialer :: "nat option \<Rightarrow> DOption" where
  "WithSwitchDialer fn o' = (if fn \<noteq> None then o'\<lparr>d_switchDialer := fn\<rparr> else o')"

definition WithSwitchWatcher :: "nat option \<Rightarrow> DOption" where
  "WithSwitchWatcher w o' = (if w \<noteq> None then o'\<lparr>d_switchWatcher := w\<rparr> else o')"

definition WithSwitchClock :: "nat option \<Rightarrow> DOption" where
  "WithSwitchClock clk o' = (if clk \<noteq> None then o'\<lparr>d_switchClock := clk\<rparr> else o')"

lemmas direct_option_defs = WithTransport_def WithPath_def WithInvokeTimeout_direct_def
  WithHandshakeTimeout_def WithReconnectBackoff_def WithAutoReconnect_direct_def WithoutEdgeHello_def
  WithProbe_def WithReplay_def WithHeartbeat_def WithEndLinger_def WithSerializer_direct_def
  WithFrameNumberFunc_def WithSwitchWindow_def WithIdleSwitch_def WithIdleDeadline_def
  WithSwitchHelloTimeout_def WithSwallowBudget_def

definition clientIdleDeadline :: "duration \<Rightarrow> duration \<Rightarrow> duration" where
  "clientIdleDeadline gap idleSwitch =
     (let d = trunc_div (wrap64 (gap * 3)) 2
      in if d \<le> idleSwitch then wrap64 (idleSwitch + second) else d)"

definition applyPlanDefaults :: "Plan \<Rightarrow> options \<Rightarrow> options" where
  "applyPlanDefaults plan o' =
     (if p_MaxNetworkGap plan > 0 \<and> \<not> d_idleDeadExplicit o'
      then o'\<lparr>d_idleDead := clientIdleDeadline (p_MaxNetworkGap plan) (d_idleSwitch o')\<rparr> else o')"

definition validateSwitchOptions :: "options \<Rightarrow> err option" where
  "validateSwitchOptions o' =
     (if d_switchWindow o' \<le> 0 then Some (Msg ''switch window'')
      else if d_idleSwitch o' \<le> 0 \<or> d_idleDead o' \<le> d_idleSwitch o' then Some (Msg ''idle thresholds'')
      else if d_swallowMax o' = 0 then Some (Msg ''swallow budget'')
      else if d_switchHelloTimeout o' \<le> 0 \<or> d_switchRetryBase o' \<le> 0 \<or> d_switchPollInterval o' \<le> 0
      then Some (Msg ''switch timeouts'')
      else None)"

text \<open>\<open>Open\<close> up to the dial: the effective options, the transport and address, and the version.\<close>

definition open_plan :: "Plan \<Rightarrow> DOption list \<Rightarrow> err + options \<times> DTransport \<times> string \<times> byte" where
  "open_plan plan opts =
     (if p_Ticket plan = [] then Inl (wrap_sentinel ErrNotifyNoTicket)
      else
        let o' = applyPlanDefaults plan (foldl (\<lambda>o' opt. opt o') defaultOptions opts) in
        (case pickEndpoint plan (d_transport o') of
           Inl x \<Rightarrow> Inl x
         | Inr (kind, addr) \<Rightarrow>
             (case validateSwitchOptions o' of
                Some x \<Rightarrow> Inl x
              | None \<Rightarrow>
                  (case payloadVersion (d_serial o') of
                     Inl x \<Rightarrow> Inl x
                   | Inr ver \<Rightarrow> Inr (o', kind, addr, ver)))))"

section \<open>Reconnect delays (direct/session_reconnect.go)\<close>

definition nextBackoff_direct :: "duration \<Rightarrow> duration \<Rightarrow> duration" where
  "nextBackoff_direct maxd cur = (let next = wrap64 (cur * 2) in if next > maxd then maxd else next)"

interpretation direct_backoff: backoff nextBackoff_direct
  by unfold_locales (auto simp: nextBackoff_direct_def int64_def Let_def)

text \<open>The slot of the ticket in every request frame and in the upgrade query (\<open>direct/hello.go\<close>).\<close>

definition TicketSlot :: "bytes \<Rightarrow> string" where
  "TicketSlot ticket = RawURLEncode ticket"

section \<open>Match notifications (direct/notify.go)\<close>

text \<open>
  \<open>encoding/json\<close> as the code uses it: the input is the parsed value, an object the list of its
  members in order. Unmarshalling into a map keeps the last of equal keys; \<open>null\<close> gives a nil
  map, a nil slice or leaves a string empty, without an error.
\<close>

datatype json = JNull | JBool bool | JNum "int option" | JString string | JArray "json list" | JObject "(string \<times> json) list"

type_synonym fields_table = "(string \<times> json) list"

definition unmarshal_map :: "json \<Rightarrow> (string \<times> json) list option option" where
  "unmarshal_map j =
     (case j of
        JObject kvs \<Rightarrow> Some (Some (foldl (\<lambda>m (k, v). AList.update k v m) [] kvs))
      | JNull \<Rightarrow> Some None
      | _ \<Rightarrow> None)"

definition unmarshal_string :: "json \<Rightarrow> string option" where
  "unmarshal_string j = (case j of JString s \<Rightarrow> Some s | JNull \<Rightarrow> Some [] | _ \<Rightarrow> None)"

definition unmarshal_array :: "json \<Rightarrow> json list option" where
  "unmarshal_array j = (case j of JArray l \<Rightarrow> Some l | JNull \<Rightarrow> Some [] | _ \<Rightarrow> None)"

definition unmarshal_int64 :: "json \<Rightarrow> int option" where
  "unmarshal_int64 j =
     (case j of
        JNum (Some n) \<Rightarrow> if int64 n then Some n else None
      | JNull \<Rightarrow> Some 0
      | _ \<Rightarrow> None)"

definition normalizeKey :: "string \<Rightarrow> string" where
  "normalizeKey key = map to_lower (filter (\<lambda>c. c \<noteq> CHR ''_'') key)"

text \<open>Go visits a map in an unspecified order; \<open>normalizeMap\<close> is given the order.\<close>

definition normalizeMap :: "fields_table \<Rightarrow> fields_table" where
  "normalizeMap raw = foldl (\<lambda>m (k, v). AList.update (normalizeKey k) v m) [] raw"

text \<open>\<open>strconv.ParseInt\<close> in base 10 with 64 bits accepts what \<open>Atoi\<close> accepts.\<close>

definition rawString :: "fields_table \<Rightarrow> string \<Rightarrow> string" where
  "rawString fs name =
     (case map_of fs (normalizeKey name) of
        None \<Rightarrow> []
      | Some raw \<Rightarrow> (case unmarshal_string raw of None \<Rightarrow> [] | Some s \<Rightarrow> s))"

definition rawInt64 :: "fields_table \<Rightarrow> string \<Rightarrow> int" where
  "rawInt64 fs name =
     (case map_of fs (normalizeKey name) of
        None \<Rightarrow> 0
      | Some raw \<Rightarrow>
          (case unmarshal_string raw of
             Some s \<Rightarrow> (case Atoi s of None \<Rightarrow> 0 | Some n \<Rightarrow> if n < 0 then 0 else n)
           | None \<Rightarrow> (case unmarshal_int64 raw of None \<Rightarrow> 0 | Some n \<Rightarrow> if n < 0 then 0 else n)))"

text \<open>\<open>StdEncoding\<close> drops the padding it requires; \<open>decodeTicketBase64\<close> then tries without.\<close>

definition std_decode :: "string \<Rightarrow> bytes option" where
  "std_decode s =
     (if length s mod 4 \<noteq> 0 then None
      else
        let core = (if length s \<ge> 2 \<and> drop (length s - 2) s = ''=='' then take (length s - 2) s
                    else if length s \<ge> 1 \<and> drop (length s - 1) s = ''='' then take (length s - 1) s
                    else s)
        in raw_decode std_alphabet core)"

definition strip_newlines :: "string \<Rightarrow> string" where
  "strip_newlines s = filter (\<lambda>c. c \<noteq> CHR 0x0A \<and> c \<noteq> CHR 0x0D) s"

definition decodeTicketBase64 :: "string \<Rightarrow> bytes option" where
  "decodeTicketBase64 encoded =
     (let s = strip_newlines encoded in
      case std_decode s of Some b \<Rightarrow> Some b | None \<Rightarrow> raw_decode std_alphabet s)"

definition notifyTicket :: "fields_table \<Rightarrow> err + bytes" where
  "notifyTicket fs =
     (case map_of fs (normalizeKey ''battle_ticket'') of
        None \<Rightarrow> Inl (wrap_sentinel ErrNotifyNoTicket)
      | Some raw \<Rightarrow>
          (case unmarshal_string raw of
             None \<Rightarrow> Inl (wrap_sentinel ErrNotifyNoTicket)
           | Some encoded \<Rightarrow>
               if encoded = [] then Inl (wrap_sentinel ErrNotifyNoTicket)
               else (case decodeTicketBase64 encoded of
                       None \<Rightarrow> Inl (wrap_sentinel ErrNotifyNoTicket)
                     | Some ticket \<Rightarrow>
                         if ticket = [] then Inl (wrap_sentinel ErrNotifyNoTicket) else Inr ticket)))"

definition endpointItem :: "json \<Rightarrow> (DTransport \<times> string) option" where
  "endpointItem item =
     (case unmarshal_map item of
        None \<Rightarrow> None
      | Some m \<Rightarrow>
          let fs = normalizeMap (case m of None \<Rightarrow> [] | Some m \<Rightarrow> m) in
          (case ParseTransport (rawString fs ''transport'') of
             Inl _ \<Rightarrow> None
           | Inr t \<Rightarrow>
               let addr = rawString fs ''address'' in if addr = [] then None else Some (t, addr)))"

definition endpointList :: "json list \<Rightarrow> (DTransport \<times> string) list" where
  "endpointList items =
     foldl (\<lambda>out item. case endpointItem item of None \<Rightarrow> out | Some (t, addr) \<Rightarrow> AList.update t addr out) [] items"

definition endpointItems :: "json option \<Rightarrow> (DTransport \<times> string) list" where
  "endpointItems raw =
     (case raw of None \<Rightarrow> []
      | Some j \<Rightarrow> (case unmarshal_array j of None \<Rightarrow> [] | Some items \<Rightarrow> endpointList items))"

definition notifyEndpoints :: "fields_table \<Rightarrow> err + (DTransport \<times> string) list" where
  "notifyEndpoints fs =
     (case map_of fs (normalizeKey ''endpoints'') of
        None \<Rightarrow> Inl (wrap_sentinel ErrNotifyNoEndpoint)
      | Some raw \<Rightarrow>
          (case unmarshal_array raw of
             None \<Rightarrow> Inl (wrap_sentinel ErrNotifyNoEndpoint)
           | Some items \<Rightarrow>
               let out = endpointList items in
               if out \<noteq> [] then Inr out else Inl (wrap_sentinel ErrNotifyNoEndpoint)))"

definition ticketEntryOf :: "json \<Rightarrow> bytes \<Rightarrow> (DTransport \<times> string) list" where
  "ticketEntryOf item ticket =
     (case unmarshal_map item of
        None \<Rightarrow> []
      | Some m \<Rightarrow>
          let fs = normalizeMap (case m of None \<Rightarrow> [] | Some m \<Rightarrow> m) in
          (case decodeTicketBase64 (rawString fs ''ticket'') of
             None \<Rightarrow> []
           | Some own \<Rightarrow>
               if own \<noteq> ticket then [] else endpointItems (map_of fs (normalizeKey ''endpoints''))))"

fun first_nonempty :: "('a \<Rightarrow> 'b list) \<Rightarrow> 'a list \<Rightarrow> 'b list" where
  "first_nonempty f [] = []"
| "first_nonempty f (x # xs) = (if f x \<noteq> [] then f x else first_nonempty f xs)"

definition ticketEntriesOf :: "fields_table \<Rightarrow> string \<Rightarrow> bytes \<Rightarrow> (DTransport \<times> string) list" where
  "ticketEntriesOf fs key ticket =
     (case map_of fs (normalizeKey key) of
        None \<Rightarrow> []
      | Some raw \<Rightarrow>
          (case unmarshal_array raw of
             None \<Rightarrow> []
           | Some items \<Rightarrow> first_nonempty (\<lambda>item. ticketEntryOf item ticket) items))"

definition ticketEntryEndpoints :: "fields_table \<Rightarrow> bytes \<Rightarrow> (DTransport \<times> string) list" where
  "ticketEntryEndpoints fs ticket =
     first_nonempty (\<lambda>key. ticketEntriesOf fs key ticket) [''tickets'', ''battle_tickets'']"

definition resolveEndpoints :: "fields_table \<Rightarrow> bytes \<Rightarrow> err + (DTransport \<times> string) list" where
  "resolveEndpoints fs ticket =
     (let eps = ticketEntryEndpoints fs ticket in if eps \<noteq> [] then Inr eps else notifyEndpoints fs)"

definition decodeObject :: "json option \<Rightarrow> fields_table option" where
  "decodeObject payload =
     (case payload of
        None \<Rightarrow> None
      | Some j \<Rightarrow>
          (case unmarshal_map j of
             Some (Some m) \<Rightarrow> Some (normalizeMap m)
           | _ \<Rightarrow> None))"

definition notifyObject :: "json option \<Rightarrow> err + fields_table" where
  "notifyObject payload =
     (case decodeObject payload of
        None \<Rightarrow> Inl (wrap_sentinel ErrNotifyMalformed)
      | Some fs \<Rightarrow>
          (case map_of fs (normalizeKey ''payload'') of
             None \<Rightarrow> Inr fs
           | Some inner \<Rightarrow>
               if rawString fs ''type'' = [] then Inr fs
               else (case unmarshal_map inner of
                       None \<Rightarrow> Inr fs
                     | Some m \<Rightarrow> Inr (normalizeMap (case m of None \<Rightarrow> [] | Some m \<Rightarrow> m)))))"

text \<open>\<open>payload\<close> is the parsed JSON text, \<open>None\<close> when it is not JSON.\<close>

definition PlanFromNotify :: "json option \<Rightarrow> err + Plan" where
  "PlanFromNotify payload =
     (case notifyObject payload of
        Inl x \<Rightarrow> Inl x
      | Inr fs \<Rightarrow>
          (case notifyTicket fs of
             Inl x \<Rightarrow> Inl x
           | Inr ticket \<Rightarrow>
               (case resolveEndpoints fs ticket of
                  Inl x \<Rightarrow> Inl x
                | Inr eps \<Rightarrow>
                    Inr \<lparr>p_MatchID = rawString fs ''match_id'', p_BattleID = rawString fs ''battle_id'',
                         p_Ticket = ticket, p_Endpoints = eps,
                         p_MaxNetworkGap = wrap64 (rawInt64 fs ''max_network_gap_ms'' * millisecond)\<rparr>)))"

definition PushOpMatchStarted :: string where "PushOpMatchStarted = ''/game.v1.MatchStartedNotify''"

definition PlanFromPush :: "string \<Rightarrow> json option \<Rightarrow> err + Plan" where
  "PlanFromPush op payload =
     (if op \<noteq> PushOpMatchStarted then Inl (wrap_sentinel ErrNotifyMalformed) else PlanFromNotify payload)"

section \<open>Tickets\<close>

definition std_encode :: "bytes \<Rightarrow> string" where
  "std_encode b = (let s = raw_encode std_alphabet b in s @ replicate ((4 - length s mod 4) mod 4) (CHR ''=''))"

lemma length_sextets: "length (sextets b) mod 4 \<noteq> 1"
  by (induction b rule: sextets.induct) auto

lemma std_chars: "c \<in> set (raw_encode std_alphabet b) \<Longrightarrow> c \<noteq> CHR ''='' \<and> c \<noteq> CHR 0x0A \<and> c \<noteq> CHR 0x0D"
  using raw_encode_chars[OF good_alphabets(2), of c b] by (auto simp: std_alphabet_def base_alphabet_def)

lemma std_decode_plain: "length (raw_encode std_alphabet b) mod 4 = 0 \<Longrightarrow> std_decode (raw_encode std_alphabet b) = Some b"
proof -
  let ?s = "raw_encode std_alphabet b"
  have last: "drop (length ?s - n) ?s \<noteq> replicate n (CHR ''='')" if "0 < n" "n \<le> length ?s" for n
  proof
    assume "drop (length ?s - n) ?s = replicate n (CHR ''='')"
    then have "CHR ''='' \<in> set (drop (length ?s - n) ?s)" using that by simp
    then show False using std_chars[of "CHR ''=''" b] by (meson in_set_dropD)
  qed
  then show "length ?s mod 4 = 0 \<Longrightarrow> ?thesis"
    using last[of 2] last[of 1] raw_decode_encode[OF good_alphabets(2), of b]
    by (auto simp: std_decode_def Let_def numeral_2_eq_2)
qed

lemma strip_newlines_std: "strip_newlines (raw_encode std_alphabet b @ replicate n (CHR ''='')) = raw_encode std_alphabet b @ replicate n (CHR ''='')"
  unfolding strip_newlines_def by (rule filter_True) (auto dest: std_chars)

lemma decodeTicket_raw: "decodeTicketBase64 (raw_encode std_alphabet b) = Some b"
proof -
  let ?s = "raw_encode std_alphabet b"
  have "std_decode ?s = (if length ?s mod 4 = 0 then Some b else None)"
    using std_decode_plain[of b] by (simp add: std_decode_def)
  then show ?thesis
    using strip_newlines_std[of b 0] raw_decode_encode[OF good_alphabets(2), of b] by (simp add: decodeTicketBase64_def Let_def)
qed

lemma decodeTicket_std: "decodeTicketBase64 (std_encode b) = Some b"
proof -
  let ?s = "raw_encode std_alphabet b"
  have d: "raw_decode std_alphabet ?s = Some b" by (rule raw_decode_encode[OF good_alphabets(2)])
  have "length ?s mod 4 \<noteq> 1" using length_sextets[of b] by (simp add: raw_encode_def)
  then consider "length ?s mod 4 = 0" | "length ?s mod 4 = 2" | "length ?s mod 4 = 3" by linarith
  then have "std_decode (std_encode b) = Some b"
  proof cases
    case 1
    then show ?thesis using std_decode_plain[OF 1] by (simp add: std_encode_def Let_def)
  next
    case 2
    then have "std_encode b = ?s @ ''==''" by (simp add: std_encode_def Let_def numeral_2_eq_2)
    moreover from this have "length (std_encode b) mod 4 = 0" using 2 by (simp add: mod_Suc)
    ultimately have "std_encode b = ?s @ ''==''" "length (std_encode b) mod 4 = 0" by blast+
    then show ?thesis using d by (simp add: std_decode_def Let_def)
  next
    case 3
    then have e: "std_encode b = ?s @ ''=''" "length (std_encode b) mod 4 = 0"
      by (simp_all add: std_encode_def Let_def mod_Suc)
    have "?s \<noteq> []" using 3 by auto
    then have "last ?s \<noteq> CHR ''=''" using std_chars[of "last ?s" b] by auto
    then have "drop (length (?s @ ''='') - 2) (?s @ ''='') \<noteq> ''==''"
      by (cases ?s rule: rev_cases) auto
    then show ?thesis using d e by (simp add: std_decode_def Let_def)
  qed
  moreover have "strip_newlines (std_encode b) = std_encode b"
    using strip_newlines_std by (simp add: std_encode_def Let_def)
  ultimately show ?thesis by (simp add: decodeTicketBase64_def)
qed

section \<open>Reading back a notification\<close>

text \<open>The two spellings of a key protojson may send.\<close>

definition transport_name :: "DTransport \<Rightarrow> string" where
  "transport_name t = (if t = DTransportWS then ''EDGE_TRANSPORT_WS'' else if t = DTransportKCP then ''EDGE_TRANSPORT_KCP''
     else ''EDGE_TRANSPORT_UDP'')"

definition endpoint_json :: "DTransport \<times> string \<Rightarrow> json" where
  "endpoint_json e = JObject [(''transport'', JString (transport_name (fst e))), (''address'', JString (snd e))]"

definition entry_json :: "bool \<Rightarrow> bytes \<times> (DTransport \<times> string) list \<Rightarrow> json" where
  "entry_json camel e = JObject [((if camel then ''playerId'' else ''player_id''), JString ''p''),
     (''ticket'', JString (std_encode (fst e))), (''endpoints'', JArray (map endpoint_json (snd e)))]"

text \<open>
  An \<open>int64\<close> in JSON: protojson writes a string of decimal digits, older tools a number, and nothing is
  written for a server that does not know the field.
\<close>

fun decimal :: "nat \<Rightarrow> string" where
  "decimal n = (if n < 10 then [] else decimal (n div 10)) @ [char_of (48 + n mod 10)]"

declare decimal.simps [simp del]

definition FormatInt :: "int \<Rightarrow> string" where
  "FormatInt n = (if n < 0 then CHR ''-'' # decimal (nat (- n)) else decimal (nat n))"

lemma decimal_digits: "decimal n \<noteq> [] \<and> list_all is_digit (decimal n) \<and> digits_value (decimal n) = int n"
proof (induction n rule: decimal.induct)
  case (1 n)
  have d: "of_char (char_of (48 + n mod 10) :: char) = (48 + n mod 10 :: nat)" by (simp add: of_char_of take_bit_eq_mod)
  have d': "of_char (char_of (48 + n mod 10) :: char) = (48 + int n mod 10)"
    using arg_cong[OF d, of int] unfolding of_nat_of_char of_nat_add zmod_int of_nat_numeral .
  show ?case
  proof (cases "n < 10")
    case True
    then show ?thesis using d d' by (simp add: decimal.simps[of n] digits_value_def is_digit_def)
  next
    case False
    have "int (n div 10) * 10 + int n mod 10 = int n" by (simp add: zdiv_int)
    then show ?thesis using 1 False d d' by (simp add: decimal.simps[of n] digits_value_def is_digit_def)
  qed
qed

lemma Atoi_FormatInt: "int64 n \<Longrightarrow> Atoi (FormatInt n) = Some n"
proof -
  have "c \<noteq> CHR ''-'' \<and> c \<noteq> CHR ''+''" if "is_digit c" for c using that by (auto simp: is_digit_def)
  then have "hd (decimal k) \<noteq> CHR ''-'' \<and> hd (decimal k) \<noteq> CHR ''+''" for k
    using decimal_digits[of k] by (cases "decimal k") auto
  then show "int64 n \<Longrightarrow> ?thesis"
    using decimal_digits[of "nat n"] decimal_digits[of "nat (- n)"] by (auto simp: Atoi_def FormatInt_def Let_def)
qed

datatype int_form = IntString | IntNumber | IntMissing

fun int_json :: "int_form \<Rightarrow> string \<Rightarrow> int \<Rightarrow> fields_table" where
  "int_json IntString key n = [(key, JString (FormatInt n))]"
| "int_json IntNumber key n = [(key, JNum (Some n))]"
| "int_json IntMissing key n = []"

lemma map_of_int_json [simp]: "k \<noteq> key \<Longrightarrow> map_of (int_json form key n) k = None"
  by (cases form) simp_all

definition notify_json ::
  "bool \<Rightarrow> int_form \<Rightarrow> string \<Rightarrow> string \<Rightarrow> bytes \<Rightarrow> (DTransport \<times> string) list \<Rightarrow> (bytes \<times> (DTransport \<times> string) list) list
     \<Rightarrow> int \<Rightarrow> json" where
  "notify_json camel form mid bid ticket eps entries ms = JObject
     ([(if camel then ''matchId'' else ''match_id'', JString mid),
      (if camel then ''battleId'' else ''battle_id'', JString bid),
      (if camel then ''battleTicket'' else ''battle_ticket'', JString (std_encode ticket)),
      (''endpoints'', JArray (map endpoint_json eps)),
      (if camel then ''battleTickets'' else ''battle_tickets'', JArray (map (entry_json camel) entries))]
      @ int_json form (if camel then ''maxNetworkGapMs'' else ''max_network_gap_ms'') ms)"

definition eps_ok :: "(DTransport \<times> string) list \<Rightarrow> bool" where
  "eps_ok eps \<longleftrightarrow> distinct (map fst eps)
     \<and> list_all (\<lambda>(t, a). t \<in> {DTransportWS, DTransportKCP, DTransportUDP} \<and> a \<noteq> []) eps"

lemma endpointItem_json:
  "t \<in> {DTransportWS, DTransportKCP, DTransportUDP} \<Longrightarrow> a \<noteq> [] \<Longrightarrow> endpointItem (endpoint_json (t, a)) = Some (t, a)"
  by (auto simp: endpointItem_def endpoint_json_def unmarshal_map_def normalizeMap_def normalizeKey_def to_lower_def
      rawString_def unmarshal_string_def transport_name_def dtransport_consts ParseTransport_def TrimSpace_def
      is_space_def ToUpper_def upper_char_def Let_def)

lemma update_fresh_key: "k \<notin> fst ` set m \<Longrightarrow> AList.update k v m = m @ [(k, v)]"
  by (induction m) auto

lemma endpointList_step:
  "eps_ok eps \<Longrightarrow> fst ` set out \<inter> fst ` set eps = {} \<Longrightarrow>
     foldl (\<lambda>out item. case endpointItem item of None \<Rightarrow> out | Some (t, addr) \<Rightarrow> AList.update t addr out) out (map endpoint_json eps)
       = out @ eps"
proof (induction eps arbitrary: out)
  case (Cons e eps)
  obtain t a where e: "e = (t, a)" by (cases e)
  have ok: "eps_ok eps" "endpointItem (endpoint_json e) = Some (t, a)" "t \<notin> fst ` set eps"
    using Cons.prems(1) e endpointItem_json[of t a] by (auto simp: eps_ok_def)
  moreover have "AList.update t a out = out @ [(t, a)]"
    using Cons.prems(2) e by (intro update_fresh_key) auto
  ultimately show ?case using Cons.IH[of "out @ [(t, a)]"] Cons.prems(2) e by auto
qed simp

lemma endpointList_json: "eps_ok eps \<Longrightarrow> endpointList (map endpoint_json eps) = eps"
  using endpointList_step[of eps "[]"] by (simp add: endpointList_def)

lemma endpointList_Nil [simp]: "endpointList [] = []"
  by (simp add: endpointList_def)

lemma ticketEntryOf_json:
  "eps_ok eps \<Longrightarrow> ticketEntryOf (entry_json camel (own, eps)) ticket = (if own = ticket then eps else [])"
  using decodeTicket_std[of own]
  by (simp add: ticketEntryOf_def entry_json_def unmarshal_map_def normalizeMap_def normalizeKey_def to_lower_def
      rawString_def unmarshal_string_def endpointItems_def unmarshal_array_def endpointList_json)

text \<open>The endpoints of the first entry that is one's own and has any.\<close>

fun own_entry :: "bytes \<Rightarrow> (bytes \<times> (DTransport \<times> string) list) list \<Rightarrow> (DTransport \<times> string) list" where
  "own_entry ticket [] = []"
| "own_entry ticket ((own, eps) # es) = (if own = ticket \<and> eps \<noteq> [] then eps else own_entry ticket es)"

lemma first_nonempty_entries:
  "list_all (\<lambda>(own, eps). eps_ok eps) entries \<Longrightarrow>
     first_nonempty (\<lambda>item. ticketEntryOf item ticket) (map (entry_json camel) entries) = own_entry ticket entries"
proof (induction entries)
  case (Cons e es)
  then show ?case by (cases e) (auto simp: ticketEntryOf_json)
qed simp

definition notify_fields ::
  "int_form \<Rightarrow> string \<Rightarrow> string \<Rightarrow> bytes \<Rightarrow> (DTransport \<times> string) list \<Rightarrow> json list \<Rightarrow> int \<Rightarrow> fields_table" where
  "notify_fields form mid bid ticket eps entries ms =
     [(''matchid'', JString mid), (''battleid'', JString bid), (''battleticket'', JString (std_encode ticket)),
      (''endpoints'', JArray (map endpoint_json eps)), (''battletickets'', JArray entries)]
     @ int_json form ''maxnetworkgapms'' ms"

lemma notifyObject_json:
  "notifyObject (Some (notify_json camel form mid bid ticket eps entries ms))
     = Inr (notify_fields form mid bid ticket eps (map (entry_json camel) entries) ms)"
  by (cases form) (simp_all add: notifyObject_def decodeObject_def notify_json_def notify_fields_def unmarshal_map_def normalizeMap_def
      normalizeKey_def to_lower_def char_of_def bit_iff_odd)

text \<open>
  C39: Reading a notification: with either spelling of the keys, the plan has the match, the battle and
  the ticket that were sent, and the gap, whether it was sent as a string, as protojson sends it, or as a number; a gap that
  was not sent, or is negative, is no gap. The plan's endpoints are those of the player's own entry in
  the list of tickets (matched by the ticket's bytes, never another player's), and the common
  list when there is no such entry. Nothing usable in either is an error, as is an empty ticket.
\<close>

theorem plan_from_notify:
  assumes "eps_ok eps" and "list_all (\<lambda>(own, eps). eps_ok eps) entries" and "ticket \<noteq> []" and "int64 ms"
  shows "PlanFromPush PushOpMatchStarted (Some (notify_json camel form mid bid ticket eps entries ms)) =
    (let own = own_entry ticket entries; addrs = (if own \<noteq> [] then own else eps)
     in if addrs = [] then Inl (wrap_sentinel ErrNotifyNoEndpoint)
        else Inr \<lparr>p_MatchID = mid, p_BattleID = bid, p_Ticket = ticket, p_Endpoints = addrs,
                  p_MaxNetworkGap = (if form = IntMissing then 0 else wrap64 (max ms 0 * millisecond))\<rparr>)
   \<and> PlanFromPush PushOpMatchStarted (Some (notify_json camel form mid bid [] eps entries ms)) = Inl (wrap_sentinel ErrNotifyNoTicket)"
proof -
  let ?fs = "\<lambda>ticket. notify_fields form mid bid ticket eps (map (entry_json camel) entries) ms"
  have empty: "std_encode [] = []" by (simp add: std_encode_def raw_encode_def)
  have "std_encode ticket \<noteq> []" using assms(3) decodeTicket_std[of ticket] decodeTicket_std[of "[]"] empty by auto
  then have ticket: "notifyTicket (?fs ticket) = Inr ticket"
    using decodeTicket_std[of ticket] assms(3)
    by (simp add: notifyTicket_def notify_fields_def normalizeKey_def to_lower_def unmarshal_string_def)
  have none: "notifyTicket (?fs []) = Inl (wrap_sentinel ErrNotifyNoTicket)"
    by (simp add: notifyTicket_def notify_fields_def normalizeKey_def to_lower_def unmarshal_string_def empty)
  have "ticketEntryEndpoints (?fs ticket) ticket = own_entry ticket entries"
    using first_nonempty_entries[OF assms(2), of ticket camel]
    by (simp add: ticketEntryEndpoints_def ticketEntriesOf_def notify_fields_def normalizeKey_def to_lower_def unmarshal_array_def)
  then have eps: "resolveEndpoints (?fs ticket) ticket =
      (let own = own_entry ticket entries; addrs = (if own \<noteq> [] then own else eps)
       in if addrs = [] then Inl (wrap_sentinel ErrNotifyNoEndpoint) else Inr addrs)"
    by (simp add: resolveEndpoints_def notifyEndpoints_def notify_fields_def normalizeKey_def to_lower_def
        unmarshal_array_def endpointList_json[OF assms(1)] Let_def)
  have "rawString (?fs ticket) ''match_id'' = mid" "rawString (?fs ticket) ''battle_id'' = bid"
    "rawInt64 (?fs ticket) ''max_network_gap_ms'' = (if form = IntMissing then 0 else max ms 0)"
    using assms(4) Atoi_FormatInt[OF assms(4)]
    by (cases form; simp add: rawString_def rawInt64_def notify_fields_def normalizeKey_def to_lower_def unmarshal_string_def
        unmarshal_int64_def)+
  then show ?thesis
    by (simp add: PlanFromPush_def PlanFromNotify_def notifyObject_json ticket none eps int64_def Let_def)
qed

theorem plan_from_notify_witness:
  "PlanFromPush PushOpMatchStarted (Some (notify_json True IntString ''m'' ''b'' [1, 2] [(1, ''h:1'')]
      [([9], [(1, ''h:9'')]), ([1, 2], [(2, ''h:2'')])] 4000))
   = Inr \<lparr>p_MatchID = ''m'', p_BattleID = ''b'', p_Ticket = [1, 2], p_Endpoints = [(2, ''h:2'')],
          p_MaxNetworkGap = 4 * second\<rparr>"
proof -
  have ok: "eps_ok [(1, ''h:1'')]" "list_all (\<lambda>(own, eps). eps_ok eps) [([9], [(1, ''h:9'')]), ([1, 2 :: byte], [(2, ''h:2'')])]"
    by (simp_all add: eps_ok_def dtransport_consts)
  then show ?thesis
    using plan_from_notify[OF ok, of "[1, 2]" 4000 True IntString "''m''" "''b''"] by (simp add: int64_def)
qed

section \<open>Opening a session\<close>

lemma first_endpoint_sound:
  "first_endpoint p ts = Inr (t, addr) \<Longrightarrow> t \<in> set ts \<and> Endpoint p t = Inr addr
     \<and> (\<exists>us vs. ts = us @ t # vs \<and> list_all (\<lambda>u. \<exists>x. Endpoint p u = Inl x) us)"
proof (induction ts)
  case (Cons u ts)
  show ?case
  proof (cases "Endpoint p u")
    case (Inl x)
    then obtain us vs where "ts = us @ t # vs" "list_all (\<lambda>u. \<exists>x. Endpoint p u = Inl x) us"
        "t \<in> set ts" "Endpoint p t = Inr addr"
      using Cons by auto
    then show ?thesis using Inl by (intro conjI exI[of _ "u # us"] exI[of _ vs]) auto
  next
    case (Inr a)
    then show ?thesis using Cons.prems by (intro conjI exI[of _ "[]"] exI[of _ ts]) auto
  qed
qed simp

lemma clientIdleDeadline_bounds:
  assumes "0 < gap" and "gap < 2 ^ 61" and "0 < T1" and "T1 < 2 ^ 62"
  shows "T1 < clientIdleDeadline gap T1 \<and> gap < clientIdleDeadline gap T1 + (if gap = 1 then 1 else 0)"
proof -
  have w: "wrap64 (gap * 3) = gap * 3" using assms(1,2) by (intro wrap64_id) (simp add: int64_def)
  have w': "wrap64 (T1 + second) = T1 + second" using assms(3,4) by (intro wrap64_id) (simp add: int64_def)
  have "trunc_div (gap * 3) 2 = (gap * 3) div 2" using assms(1) by (intro trunc_div_nonneg) simp_all
  then show ?thesis using assms by (auto simp: clientIdleDeadline_def Let_def w w')
qed

text \<open>
  Opening a session, up to the dial: it succeeds only with a ticket, on the transport asked for
  or the first of WebSocket, KCP, UDP the plan has an address for, with that address, a payload
  version 1 or 2, and idle thresholds in order, the second above the server's gap unless it
  was set explicitly. It never falls back to a transport that was not asked for.
\<close>

theorem open_plan_sound:
  assumes "open_plan plan opts = Inr (o', kind, addr, ver)"
    and "p_MaxNetworkGap plan < 2 ^ 61" and "d_idleSwitch o' < 2 ^ 62"
  shows "p_Ticket plan \<noteq> [] \<and> map_of (p_Endpoints plan) kind = Some addr \<and> addr \<noteq> []
    \<and> (if d_transport o' \<noteq> 0 then kind = d_transport o'
       else \<exists>us vs. defaultPriority = us @ kind # vs \<and> list_all (\<lambda>u. map_of (p_Endpoints plan) u \<in> {None, Some []}) us)
    \<and> ver \<in> {1, 2} \<and> 0 < d_switchWindow o' \<and> 0 < d_idleSwitch o' \<and> d_idleSwitch o' < d_idleDead o' \<and> 0 < d_swallowMax o'
    \<and> (if 1 < p_MaxNetworkGap plan \<and> \<not> d_idleDeadExplicit o' then p_MaxNetworkGap plan < d_idleDead o' else True)"
proof -
  define o0 where "o0 = foldl (\<lambda>o' opt. opt o') defaultOptions opts"
  have o': "o' = applyPlanDefaults plan o0" and pick: "pickEndpoint plan (d_transport o') = Inr (kind, addr)"
    and valid: "validateSwitchOptions o' = None" and ver: "payloadVersion (d_serial o') = Inr ver"
    and ticket: "p_Ticket plan \<noteq> []"
    using assms(1) by (auto simp: open_plan_def o0_def[symmetric] Let_def split: if_splits sum.splits option.splits prod.splits)
  have endp: "Endpoint plan t = Inr a \<longleftrightarrow> map_of (p_Endpoints plan) t = Some a \<and> a \<noteq> []"
    "(\<exists>x. Endpoint plan t = Inl x) \<longleftrightarrow> map_of (p_Endpoints plan) t \<in> {None, Some []}" for t a
    by (auto simp: Endpoint_def split: option.split)
  have "map_of (p_Endpoints plan) kind = Some addr \<and> addr \<noteq> []
    \<and> (if d_transport o' \<noteq> 0 then kind = d_transport o'
       else \<exists>us vs. defaultPriority = us @ kind # vs \<and> list_all (\<lambda>u. map_of (p_Endpoints plan) u \<in> {None, Some []}) us)"
  proof (cases "d_transport o' = 0")
    case True
    then show ?thesis using pick first_endpoint_sound[of plan defaultPriority kind addr] unfolding endp by (simp add: pickEndpoint_def)
  next
    case False
    then show ?thesis using pick endp(1) by (cases "Endpoint plan (d_transport o')") (auto simp: pickEndpoint_def)
  qed
  moreover have th: "0 < d_switchWindow o' \<and> 0 < d_idleSwitch o' \<and> d_idleSwitch o' < d_idleDead o' \<and> 0 < d_swallowMax o'"
    using valid by (auto simp: validateSwitchOptions_def split: if_splits)
  moreover have "ver \<in> {1, 2}"
    using ver by (auto simp: payloadVersion_def supportedVersion_def frame_consts split: option.splits if_splits)
  moreover have "p_MaxNetworkGap plan < d_idleDead o'" if "1 < p_MaxNetworkGap plan" "\<not> d_idleDeadExplicit o'"
    using clientIdleDeadline_bounds[of "p_MaxNetworkGap plan" "d_idleSwitch o'"] that assms(2,3) th
    by (auto simp: o' applyPlanDefaults_def split: if_splits)
  ultimately show ?thesis using ticket by auto
qed

theorem open_plan_sound_witness:
  "\<exists>o' kind addr ver. open_plan \<lparr>p_MatchID = [], p_BattleID = [], p_Ticket = [1], p_Endpoints = [(2, ''h:2''), (3, ''h:3'')],
      p_MaxNetworkGap = 4 * second\<rparr> [] = Inr (o', kind, addr, ver) \<and> kind = 2 \<and> ver \<in> {1, 2} \<and> 4 * second < d_idleDead o'"
proof -
  let ?p = "\<lparr>p_MatchID = [], p_BattleID = [], p_Ticket = [1], p_Endpoints = [(2, ''h:2''), (3, ''h:3'')], p_MaxNetworkGap = 4 * second\<rparr>"
  let ?o = "defaultOptions\<lparr>d_idleDead := 6 * second\<rparr>"
  have dl: "clientIdleDeadline (4 * second) (3 * second) = 6 * second"
    by (simp add: clientIdleDeadline_def trunc_div_def int64_def Let_def)
  have e: "open_plan ?p [] = Inr (?o, 2, ''h:2'', 1)"
    using dl
    by (simp add: open_plan_def applyPlanDefaults_def defaultOptions_def pickEndpoint_def Endpoint_def defaultPriority_def
        dtransport_consts validateSwitchOptions_def payloadVersion_def ProtoJSONSerializer_def frame_consts Let_def)
  show ?thesis using open_plan_sound[OF e] e by (auto simp: defaultOptions_def)
qed

end
