(* ===== verification/DirectStats.thy ===== *)
theory DirectStats
  imports GoErrors
begin

text \<open>
  The counters of a direct session (\<open>direct/stats.go\<close>). Each \<open>note\<close> function is a function on
  the accumulator; a counter is an atomic 64-bit word, a "last error" slot an optional error
  behind the statistics lock. The theorem says what a snapshot means after any sequence of notes.
\<close>

section \<open>Migration counters\<close>

text \<open>\<open>DeadReason\<close> is the type \<open>dead_reason\<close> of \<open>GoErrors\<close>; its empty string is \<open>None\<close>.\<close>

record flowCounters =
  fc_switches :: u64
  fc_switchFailures :: u64
  fc_swallowed :: u64
  fc_deadRebuilds :: u64
  fc_lastCostNs :: duration
  fc_maxCostNs :: duration
  fc_lastSwitchErr :: "err option"
  fc_lastDeadReason :: "dead_reason option"

definition new_flowCounters :: flowCounters where
  "new_flowCounters = \<lparr>fc_switches = 0, fc_switchFailures = 0, fc_swallowed = 0, fc_deadRebuilds = 0,
     fc_lastCostNs = 0, fc_maxCostNs = 0, fc_lastSwitchErr = None, fc_lastDeadReason = None\<rparr>"

text \<open>
  The compare-and-swap loop of \<open>noteSwitch\<close>. The list holds, for each round, what the other
  threads left in the cell between its load and its swap; the swap succeeds when that is what
  was loaded. With an empty list nobody interferes.
\<close>

fun cas_max :: "duration \<Rightarrow> duration list \<Rightarrow> duration \<Rightarrow> duration" where
  "cas_max ns [] cur = (if ns \<le> cur then cur else ns)"
| "cas_max ns (seen # others) cur =
     (if ns \<le> cur then cur else if seen = cur then ns else cas_max ns others seen)"

definition noteSwitch :: "duration \<Rightarrow> duration list \<Rightarrow> flowCounters \<Rightarrow> flowCounters" where
  "noteSwitch cost others c =
     c\<lparr>fc_switches := fc_switches c + 1, fc_lastCostNs := cost, fc_maxCostNs := cas_max cost others (fc_maxCostNs c)\<rparr>"

definition noteSwitchFailure :: "err \<Rightarrow> flowCounters \<Rightarrow> flowCounters" where
  "noteSwitchFailure x c = c\<lparr>fc_switchFailures := fc_switchFailures c + 1, fc_lastSwitchErr := Some x\<rparr>"

definition flow_noteSwallowed :: "flowCounters \<Rightarrow> flowCounters" where
  "flow_noteSwallowed c = c\<lparr>fc_swallowed := fc_swallowed c + 1\<rparr>"

definition noteDead :: "dead_reason \<Rightarrow> flowCounters \<Rightarrow> flowCounters" where
  "noteDead reason c = c\<lparr>fc_deadRebuilds := fc_deadRebuilds c + 1, fc_lastDeadReason := Some reason\<rparr>"

text \<open>The maximum is never lost to a race: whatever the others store, as long as each only raises
  the cell, the loop leaves it at least at its own cost and never lowers it.\<close>

lemma cas_max_bounds:
  "sorted (cur # others) \<Longrightarrow> cur \<le> cas_max ns others cur \<and> ns \<le> cas_max ns others cur"
  by (induction ns others cur rule: cas_max.induct) fastforce+

lemma cas_max_quiet [simp]: "cas_max ns [] cur = max ns cur"
  by simp

section \<open>Session counters\<close>

record sessionStats =
  ss_connects :: u64
  ss_reconnectRounds :: u64
  ss_reconnectFailures :: u64
  ss_handshakeAttempts :: u64
  ss_handshakeFailures :: u64
  ss_hbSent :: u64
  ss_hbFailures :: u64
  ss_hbRejects :: u64
  ss_flow :: flowCounters
  ss_lastReconnectErr :: "err option"
  ss_lastHandshakeErr :: "err option"
  ss_firstHBErr :: "err option"
  ss_lastHBErr :: "err option"

definition new_stats :: sessionStats where
  "new_stats = \<lparr>ss_connects = 0, ss_reconnectRounds = 0, ss_reconnectFailures = 0, ss_handshakeAttempts = 0,
     ss_handshakeFailures = 0, ss_hbSent = 0, ss_hbFailures = 0, ss_hbRejects = 0, ss_flow = new_flowCounters,
     ss_lastReconnectErr = None, ss_lastHandshakeErr = None, ss_firstHBErr = None, ss_lastHBErr = None\<rparr>"

definition noteConnect :: "sessionStats \<Rightarrow> sessionStats" where
  "noteConnect st = st\<lparr>ss_connects := ss_connects st + 1\<rparr>"

definition noteHandshake :: "err option \<Rightarrow> sessionStats \<Rightarrow> sessionStats" where
  "noteHandshake r st =
     (let st = st\<lparr>ss_handshakeAttempts := ss_handshakeAttempts st + 1\<rparr> in
      case r of
        None \<Rightarrow> st
      | Some x \<Rightarrow> st\<lparr>ss_handshakeFailures := ss_handshakeFailures st + 1, ss_lastHandshakeErr := Some x\<rparr>)"

definition noteReconnectRound :: "err option \<Rightarrow> sessionStats \<Rightarrow> sessionStats" where
  "noteReconnectRound r st =
     (let st = st\<lparr>ss_reconnectRounds := ss_reconnectRounds st + 1\<rparr> in
      case r of
        None \<Rightarrow> st
      | Some x \<Rightarrow> st\<lparr>ss_reconnectFailures := ss_reconnectFailures st + 1, ss_lastReconnectErr := Some x\<rparr>)"

definition noteHeartbeatSent :: "sessionStats \<Rightarrow> sessionStats" where
  "noteHeartbeatSent st = st\<lparr>ss_hbSent := ss_hbSent st + 1\<rparr>"

definition setLastHeartbeatErr :: "err \<Rightarrow> sessionStats \<Rightarrow> sessionStats" where
  "setLastHeartbeatErr x st = st\<lparr>ss_lastHBErr := Some x\<rparr>"

definition noteHeartbeatFailure :: "err \<Rightarrow> sessionStats \<Rightarrow> sessionStats" where
  "noteHeartbeatFailure x st = setLastHeartbeatErr x (st\<lparr>ss_hbFailures := ss_hbFailures st + 1\<rparr>)"

definition noteHeartbeatReject :: "err \<Rightarrow> sessionStats \<Rightarrow> sessionStats" where
  "noteHeartbeatReject x st =
     (let st = st\<lparr>ss_hbRejects := ss_hbRejects st + 1\<rparr>;
          st = (if ss_firstHBErr st = None then st\<lparr>ss_firstHBErr := Some x\<rparr> else st)
      in st\<lparr>ss_lastHBErr := Some x\<rparr>)"

definition firstHeartbeatErr :: "sessionStats \<Rightarrow> err option" where
  "firstHeartbeatErr st = ss_firstHBErr st"

text \<open>\<open>Stats\<close> and \<open>snapshot\<close> copy the fields in another order; the copies are these records.\<close>

record FlowStats =
  fs_Switches :: u64
  fs_SwitchFailures :: u64
  fs_SwallowedWrites :: u64
  fs_DeadRebuilds :: u64
  fs_LastSwitchCost :: duration
  fs_MaxSwitchCost :: duration
  fs_LastSwitchErr :: "err option"
  fs_LastDeadReason :: "dead_reason option"

definition flow_snapshot :: "flowCounters \<Rightarrow> FlowStats" where
  "flow_snapshot c = \<lparr>fs_Switches = fc_switches c, fs_SwitchFailures = fc_switchFailures c,
     fs_SwallowedWrites = fc_swallowed c, fs_DeadRebuilds = fc_deadRebuilds c,
     fs_LastSwitchCost = fc_lastCostNs c, fs_MaxSwitchCost = fc_maxCostNs c,
     fs_LastSwitchErr = fc_lastSwitchErr c, fs_LastDeadReason = fc_lastDeadReason c\<rparr>"

record Stats =
  st_Connects :: u64
  st_ReconnectRounds :: u64
  st_ReconnectFailures :: u64
  st_LastReconnectErr :: "err option"
  st_HandshakeAttempts :: u64
  st_HandshakeFailures :: u64
  st_LastHandshakeErr :: "err option"
  st_HeartbeatSent :: u64
  st_HeartbeatFailures :: u64
  st_HeartbeatRejects :: u64
  st_LastHeartbeatErr :: "err option"
  st_Flow :: FlowStats

definition Session_Stats :: "sessionStats \<Rightarrow> Stats" where
  "Session_Stats st = \<lparr>st_Connects = ss_connects st, st_ReconnectRounds = ss_reconnectRounds st,
     st_ReconnectFailures = ss_reconnectFailures st, st_LastReconnectErr = ss_lastReconnectErr st,
     st_HandshakeAttempts = ss_handshakeAttempts st, st_HandshakeFailures = ss_handshakeFailures st,
     st_LastHandshakeErr = ss_lastHandshakeErr st, st_HeartbeatSent = ss_hbSent st,
     st_HeartbeatFailures = ss_hbFailures st, st_HeartbeatRejects = ss_hbRejects st,
     st_LastHeartbeatErr = ss_lastHBErr st, st_Flow = flow_snapshot (ss_flow st)\<rparr>"

section \<open>What a snapshot says\<close>

text \<open>The notes a session takes, and the accumulator after a sequence of them.\<close>

datatype stat_event =
    Connect | Handshake "err option" | Round "err option"
  | ProbeSent | ProbeFailed err | ProbeRejected err
  | Switched duration | SwitchFailed err | Swallowed | Died dead_reason

fun note_do :: "stat_event \<Rightarrow> sessionStats \<Rightarrow> sessionStats" where
  "note_do Connect st = noteConnect st"
| "note_do (Handshake r) st = noteHandshake r st"
| "note_do (Round r) st = noteReconnectRound r st"
| "note_do ProbeSent st = noteHeartbeatSent st"
| "note_do (ProbeFailed x) st = noteHeartbeatFailure x st"
| "note_do (ProbeRejected x) st = noteHeartbeatReject x st"
| "note_do (Switched d) st = st\<lparr>ss_flow := noteSwitch d [] (ss_flow st)\<rparr>"
| "note_do (SwitchFailed x) st = st\<lparr>ss_flow := noteSwitchFailure x (ss_flow st)\<rparr>"
| "note_do Swallowed st = st\<lparr>ss_flow := flow_noteSwallowed (ss_flow st)\<rparr>"
| "note_do (Died r) st = st\<lparr>ss_flow := noteDead r (ss_flow st)\<rparr>"

definition notes_do :: "stat_event list \<Rightarrow> sessionStats" where
  "notes_do ns = foldl (\<lambda>st n. note_do n st) new_stats ns"

definition count_notes :: "(stat_event \<Rightarrow> bool) \<Rightarrow> stat_event list \<Rightarrow> u64" where
  "count_notes P ns = of_nat (length (filter P ns))"

fun rejection :: "stat_event \<Rightarrow> err option" where
  "rejection (ProbeRejected x) = Some x" | "rejection _ = None"

fun probe_error :: "stat_event \<Rightarrow> err option" where
  "probe_error (ProbeRejected x) = Some x" | "probe_error (ProbeFailed x) = Some x" | "probe_error _ = None"

fun switch_cost :: "stat_event \<Rightarrow> duration option" where
  "switch_cost (Switched d) = Some d" | "switch_cost _ = None"

lemmas note_defs = noteConnect_def noteHandshake_def noteReconnectRound_def noteHeartbeatSent_def
  noteHeartbeatFailure_def setLastHeartbeatErr_def noteHeartbeatReject_def noteSwitch_def
  noteSwitchFailure_def flow_noteSwallowed_def noteDead_def

lemma notes_do_snoc: "notes_do (ns @ [n]) = note_do n (notes_do ns)"
  by (simp add: notes_do_def)

lemma count_notes_simps [simp]:
  "count_notes P [] = 0" "count_notes P (ns @ [n]) = count_notes P ns + (if P n then 1 else 0)"
  by (simp_all add: count_notes_def)

lemma first_some_snoc: "first_some f (xs @ [x]) = (case first_some f xs of Some y \<Rightarrow> Some y | None \<Rightarrow> f x)"
  by (induction xs) (auto split: option.splits)

text \<open>
  A snapshot after any sequence of events: attempts count every handshake and failures the
  failed ones, rounds likewise; \<open>HeartbeatErr\<close> is the first rejection and is never
  overwritten, \<open>LastHeartbeatErr\<close> the latest failure or rejection; the greatest switch cost is
  the maximum over all switches. Counters wrap at 2^64.
\<close>

theorem stats_account:
  "let st = Session_Stats (notes_do ns) in
     st_HandshakeAttempts st = count_notes (\<lambda>n. \<exists>r. n = Handshake r) ns
   \<and> st_HandshakeFailures st = count_notes (\<lambda>n. \<exists>x. n = Handshake (Some x)) ns
   \<and> st_ReconnectRounds st = count_notes (\<lambda>n. \<exists>r. n = Round r) ns
   \<and> st_ReconnectFailures st = count_notes (\<lambda>n. \<exists>x. n = Round (Some x)) ns
   \<and> st_HeartbeatRejects st = count_notes (\<lambda>n. rejection n \<noteq> None) ns
   \<and> firstHeartbeatErr (notes_do ns) = first_some rejection ns
   \<and> st_LastHeartbeatErr st = first_some probe_error (rev ns)
   \<and> fs_Switches (st_Flow st) = count_notes (\<lambda>n. switch_cost n \<noteq> None) ns
   \<and> fs_MaxSwitchCost (st_Flow st) = fold max (List.map_filter switch_cost ns) 0"
proof -
  let ?P = "\<lambda>ns st. ss_handshakeAttempts st = count_notes (\<lambda>n. \<exists>r. n = Handshake r) ns
   \<and> ss_handshakeFailures st = count_notes (\<lambda>n. \<exists>x. n = Handshake (Some x)) ns
   \<and> ss_reconnectRounds st = count_notes (\<lambda>n. \<exists>r. n = Round r) ns
   \<and> ss_reconnectFailures st = count_notes (\<lambda>n. \<exists>x. n = Round (Some x)) ns
   \<and> ss_hbRejects st = count_notes (\<lambda>n. rejection n \<noteq> None) ns
   \<and> ss_firstHBErr st = first_some rejection ns
   \<and> ss_lastHBErr st = first_some probe_error (rev ns)
   \<and> fc_switches (ss_flow st) = count_notes (\<lambda>n. switch_cost n \<noteq> None) ns
   \<and> fc_maxCostNs (ss_flow st) = fold max (List.map_filter switch_cost ns) 0"
  have "?P ns (notes_do ns)"
  proof (induction ns rule: rev_induct)
    case Nil
    then show ?case by (simp add: notes_do_def new_stats_def new_flowCounters_def map_filter_simps)
  next
    case (snoc n ns)
    then show ?case
      unfolding notes_do_snoc
      by (cases n) (auto simp: note_defs Let_def first_some_snoc map_filter_def split: option.splits)
  qed
  then show ?thesis by (simp add: Session_Stats_def flow_snapshot_def firstHeartbeatErr_def Let_def)
qed

end
