(* ===== verification/DirectTerminal.thy ===== *)
theory DirectTerminal
  imports DirectPlan DirectStats Channel
begin

text \<open>
  The direct session's state and its terminal states (\<open>direct/terminal.go\<close>, \<open>direct/ended.go\<close>,
  the fields and small operations of \<open>direct/session.go\<close>). Every operation is a function on
  the session; \<open>markEnded\<close> is composed of the same pieces that the interleaved model of
  \<open>DirectRace\<close> runs as separate steps. Texts that no code branches on are short labels.
\<close>

section \<open>Terminal reasons (direct/terminal.go)\<close>

definition reasonBattleEnded :: string where "reasonBattleEnded = ''BATTLE_ENDED''"
definition reasonBattleNotFound :: string where "reasonBattleNotFound = ''BATTLE_NOT_FOUND''"
definition reasonBattleFull :: string where "reasonBattleFull = ''BATTLE_FULL''"
definition reasonFrameTargetMismatch :: string where "reasonFrameTargetMismatch = ''FRAME_TARGET_MISMATCH''"
definition reasonTicketExpired :: string where "reasonTicketExpired = ''BATTLE_TICKET_EXPIRED''"
definition reasonTicketInvalid :: string where "reasonTicketInvalid = ''BATTLE_TICKET_INVALID''"

lemmas reason_defs = reasonBattleEnded_def reasonBattleNotFound_def reasonBattleFull_def
  reasonFrameTargetMismatch_def reasonTicketExpired_def reasonTicketInvalid_def

definition codeBattleEnded :: int32 where "codeBattleEnded = 409"
definition codeBattleNotFound :: int32 where "codeBattleNotFound = 404"
definition codeBattleFull :: int32 where "codeBattleFull = 409"
definition codeFrameTargetMismatch :: int32 where "codeFrameTargetMismatch = 403"

lemmas code_defs = codeBattleEnded_def codeBattleNotFound_def codeBattleFull_def codeFrameTargetMismatch_def

definition localSettledKey :: string where "localSettledKey = ''x-atlas-sdk-local-settled''"

record terminalReason =
  tr_reason :: string
  tr_sentinel :: sentinel
  tr_code :: int32

definition terminalReasons :: "terminalReason list" where
  "terminalReasons =
     [\<lparr>tr_reason = reasonBattleEnded, tr_sentinel = ErrBattleEnded, tr_code = codeBattleEnded\<rparr>,
      \<lparr>tr_reason = reasonBattleNotFound, tr_sentinel = ErrBattleNotFound, tr_code = codeBattleNotFound\<rparr>,
      \<lparr>tr_reason = reasonBattleFull, tr_sentinel = ErrBattleFull, tr_code = codeBattleFull\<rparr>,
      \<lparr>tr_reason = reasonFrameTargetMismatch, tr_sentinel = ErrFrameTargetMismatch, tr_code = codeFrameTargetMismatch\<rparr>]"

definition terminalEntry :: "string \<Rightarrow> terminalReason option" where
  "terminalEntry reason = find (\<lambda>t. tr_reason t = reason) terminalReasons"

definition terminalSentinel :: "string \<Rightarrow> sentinel option" where
  "terminalSentinel reason = (case terminalEntry reason of Some t \<Rightarrow> Some (tr_sentinel t) | None \<Rightarrow> None)"

definition terminalCode :: "string \<Rightarrow> int32" where
  "terminalCode reason = (case terminalEntry reason of Some t \<Rightarrow> tr_code t | None \<Rightarrow> codeBattleEnded)"

definition IsTerminal :: "err option \<Rightarrow> bool" where
  "IsTerminal r = (case r of None \<Rightarrow> False | Some x \<Rightarrow> list_ex (\<lambda>t. errors_is x (tr_sentinel t)) terminalReasons)"

definition battleEndReason :: "string \<Rightarrow> bool" where
  "battleEndReason reason \<longleftrightarrow> reason = reasonBattleEnded"

definition terminalMessage :: "string \<Rightarrow> string" where
  "terminalMessage reason =
     (if reason = reasonBattleNotFound then ''battle not found''
      else if reason = reasonBattleFull then ''battle full''
      else if reason = reasonFrameTargetMismatch then ''target mismatch''
      else ''battle ended'')"

definition terminalStatus :: "string \<Rightarrow> Status" where
  "terminalStatus reason = \<lparr>st_code = terminalCode reason, st_reason = reason,
     st_message = terminalMessage reason, st_metadata = [(localSettledKey, ''true'')],
     st_class = ClassBusiness\<rparr>"

definition terminalBusinessError :: "Status \<Rightarrow> business" where
  "terminalBusinessError st = \<lparr>be_code = st_code st, be_reason = st_reason st,
     be_message = st_message st, be_metadata = st_metadata st, be_class = st_class st\<rparr>"

definition businessClass :: "string \<Rightarrow> Class \<Rightarrow> Class" where
  "businessClass reason cls =
     (if cls = ClassUnspecified \<and> terminalSentinel reason \<noteq> None then ClassBusiness else cls)"

definition isLocalEnded :: "err \<Rightarrow> bool" where
  "isLocalEnded x = (case as_business x of
     None \<Rightarrow> False | Some be \<Rightarrow> map_of (be_metadata be) localSettledKey = Some ''true'')"

definition terminalReject :: "string \<Rightarrow> sentinel \<Rightarrow> business \<Rightarrow> err" where
  "terminalReject op s be = Wrap op [Sentinel s, BusinessError be]"

lemma terminalEntry_eqs [simp]:
  "terminalEntry reasonBattleEnded = Some \<lparr>tr_reason = reasonBattleEnded, tr_sentinel = ErrBattleEnded, tr_code = codeBattleEnded\<rparr>"
  "terminalEntry reasonBattleNotFound = Some \<lparr>tr_reason = reasonBattleNotFound, tr_sentinel = ErrBattleNotFound, tr_code = codeBattleNotFound\<rparr>"
  "terminalEntry reasonBattleFull = Some \<lparr>tr_reason = reasonBattleFull, tr_sentinel = ErrBattleFull, tr_code = codeBattleFull\<rparr>"
  "terminalEntry reasonFrameTargetMismatch = Some \<lparr>tr_reason = reasonFrameTargetMismatch, tr_sentinel = ErrFrameTargetMismatch, tr_code = codeFrameTargetMismatch\<rparr>"
  "terminalEntry reasonTicketExpired = None" "terminalEntry reasonTicketInvalid = None"
  by (simp_all add: terminalEntry_def terminalReasons_def reason_defs)

text \<open>The four reasons, as a case rule for what the table holds.\<close>

definition terminal_reason :: "string \<Rightarrow> bool" where
  "terminal_reason reason \<longleftrightarrow> terminalEntry reason \<noteq> None"

lemma terminalEntry_cases [consumes 1, case_names ended not_found full mismatch]:
  assumes "terminalEntry reason = Some t"
  obtains "reason = reasonBattleEnded" "tr_sentinel t = ErrBattleEnded"
    | "reason = reasonBattleNotFound" "tr_sentinel t = ErrBattleNotFound"
    | "reason = reasonBattleFull" "tr_sentinel t = ErrBattleFull"
    | "reason = reasonFrameTargetMismatch" "tr_sentinel t = ErrFrameTargetMismatch"
  using assms by (auto simp: terminalEntry_def terminalReasons_def split: if_splits)

section \<open>The session (direct/session.go)\<close>

type_synonym DState = byte

definition DStateConnected :: DState where "DStateConnected = 1"
definition DStateReconnecting :: DState where "DStateReconnecting = 2"
definition DStateDisconnected :: DState where "DStateDisconnected = 3"
definition DStateEnded :: DState where "DStateEnded = 4"
definition DStateFailed :: DState where "DStateFailed = 5"

lemmas dstate_consts = DStateConnected_def DStateReconnecting_def DStateDisconnected_def
  DStateEnded_def DStateFailed_def

definition DState_String :: "DState \<Rightarrow> string" where
  "DState_String s =
     (if s = DStateConnected then ''connected'' else if s = DStateReconnecting then ''reconnecting''
      else if s = DStateDisconnected then ''disconnected'' else if s = DStateEnded then ''ended''
      else if s = DStateFailed then ''failed'' else ''state'')"

record endedState =
  en_flag :: bool
  en_failed :: bool
  en_reason :: string
  en_cause :: "err option"
  en_raw :: "bytes option"
  en_noticed :: bool
  en_replays :: u64
  en_differs :: u64

text \<open>
  A generation is its transport's number, which also names its \<open>done\<close> channel. \<open>ds_mail\<close> are the
  results put on the one-slot channels of the requests, \<open>ds_wire\<close> the frames written,
  \<open>ds_answered\<close> what the waiters of \<open>Reconnect\<close> were sent, \<open>ds_lingers\<close> the \<open>waitLinger\<close>
  goroutines, \<open>ds_calls\<close> the handler calls started, each with the operation it was for. A push handler is a number; its key \<open>fn:n\<close> is
  the number \<open>n\<close>.
\<close>

record dsession =
  ds_plan :: Plan
  ds_kind :: DTransport
  ds_addr :: string
  ds_opt :: options
  ds_ver :: byte
  ds_gen :: "nat option"
  ds_closed :: bool
  ds_fatal :: "err option"
  ds_waiters :: "nat list"
  ds_answered :: "(nat \<times> err option) list"
  ds_seq :: u32
  ds_inflight :: "(u32 \<times> nat) list"
  ds_next_box :: nat
  ds_mail :: "(nat \<times> invokeResult) list"
  ds_state :: DState
  ds_handlers :: "(bytes \<times> (u64 \<times> nat) list) list"
  ds_handlerSeq :: u64
  ds_lastSeen :: u64
  ds_stats :: sessionStats
  ds_end :: endedState
  ds_closed_trs :: "nat list"
  ds_wire :: "(nat \<times> header \<times> bytes) list"
  ds_lingers :: nat
  ds_calls :: "(bytes \<times> nat \<times> bytes \<times> byte) list"

definition no_end :: endedState where
  "no_end = \<lparr>en_flag = False, en_failed = False, en_reason = [], en_cause = None, en_raw = None,
     en_noticed = False, en_replays = 0, en_differs = 0\<rparr>"

definition newSession :: "Plan \<Rightarrow> DTransport \<Rightarrow> string \<Rightarrow> options \<Rightarrow> err + dsession" where
  "newSession plan kind addr o' =
     (case validateSwitchOptions o' of
        Some x \<Rightarrow> Inl x
      | None \<Rightarrow>
          (case payloadVersion (d_serial o') of
             Inl x \<Rightarrow> Inl x
           | Inr ver \<Rightarrow> Inr \<lparr>ds_plan = plan, ds_kind = kind, ds_addr = addr, ds_opt = o', ds_ver = ver,
               ds_gen = None, ds_closed = False, ds_fatal = None, ds_waiters = [], ds_answered = [],
               ds_seq = 0, ds_inflight = [], ds_next_box = 0, ds_mail = [], ds_state = DStateDisconnected,
               ds_handlers = [], ds_handlerSeq = 0, ds_lastSeen = 0, ds_stats = new_stats,
               ds_end = no_end, ds_closed_trs = [], ds_wire = [], ds_lingers = 0, ds_calls = []\<rparr>))"

definition dclose_tr :: "nat \<Rightarrow> dsession \<Rightarrow> dsession" where
  "dclose_tr tr s = s\<lparr>ds_closed_trs := tr # ds_closed_trs s\<rparr>"

definition closeCurrent :: "dsession \<Rightarrow> dsession" where
  "closeCurrent s = (case ds_gen s of None \<Rightarrow> s | Some g \<Rightarrow> dclose_tr g s)"

text \<open>\<open>setState\<close>: the test under the lock, then the store.\<close>

definition setState_allowed :: "DState \<Rightarrow> dsession \<Rightarrow> bool" where
  "setState_allowed st s \<longleftrightarrow>
     \<not> (en_flag (ds_end s) \<and> st \<noteq> DStateEnded \<and> st \<noteq> DStateFailed)
   \<and> \<not> (ds_closed s \<and> st \<noteq> DStateDisconnected \<and> st \<noteq> DStateEnded \<and> st \<noteq> DStateFailed)"

definition setState :: "DState \<Rightarrow> dsession \<Rightarrow> dsession" where
  "setState st s = (if setState_allowed st s then s\<lparr>ds_state := st\<rparr> else s)"

definition setFatal :: "err \<Rightarrow> dsession \<Rightarrow> dsession" where
  "setFatal x s = setState DStateDisconnected (s\<lparr>ds_fatal := Some x\<rparr>)"

section \<open>Settling requests (direct/session_invoke.go)\<close>

definition dput_mail :: "nat \<Rightarrow> invokeResult \<Rightarrow> dsession \<Rightarrow> dsession" where
  "dput_mail m r s = s\<lparr>ds_mail := ds_mail s @ [(m, r)]\<rparr>"

definition settle_key :: "u32 \<Rightarrow> invokeResult \<Rightarrow> dsession \<Rightarrow> dsession" where
  "settle_key key r s =
     (case LoadAndDelete key (ds_inflight s) of
        (Some m, t) \<Rightarrow> dput_mail m r (s\<lparr>ds_inflight := t\<rparr>)
      | (None, _) \<Rightarrow> s)"

definition settleInflight :: "invokeResult \<Rightarrow> dsession \<Rightarrow> dsession" where
  "settleInflight r s = fold (\<lambda>(key, _) s. settle_key key r s) (ds_inflight s) s"

definition failInflight :: "err option \<Rightarrow> dsession \<Rightarrow> dsession" where
  "failInflight cause s =
     settleInflight (err_result (case cause of None \<Rightarrow> Sentinel ErrClosed | Some x \<Rightarrow> x)) s"

definition terminal_result :: "string \<Rightarrow> invokeResult" where
  "terminal_result reason = \<lparr>r_data = [], r_st = Some (terminalStatus reason), r_err = None\<rparr>"

definition settleInflightTerminal :: "string \<Rightarrow> dsession \<Rightarrow> dsession" where
  "settleInflightTerminal reason s = settleInflight (terminal_result reason) s"

lemma settle_key_set:
  "distinct (map fst (ds_inflight s)) \<Longrightarrow>
     settle_key key r s = (case map_of (ds_inflight s) key of None \<Rightarrow> s
       | Some m \<Rightarrow> dput_mail m r (s\<lparr>ds_inflight := AList.delete key (ds_inflight s)\<rparr>))"
  by (simp add: settle_key_def LoadAndDelete_def split: option.split)

lemma settle_all:
  assumes "distinct (map fst kvs)" and "ds_inflight s = kvs"
  shows "fold (\<lambda>(key, _) s. settle_key key r s) kvs s
    = s\<lparr>ds_inflight := [], ds_mail := ds_mail s @ map (\<lambda>(_, m). (m, r)) kvs\<rparr>"
  using assms
proof (induction kvs arbitrary: s)
  case (Cons kv kvs)
  obtain k m where kv: "kv = (k, m)" by (cases kv)
  have "AList.delete k kvs = kvs" using Cons.prems(1) kv by (auto intro: delete_idem)
  then have "settle_key k r s = s\<lparr>ds_inflight := kvs, ds_mail := ds_mail s @ [(m, r)]\<rparr>"
    using Cons.prems kv by (simp add: settle_key_def LoadAndDelete_def dput_mail_def)
  then show ?case using Cons.IH[of "settle_key k r s"] Cons.prems kv by simp
qed simp

text \<open>Every pending request gets the result, once, and nothing is pending afterwards.\<close>

lemma settleInflight_eq:
  "distinct (map fst (ds_inflight s)) \<Longrightarrow>
     settleInflight r s = s\<lparr>ds_inflight := [], ds_mail := ds_mail s @ map (\<lambda>(_, m). (m, r)) (ds_inflight s)\<rparr>"
  by (simp add: settleInflight_def settle_all)

section \<open>Entering a terminal state (direct/ended.go)\<close>

definition Terminal :: "dsession \<Rightarrow> bool" where "Terminal s \<longleftrightarrow> en_flag (ds_end s)"
definition Ended :: "dsession \<Rightarrow> bool" where "Ended s \<longleftrightarrow> en_flag (ds_end s) \<and> \<not> en_failed (ds_end s)"
definition Session_Failed :: "dsession \<Rightarrow> bool" where "Session_Failed s \<longleftrightarrow> en_failed (ds_end s)"
definition EndCause :: "dsession \<Rightarrow> err option" where "EndCause s = en_cause (ds_end s)"
definition EndReason :: "dsession \<Rightarrow> string" where "EndReason s = en_reason (ds_end s)"
definition EndNotifyPayload :: "dsession \<Rightarrow> bytes option" where "EndNotifyPayload s = en_raw (ds_end s)"

record EndStats =
  es_First :: bool
  es_Replays :: u64
  es_Mismatches :: u64

definition Session_EndStats :: "dsession \<Rightarrow> EndStats" where
  "Session_EndStats s = \<lparr>es_First = en_noticed (ds_end s), es_Replays = en_replays (ds_end s),
     es_Mismatches = en_differs (ds_end s)\<rparr>"

definition endReason :: "dsession \<Rightarrow> string" where
  "endReason s = (if en_reason (ds_end s) = [] then reasonBattleEnded else en_reason (ds_end s))"

definition endedErr :: "string \<Rightarrow> dsession \<Rightarrow> err" where
  "endedErr what s =
     (let reason = endReason s in
      Wrap what ((case terminalSentinel reason of None \<Rightarrow> [] | Some x \<Rightarrow> [Sentinel x])
                 @ [BusinessError (terminalBusinessError (terminalStatus reason))]))"

definition startLinger :: "dsession \<Rightarrow> dsession" where
  "startLinger s =
     (if ds_closed s then s
      else if d_endLinger (ds_opt s) \<le> 0 then closeCurrent s
      else s\<lparr>ds_lingers := Suc (ds_lingers s)\<rparr>)"

text \<open>The two ends of \<open>waitLinger\<close>: the window has passed, or the session was closed.\<close>

definition linger_passed :: "dsession \<Rightarrow> dsession" where
  "linger_passed s = (closeCurrent s)\<lparr>ds_lingers := ds_lingers s - 1\<rparr>"

definition linger_closed :: "dsession \<Rightarrow> dsession" where
  "linger_closed s = s\<lparr>ds_lingers := ds_lingers s - 1\<rparr>"

text \<open>The pieces of \<open>markEnded\<close> in its order: the flag, failed, the reason and cause, the state, the requests, the connection.\<close>

definition end_flag :: "dsession \<Rightarrow> bool \<times> dsession" where
  "end_flag s = (if en_flag (ds_end s) then (False, s) else (True, s\<lparr>ds_end := (ds_end s)\<lparr>en_flag := True\<rparr>\<rparr>))"

definition end_failed :: "string \<Rightarrow> dsession \<Rightarrow> dsession" where
  "end_failed reason s =
     (if battleEndReason reason then s else s\<lparr>ds_end := (ds_end s)\<lparr>en_failed := True\<rparr>\<rparr>)"

definition end_cause :: "string \<Rightarrow> err option \<Rightarrow> dsession \<Rightarrow> dsession" where
  "end_cause reason cause s = s\<lparr>ds_end := (ds_end s)\<lparr>en_reason := reason, en_cause := cause\<rparr>\<rparr>"

definition end_state_of :: "string \<Rightarrow> DState" where
  "end_state_of reason = (if battleEndReason reason then DStateEnded else DStateFailed)"

definition end_connection :: "string \<Rightarrow> dsession \<Rightarrow> dsession" where
  "end_connection reason s = (if battleEndReason reason then startLinger s else closeCurrent s)"

definition markEnded :: "string \<Rightarrow> err option \<Rightarrow> dsession \<Rightarrow> bool \<times> dsession" where
  "markEnded reason cause s =
     (case end_flag s of
        (False, s) \<Rightarrow> (False, s)
      | (True, s) \<Rightarrow>
          let s = end_failed reason s;
              s = end_cause reason cause s;
              s = setState (end_state_of reason) s;
              s = settleInflightTerminal reason s
          in (True, end_connection reason s))"

definition notifyCause :: "dsession \<Rightarrow> err" where
  "notifyCause s = Wrap (p_BattleID (ds_plan s))
     [Sentinel ErrBattleEnded, BusinessError (terminalBusinessError (terminalStatus reasonBattleEnded))]"

definition noteEndNotify :: "bytes \<Rightarrow> dsession \<Rightarrow> bool \<times> dsession" where
  "noteEndNotify payload s =
     (if length payload = 0 then (False, s)
      else
        let en = ds_end s;
            first = \<not> en_noticed en;
            en = (if first then en\<lparr>en_noticed := True, en_raw := Some payload\<rparr>
                  else en\<lparr>en_replays := en_replays en + 1,
                          en_differs := en_differs en + (if en_raw en \<noteq> Some payload then 1 else 0)\<rparr>);
            s = s\<lparr>ds_end := en\<rparr>
        in (first, snd (markEnded reasonBattleEnded (Some (notifyCause s)) s)))"

lemmas end_pieces = end_flag_def end_failed_def end_cause_def end_state_of_def end_connection_def

end
