(* ===== verification/DirectInvoke.thy ===== *)
theory DirectInvoke
  imports DirectTerminal
begin

text \<open>
  Requests, replies, pushes and the keep-alive probe of a direct session
  (\<open>direct/session_invoke.go\<close>, \<open>direct/session_push.go\<close>, \<open>direct/heartbeat.go\<close>, the read loop and
  \<open>Close\<close> of \<open>direct/session.go\<close>). A request runs against the frames the read loop hands in while
  it waits and ends as one of the cases of \<open>awaitReply\<close>.
\<close>

section \<open>Sending (direct/session_invoke.go)\<close>

text \<open>What comes from outside: the transport's write, the serializer, the frame-number hook.\<close>

record denv =
  de_write :: "nat \<Rightarrow> header \<Rightarrow> bytes \<Rightarrow> err option"
  de_marshal :: "nat \<Rightarrow> err + bytes"
  de_unmarshal :: "bytes \<Rightarrow> err option"
  de_frame :: "nat \<Rightarrow> bytes \<Rightarrow> u64 option"

definition marshal_direct :: "denv \<Rightarrow> nat option \<Rightarrow> err + bytes" where
  "marshal_direct e req =
     (case req of
        None \<Rightarrow> Inr []
      | Some v \<Rightarrow>
          (case de_marshal e v of
             Inl x \<Rightarrow> Inl (NewProtocolError (Wrap ''marshal'' [x]))
           | Inr payload \<Rightarrow> Inr payload))"

definition newInflight :: "dsession \<Rightarrow> u32 \<times> nat \<times> dsession" where
  "newInflight s =
     (let seq = ds_seq s + 1;
          seq = (if seq = 0 then seq + 1 else seq);
          m = ds_next_box s
      in (seq, m, s\<lparr>ds_seq := seq, ds_next_box := Suc m, ds_inflight := Store seq m (ds_inflight s)\<rparr>))"

definition request_header :: "dsession \<Rightarrow> u32 \<Rightarrow> header" where
  "request_header s seq = \<lparr>hMagic = 0, hVersion = ds_ver s, hType = MsgTypeRequest, hFlags = FlagSession,
     hSeq = seq, hLength = 0\<rparr>"

text \<open>The tests of \<open>writeRequest\<close> around its lock are the same expression, evaluated twice.\<close>

definition writeRequest ::
  "denv \<Rightarrow> nat \<Rightarrow> u32 \<Rightarrow> string \<Rightarrow> bytes \<Rightarrow> dsession \<Rightarrow> (err option \<times> dsession) option" where
  "writeRequest e g seq op payload s =
     (if Terminal s then Some (Some (endedErr op s), s)
      else do {
        r \<leftarrow> BuildRequestBodyWithSession (bytes_of_string op)
               (bytes_of_string (TicketSlot (p_Ticket (ds_plan s)))) [] payload;
        (case r of
           Inl x \<Rightarrow> Some (Some (NewProtocolError x), s)
         | Inr body \<Rightarrow>
             let hdr = request_header s seq in
             if Terminal s then Some (Some (endedErr op s), s)
             else (case de_write e g hdr body of
                     Some x \<Rightarrow> Some (Some (NewNetworkError (Wrap op [x])), s)
                   | None \<Rightarrow> Some (None, s\<lparr>ds_wire := ds_wire s @ [(g, hdr, body)]\<rparr>)))
      })"

datatype dstarted = DPanicked | DFailed err | DWaiting u32 nat

definition dinvoke_send :: "denv \<Rightarrow> string \<Rightarrow> nat option \<Rightarrow> dsession \<Rightarrow> dstarted \<times> dsession" where
  "dinvoke_send e op req s =
     (case ds_gen s of
        None \<Rightarrow> (DFailed (net_err ''no connection''), s)
      | Some g \<Rightarrow>
          (case marshal_direct e req of
             Inl x \<Rightarrow> (DFailed x, s)
           | Inr payload \<Rightarrow>
               let (seq, m, s) = newInflight s in
               (case writeRequest e g seq op payload s of
                  None \<Rightarrow> (DPanicked, s)
                | Some (Some x, s) \<Rightarrow> (DFailed x, s\<lparr>ds_inflight := Delete seq (ds_inflight s)\<rparr>)
                | Some (None, s) \<Rightarrow> (DWaiting seq m, s))))"

section \<open>Results\<close>

definition wrapBusiness :: "string \<Rightarrow> Status \<Rightarrow> dsession \<Rightarrow> err \<times> dsession" where
  "wrapBusiness op st s =
     (let be = \<lparr>be_code = st_code st, be_reason = st_reason st, be_message = st_message st,
            be_metadata = st_metadata st, be_class = businessClass (st_reason st) (st_class st)\<rparr>
      in if st_reason st = reasonTicketExpired then (Wrap op [Sentinel ErrTicketExpired, BusinessError be], s)
         else if st_reason st = reasonTicketInvalid then (Wrap op [Sentinel ErrTicketInvalid, BusinessError be], s)
         else (case terminalSentinel (st_reason st) of
                 Some sn \<Rightarrow>
                   let ended = terminalReject op sn be
                   in (ended, snd (markEnded (st_reason st) (Some ended) s))
               | None \<Rightarrow> (BusinessError be, s)))"

definition result :: "denv \<Rightarrow> string \<Rightarrow> invokeResult \<Rightarrow> bool \<Rightarrow> dsession \<Rightarrow> err option \<times> dsession" where
  "result e op r resp s =
     (case r_err r of
        Some x \<Rightarrow> (Some x, s)
      | None \<Rightarrow>
          (case r_st r of
             Some st \<Rightarrow> (case wrapBusiness op st s of (x, s) \<Rightarrow> (Some x, s))
           | None \<Rightarrow>
               if resp \<and> 0 < length (r_data r)
               then (case de_unmarshal e (r_data r) of
                       Some x \<Rightarrow> (Some (NewProtocolError (Wrap op [x])), s)
                     | None \<Rightarrow> (None, s))
               else (None, s)))"

text \<open>
  How a wait ends: the result is there, the timer fires first, the context is done, the session
  is closed. \<open>None\<close>: this cannot happen now.
\<close>

datatype await_end = GotReply | TimerFires | CtxIsDone err | SessionClosed

definition dtake :: "denv \<Rightarrow> string \<Rightarrow> nat \<Rightarrow> bool \<Rightarrow> dsession \<Rightarrow> (err option \<times> dsession) option" where
  "dtake e op m resp s =
     (case map_of (ds_mail s) m of None \<Rightarrow> None | Some r \<Rightarrow> Some (result e op r resp s))"

definition dtimer :: "string \<Rightarrow> u32 \<Rightarrow> nat \<Rightarrow> dsession \<Rightarrow> dsession" where
  "dtimer op seq m s =
     (case LoadAndDelete seq (ds_inflight s) of
        (Some _, t) \<Rightarrow> dput_mail m (err_result (NewTimeoutError (Msg op))) (s\<lparr>ds_inflight := t\<rparr>)
      | (None, _) \<Rightarrow> s)"

text \<open>\<open>abort\<close>: claim the request, or take what its claimer sent, or give up after a second.\<close>

definition abort :: "denv \<Rightarrow> err \<Rightarrow> string \<Rightarrow> u32 \<Rightarrow> nat \<Rightarrow> bool \<Rightarrow> dsession \<Rightarrow> err option \<times> dsession" where
  "abort e x op seq m resp s =
     (case LoadAndDelete seq (ds_inflight s) of
        (Some _, t) \<Rightarrow> (Some (NewNetworkError x), s\<lparr>ds_inflight := t\<rparr>)
      | (None, _) \<Rightarrow>
          (case dtake e op m resp s of
             Some rs \<Rightarrow> rs
           | None \<Rightarrow> (Some (NewNetworkError x), s)))"

definition awaitReply ::
  "denv \<Rightarrow> string \<Rightarrow> u32 \<Rightarrow> nat \<Rightarrow> bool \<Rightarrow> await_end \<Rightarrow> dsession \<Rightarrow> (err option \<times> dsession) option" where
  "awaitReply e op seq m resp fate s =
     (case fate of
        GotReply \<Rightarrow> dtake e op m resp s
      | TimerFires \<Rightarrow> dtake e op m resp (dtimer op seq m s)
      | CtxIsDone x \<Rightarrow> Some (abort e x op seq m resp s)
      | SessionClosed \<Rightarrow> if ds_closed s then Some (Some (Sentinel ErrClosed), s) else None)"

section \<open>Replies\<close>

definition dispatchResponse_direct :: "header \<Rightarrow> bytes \<Rightarrow> dsession \<Rightarrow> (err option \<times> dsession) option" where
  "dispatchResponse_direct hdr body s =
     (if \<not> supportedVersion (hVersion hdr) then Some (Some (NewProtocolError (Msg ''version'')), s)
      else if hVersion hdr \<noteq> ds_ver s then Some (Some (NewProtocolError (Msg ''version mismatch'')), s)
      else do {
        d \<leftarrow> DecodeReply body;
        (case d of
           Inl x \<Rightarrow> Some (Some (NewProtocolError x), s)
         | Inr (dat, st) \<Rightarrow> Some (None, settle_key (hSeq hdr) \<lparr>r_data = dat, r_st = st, r_err = None\<rparr> s))
      })"

definition retryable :: "err \<Rightarrow> bool" where
  "retryable x \<longleftrightarrow> errors_is x ErrNetwork \<or> errors_is x ErrTimeout"

section \<open>Pushes (direct/ops.go, direct/session_push.go)\<close>

definition OpFrameBroadcast :: string where "OpFrameBroadcast = ''/battle.v1.FrameBroadcast''"
definition OpBattleEndNotify :: string where "OpBattleEndNotify = ''/battle.v1.BattleEndNotify''"

definition handlers_at :: "bytes \<Rightarrow> dsession \<Rightarrow> (u64 \<times> nat) list" where
  "handlers_at op s = (case map_of (ds_handlers s) op of None \<Rightarrow> [] | Some hs \<Rightarrow> hs)"

text \<open>\<open>OnPush\<close> returns its key, \<open>None\<close> for the no-op function; a nil handler is \<open>None\<close>.\<close>

definition OnPush :: "bytes \<Rightarrow> nat option \<Rightarrow> dsession \<Rightarrow> (bytes \<times> u64) option \<times> dsession" where
  "OnPush op fn s =
     (case fn of
        None \<Rightarrow> (None, s)
      | Some h \<Rightarrow>
          if op = [] then (None, s)
          else
            let key = ds_handlerSeq s + 1 in
            (Some (op, key), s\<lparr>ds_handlerSeq := key,
               ds_handlers := AList.update op (AList.update key h (handlers_at op s)) (ds_handlers s)\<rparr>))"

definition OnFrameRaw :: "nat option \<Rightarrow> dsession \<Rightarrow> (bytes \<times> u64) option \<times> dsession" where
  "OnFrameRaw fn s = (if fn = None then (None, s) else OnPush (bytes_of_string OpFrameBroadcast) fn s)"

text \<open>A handler that ignores the version is subscribed as any other; \<open>None\<close> is a nil function.\<close>

definition OnNotify :: "bytes \<Rightarrow> nat option \<Rightarrow> dsession \<Rightarrow> (bytes \<times> u64) option \<times> dsession" where
  "OnNotify op fn s = (if fn = None \<or> op = [] then (None, s) else OnPush op fn s)"

definition unsubscribe_direct :: "bytes \<Rightarrow> u64 \<Rightarrow> dsession \<Rightarrow> dsession" where
  "unsubscribe_direct op key s =
     (case map_of (ds_handlers s) op of
        None \<Rightarrow> s
      | Some hs \<Rightarrow>
          let hs = AList.delete key hs in
          s\<lparr>ds_handlers := (if hs = [] then AList.delete op (ds_handlers s) else AList.update op hs (ds_handlers s))\<rparr>)"

definition run_off_direct :: "(bytes \<times> u64) option \<Rightarrow> dsession \<Rightarrow> dsession" where
  "run_off_direct off s = (case off of None \<Rightarrow> s | Some (op, key) \<Rightarrow> unsubscribe_direct op key s)"

definition handlersOf :: "bytes \<Rightarrow> dsession \<Rightarrow> nat list" where
  "handlersOf op s = map snd (handlers_at op s)"

definition frameNumber :: "denv \<Rightarrow> bytes \<Rightarrow> dsession \<Rightarrow> u64 option" where
  "frameNumber e payload s =
     (case d_frameNumber (ds_opt s) of None \<Rightarrow> None | Some fn \<Rightarrow> de_frame e fn payload)"

definition trackFrame :: "denv \<Rightarrow> bytes \<Rightarrow> dsession \<Rightarrow> dsession" where
  "trackFrame e payload s =
     (case frameNumber e payload s of
        None \<Rightarrow> s
      | Some i \<Rightarrow> if i > ds_lastSeen s then s\<lparr>ds_lastSeen := i\<rparr> else s)"

definition dispatchNotify_direct :: "denv \<Rightarrow> byte \<Rightarrow> bytes \<Rightarrow> dsession \<Rightarrow> dsession option" where
  "dispatchNotify_direct e version body s =
     do {
       r \<leftarrow> ParseRequestBody body;
       (case r of
          Inl _ \<Rightarrow> Some s
        | Inr (op, payload) \<Rightarrow>
            let s = (if op = bytes_of_string OpFrameBroadcast then trackFrame e payload s else s);
                (go, s) = (if op = bytes_of_string OpBattleEndNotify then noteEndNotify payload s else (True, s))
            in Some (if go then s\<lparr>ds_calls := ds_calls s @ map (\<lambda>h. (op, h, payload, version)) (handlersOf op s)\<rparr> else s))
     }"

section \<open>The read loop and Close (direct/session.go)\<close>

definition dispatch_direct :: "denv \<Rightarrow> header \<Rightarrow> bytes \<Rightarrow> dsession \<Rightarrow> (err option \<times> dsession) option" where
  "dispatch_direct e hdr body s =
     (if hType hdr = MsgTypeResponse then dispatchResponse_direct hdr body s
      else if hType hdr = MsgTypeNotify
      then map_option (Pair None) (dispatchNotify_direct e (hVersion hdr) body s)
      else Some (Some (NewProtocolError (Msg ''frame type'')), s))"

text \<open>The frames read before the read loop stops; \<open>True\<close> when it has stopped on one of them.\<close>

fun dread_frames :: "denv \<Rightarrow> nat \<Rightarrow> (header \<times> bytes) list \<Rightarrow> dsession \<Rightarrow> (bool \<times> dsession) option" where
  "dread_frames e g [] s = Some (False, s)"
| "dread_frames e g ((hdr, body) # fs) s =
     (case dispatch_direct e hdr body s of
        None \<Rightarrow> None
      | Some (None, s) \<Rightarrow> dread_frames e g fs s
      | Some (Some x, s) \<Rightarrow> Some (True, dclose_tr g (failInflight (Some x) s)))"

text \<open>The whole loop: the frames, then the read error \<open>x\<close>.\<close>

definition dreadLoop :: "denv \<Rightarrow> nat \<Rightarrow> (header \<times> bytes) list \<Rightarrow> err \<Rightarrow> dsession \<Rightarrow> dsession option" where
  "dreadLoop e g fs x s =
     do {
       (stopped, s) \<leftarrow> dread_frames e g fs s;
       Some (if stopped then s else failInflight (Some (NewNetworkError (Wrap ''read'' [x]))) s)
     }"

definition finishWaiters :: "err option \<Rightarrow> dsession \<Rightarrow> dsession" where
  "finishWaiters r s = s\<lparr>ds_waiters := [], ds_answered := ds_answered s @ map (\<lambda>w. (w, r)) (ds_waiters s)\<rparr>"

definition Close_direct :: "dsession \<Rightarrow> dsession" where
  "Close_direct s =
     (if ds_closed s then s
      else
        let g = ds_gen s;
            s = s\<lparr>ds_closed := True\<rparr>;
            s = (case g of None \<Rightarrow> s | Some g \<Rightarrow> dclose_tr g s);
            s = failInflight (Some (Sentinel ErrClosed)) s;
            s = finishWaiters (Some (Sentinel ErrClosed)) s
        in setState DStateDisconnected s)"

section \<open>What a session shows of itself\<close>

definition Session_Transport :: "dsession \<Rightarrow> DTransport" where "Session_Transport s = ds_kind s"
definition Session_Endpoint :: "dsession \<Rightarrow> string" where "Session_Endpoint s = ds_addr s"
definition Session_Ticket :: "dsession \<Rightarrow> bytes" where "Session_Ticket s = p_Ticket (ds_plan s)"
definition Session_BattleID :: "dsession \<Rightarrow> string" where "Session_BattleID s = p_BattleID (ds_plan s)"
definition Session_LastSeenFrame :: "dsession \<Rightarrow> u64" where "Session_LastSeenFrame s = ds_lastSeen s"
definition Session_State :: "dsession \<Rightarrow> DState" where "Session_State s = ds_state s"
definition Session_Err :: "dsession \<Rightarrow> err option" where "Session_Err s = ds_fatal s"
definition HeartbeatPeriod :: "dsession \<Rightarrow> duration" where "HeartbeatPeriod s = d_heartbeat (ds_opt s)"
definition HeartbeatErr :: "dsession \<Rightarrow> err option" where "HeartbeatErr s = firstHeartbeatErr (ds_stats s)"

section \<open>A whole request\<close>

definition dinvoke ::
  "denv \<Rightarrow> string \<Rightarrow> nat option \<Rightarrow> bool \<Rightarrow> (header \<times> bytes) list \<Rightarrow> await_end \<Rightarrow> dsession \<Rightarrow> (err option \<times> dsession) option" where
  "dinvoke e op req resp fs fate s =
     (case dinvoke_send e op req s of
        (DPanicked, _) \<Rightarrow> None
      | (DFailed x, s) \<Rightarrow> Some (Some x, s)
      | (DWaiting seq m, s) \<Rightarrow> do {
          (_, s) \<leftarrow> dread_frames e (the (ds_gen s)) fs s;
          (r, s) \<leftarrow> awaitReply e op seq m resp fate s;
          Some (r, s\<lparr>ds_inflight := Delete seq (ds_inflight s)\<rparr>)
        })"

definition Invoke_direct ::
  "denv \<Rightarrow> string \<Rightarrow> nat option \<Rightarrow> bool \<Rightarrow> (header \<times> bytes) list \<Rightarrow> await_end \<Rightarrow> dsession \<Rightarrow> (err option \<times> dsession) option" where
  "Invoke_direct e op req resp fs fate s =
     (if Terminal s then Some (Some (endedErr op s), s)
      else if ds_state s \<noteq> DStateConnected then Some (Some (net_err ''not connected''), s)
      else dinvoke e op req resp fs fate s)"

section \<open>The probe (direct/heartbeat.go)\<close>

definition isBusinessReject :: "err \<Rightarrow> bool" where "isBusinessReject x \<longleftrightarrow> as_business x \<noteq> None"
definition isProtocolReject :: "err \<Rightarrow> bool" where "isProtocolReject x \<longleftrightarrow> as_protocol x \<noteq> None"

definition probeWindow :: "options \<Rightarrow> duration" where
  "probeWindow o' = min (d_heartbeat o') (d_invokeTimeout o')"

definition probe :: "denv \<Rightarrow> (header \<times> bytes) list \<Rightarrow> await_end \<Rightarrow> dsession \<Rightarrow> (err option \<times> dsession) option" where
  "probe e fs fate s = dinvoke e (d_probeOp (ds_opt s)) (d_probeReq (ds_opt s)) False fs fate s"

definition beat :: "denv \<Rightarrow> (header \<times> bytes) list \<Rightarrow> await_end \<Rightarrow> dsession \<Rightarrow> (bool \<times> dsession) option" where
  "beat e fs fate s =
     (if Terminal s then Some (False, s)
      else if ds_state s \<noteq> DStateConnected then Some (True, s)
      else do {
        (r, s) \<leftarrow> probe e fs fate s;
        Some (case r of
           None \<Rightarrow> (True, s\<lparr>ds_stats := noteHeartbeatSent (ds_stats s)\<rparr>)
         | Some x \<Rightarrow>
             if errors_is x ErrClosed then (False, s)
             else if Terminal s
             then (False, if isLocalEnded x then s else s\<lparr>ds_stats := noteHeartbeatReject x (ds_stats s)\<rparr>)
             else if isProtocolReject x \<or> isBusinessReject x
             then (True, s\<lparr>ds_stats := noteHeartbeatReject x (ds_stats s)\<rparr>)
             else (True, s\<lparr>ds_stats := noteHeartbeatFailure x (ds_stats s)\<rparr>))
      })"

definition startHeartbeat :: "nat \<Rightarrow> dsession \<Rightarrow> bool" where
  "startHeartbeat g s \<longleftrightarrow>
     \<not> (d_heartbeat (ds_opt s) \<le> 0 \<or> d_probeOp (ds_opt s) = []) \<and> \<not> (ds_closed s \<or> ds_gen s \<noteq> Some g)"

text \<open>One list element per tick, with what the read loop delivers until the probe's wait ends.\<close>

fun heartbeatLoop_direct ::
  "denv \<Rightarrow> ((header \<times> bytes) list \<times> await_end) list \<Rightarrow> dsession \<Rightarrow> (bool \<times> dsession) option" where
  "heartbeatLoop_direct e [] s = Some (True, s)"
| "heartbeatLoop_direct e ((fs, fate) # ticks) s =
     (case beat e fs fate s of
        None \<Rightarrow> None
      | Some (False, s) \<Rightarrow> Some (False, s)
      | Some (True, s) \<Rightarrow> heartbeatLoop_direct e ticks s)"


section \<open>What every operation keeps\<close>

text \<open>The errors a caller can branch on, and tables in order: keys once, results of such errors only.\<close>

definition dclassified :: "err option \<Rightarrow> bool" where
  "dclassified r = (case r of None \<Rightarrow> True
     | Some x \<Rightarrow> errors_is x ErrNetwork \<or> errors_is x ErrTimeout \<or> errors_is x ErrProtocol
         \<or> errors_is x ErrClosed \<or> as_business x \<noteq> None)"

definition dtable_ok :: "dsession \<Rightarrow> bool" where
  "dtable_ok s \<longleftrightarrow> distinct (map fst (ds_inflight s)) \<and> (\<forall>(m, r) \<in> set (ds_mail s). dclassified (r_err r))"

text \<open>
  \<open>served s t\<close>: from \<open>s\<close> to \<open>t\<close> no request lost its turn (it is still pending or has its result),
  no result vanished, nothing new is pending, and what identifies the session is the same.
\<close>

definition served :: "dsession \<Rightarrow> dsession \<Rightarrow> bool" where
  "served s t \<longleftrightarrow>
     (\<forall>k m. map_of (ds_inflight s) k = Some m \<longrightarrow>
        map_of (ds_inflight t) k = Some m \<or> m \<in> fst ` set (ds_mail t))
   \<and> fst ` set (ds_mail s) \<subseteq> fst ` set (ds_mail t)
   \<and> set (ds_inflight t) \<subseteq> set (ds_inflight s)
   \<and> dtable_ok t \<and> (Terminal s \<longrightarrow> Terminal t)
   \<and> ds_opt t = ds_opt s \<and> ds_plan t = ds_plan s \<and> ds_ver t = ds_ver s \<and> ds_gen t = ds_gen s
   \<and> ds_closed t = ds_closed s \<and> ds_stats t = ds_stats s \<and> ds_wire t = ds_wire s
   \<and> ds_waiters t = ds_waiters s \<and> ds_seq t = ds_seq s"

lemma served_refl [simp, intro]: "dtable_ok s \<Longrightarrow> served s s"
  by (auto simp: served_def)

lemma served_trans [trans]:
  assumes "served s t" and "served t u"
  shows "served s u"
proof -
  have "map_of (ds_inflight u) k = Some m \<or> m \<in> fst ` set (ds_mail u)" if "map_of (ds_inflight s) k = Some m" for k m
  proof -
    have "map_of (ds_inflight t) k = Some m \<or> m \<in> fst ` set (ds_mail t)"
      using assms(1) that by (simp only: served_def)
    then show ?thesis using assms(2) by (auto simp only: served_def)
  qed
  moreover have "fst ` set (ds_mail s) \<subseteq> fst ` set (ds_mail u)" "set (ds_inflight u) \<subseteq> set (ds_inflight s)"
    using assms unfolding served_def by (meson subset_trans)+
  moreover have "dtable_ok u" "Terminal s \<longrightarrow> Terminal u" "ds_opt u = ds_opt s" "ds_plan u = ds_plan s"
    "ds_ver u = ds_ver s" "ds_gen u = ds_gen s" "ds_closed u = ds_closed s" "ds_stats u = ds_stats s"
    "ds_wire u = ds_wire s" "ds_waiters u = ds_waiters s" "ds_seq u = ds_seq s"
    using assms unfolding served_def by simp_all
  ultimately show ?thesis unfolding served_def by blast
qed

lemma served_ok: "served s t \<Longrightarrow> dtable_ok t"
  by (simp add: served_def)

text \<open>Operations that leave the tables alone.\<close>

definition same_tables :: "dsession \<Rightarrow> dsession \<Rightarrow> bool" where
  "same_tables s t \<longleftrightarrow> ds_inflight t = ds_inflight s \<and> ds_mail t = ds_mail s
   \<and> ds_opt t = ds_opt s \<and> ds_plan t = ds_plan s \<and> ds_ver t = ds_ver s \<and> ds_gen t = ds_gen s
   \<and> ds_closed t = ds_closed s \<and> ds_stats t = ds_stats s \<and> ds_wire t = ds_wire s
   \<and> ds_waiters t = ds_waiters s \<and> ds_seq t = ds_seq s \<and> (Terminal s \<longrightarrow> Terminal t)"

lemma served_same: "same_tables s t \<Longrightarrow> dtable_ok s \<Longrightarrow> served s t"
  by (auto simp: same_tables_def served_def dtable_ok_def)

lemma same_tables_trans [trans]: "same_tables s t \<Longrightarrow> same_tables t u \<Longrightarrow> same_tables s u"
  by (simp add: same_tables_def)

lemma same_tables_basic [simp]:
  "same_tables s s" "same_tables s (dclose_tr g s)" "same_tables s (closeCurrent s)" "same_tables s (setState st s)"
  "same_tables s (startLinger s)" "same_tables s (end_connection reason s)" "same_tables s (trackFrame e p s)"
  "same_tables s (snd (end_flag s))" "same_tables s (end_failed reason s)" "same_tables s (end_cause reason cause s)"
  "same_tables s (s\<lparr>ds_calls := cs\<rparr>)"
  by (auto simp: same_tables_def dclose_tr_def closeCurrent_def setState_def startLinger_def end_connection_def
      trackFrame_def end_flag_def end_failed_def end_cause_def Terminal_def split: option.split)

lemma served_settle_key:
  assumes "dtable_ok s" and "dclassified (r_err r)"
  shows "served s (settle_key key r s)"
proof (cases "map_of (ds_inflight s) key")
  case None
  then show ?thesis using assms by (simp add: settle_key_def LoadAndDelete_def)
next
  case (Some m)
  have "set (AList.delete key (ds_inflight s)) \<subseteq> set (ds_inflight s)" by (rule delete_set_subset)
  moreover have "distinct (map fst (AList.delete key (ds_inflight s)))"
    using assms(1) unfolding dtable_ok_def by (simp add: distinct_delete)
  moreover have "map_of (ds_inflight s) key = Some ma \<Longrightarrow> ma = m" for ma using Some by simp
  ultimately show ?thesis
    using assms Some unfolding dtable_ok_def
    by (auto simp del: map_of_eq_Some_iff simp: settle_key_def LoadAndDelete_def dput_mail_def served_def dtable_ok_def delete_conv' Terminal_def)
qed

lemma served_settleInflight:
  assumes "dtable_ok s" and "dclassified (r_err r)"
  shows "served s (settleInflight r s) \<and> ds_inflight (settleInflight r s) = []"
proof -
  have "settleInflight r s = s\<lparr>ds_inflight := [], ds_mail := ds_mail s @ map (\<lambda>(_, m). (m, r)) (ds_inflight s)\<rparr>"
    using assms(1) by (simp add: settleInflight_eq dtable_ok_def)
  then show ?thesis using assms by (force simp: served_def dtable_ok_def Terminal_def dest!: map_of_SomeD)
qed

lemma served_failInflight:
  "dtable_ok s \<Longrightarrow> dclassified (Some x) \<Longrightarrow> served s (failInflight (Some x) s)"
  by (simp add: failInflight_def served_settleInflight err_result_def)

lemma markEnded_again: "Terminal s \<Longrightarrow> markEnded reason cause s = (False, s)"
  by (simp add: markEnded_def end_flag_def Terminal_def)

text \<open>The session at the settling step of the call of \<open>markEnded\<close> that wins.\<close>

definition end_marked :: "string \<Rightarrow> err option \<Rightarrow> dsession \<Rightarrow> dsession" where
  "end_marked reason cause s =
     setState (end_state_of reason) (end_cause reason cause (end_failed reason (snd (end_flag s))))"

lemma markEnded_first:
  "\<not> Terminal s \<Longrightarrow> markEnded reason cause s =
     (True, end_connection reason (settleInflightTerminal reason (end_marked reason cause s)))"
  by (simp add: markEnded_def end_flag_def end_marked_def Terminal_def Let_def)

lemma same_tables_end_marked: "same_tables s (end_marked reason cause s)"
proof -
  have "same_tables s (end_cause reason cause (end_failed reason (snd (end_flag s))))"
    by (meson same_tables_trans same_tables_basic)
  then show ?thesis unfolding end_marked_def by (rule same_tables_trans) simp
qed

lemma served_markEnded: "dtable_ok s \<Longrightarrow> served s (snd (markEnded reason cause s))"
proof (cases "Terminal s")
  case False
  assume ok: "dtable_ok s"
  let ?m = "end_marked reason cause s"
  have "served s ?m" using served_same[OF same_tables_end_marked ok] .
  also have "served ?m (settleInflightTerminal reason ?m)"
    using served_ok[OF calculation] by (simp add: settleInflightTerminal_def served_settleInflight terminal_result_def dclassified_def)
  finally have "served s (settleInflightTerminal reason ?m)" .
  also have "served \<dots> (end_connection reason (settleInflightTerminal reason ?m))"
    using served_ok[OF calculation] by (intro served_same) simp_all
  finally show ?thesis using False by (simp add: markEnded_first)
qed (simp add: markEnded_again)

lemma served_noteEndNotify: "dtable_ok s \<Longrightarrow> served s (snd (noteEndNotify payload s))"
proof -
  assume ok: "dtable_ok s"
  define u where "u = s\<lparr>ds_end := (if \<not> en_noticed (ds_end s) then (ds_end s)\<lparr>en_noticed := True, en_raw := Some payload\<rparr>
        else (ds_end s)\<lparr>en_replays := en_replays (ds_end s) + 1,
          en_differs := en_differs (ds_end s) + (if en_raw (ds_end s) \<noteq> Some payload then 1 else 0)\<rparr>)\<rparr>"
  have "served s u" using ok by (intro served_same) (auto simp: same_tables_def u_def Terminal_def)
  also have "served u (snd (markEnded reasonBattleEnded (Some (notifyCause u)) u))"
    by (rule served_markEnded[OF served_ok[OF calculation]])
  finally show ?thesis using ok by (auto simp: noteEndNotify_def u_def Let_def)
qed

end
