(* ===== verification/DirectRequests.thy ===== *)
theory DirectRequests
  imports DirectInvoke
begin

text \<open>
  What requests, rejections, pushes and the probe of a direct session guarantee. \<open>served\<close> carries
  the table invariant through every operation the read loop can run; the theorems are about
  whole requests, about the terminal reasons, about the end notification and about the
  subscriptions.
\<close>

section \<open>Requests return\<close>

lemma dclassified_new [simp]:
  "dclassified None" "dclassified (Some (NetworkError x))" "dclassified (Some (ProtocolError x))"
  "dclassified (Some (TimeoutError x))" "dclassified (Some (BusinessError b))" "dclassified (Some (Sentinel ErrClosed))"
  by (simp_all add: dclassified_def)

lemma endedErr_business:
  "as_business (endedErr what s) = Some (terminalBusinessError (terminalStatus (endReason s)))"
  by (simp add: endedErr_def Let_def split: option.split)

lemma dclassified_endedErr [simp]: "dclassified (Some (endedErr what s))"
  by (simp add: dclassified_def endedErr_business)

lemma served_dispatch:
  assumes "dtable_ok s"
  shows "\<exists>r t. dispatch_direct e hdr body s = Some (r, t) \<and> served s t \<and> dclassified r"
proof -
  obtain d where d: "DecodeReply body = Some d" using DecodeReply_total by blast
  obtain q where q: "ParseRequestBody body = Some q"
    using parseRequestBody_total[of body 0] by (auto simp: ParseRequestBody_def)
  have n: "\<exists>t. dispatchNotify_direct e v body s = Some t \<and> served s t" for v
  proof (cases q)
    case (Inr op_payload)
    obtain op payload where op: "op_payload = (op, payload)" by (cases op_payload)
    define u where "u = (if op = bytes_of_string OpFrameBroadcast then trackFrame e payload s else s)"
    define w where "w = (if op = bytes_of_string OpBattleEndNotify then noteEndNotify payload u else (True, u))"
    have "served s u" using assms by (intro served_same) (simp_all add: u_def)
    also have "served u (snd w)" using served_ok[OF calculation] by (simp add: w_def served_noteEndNotify)
    finally have sw: "served s (snd w)" .
    have "served (snd w) (if fst w then (snd w)\<lparr>ds_calls := cs\<rparr> else snd w)" for cs
      using served_ok[OF sw] by (intro served_same) simp_all
    moreover have "dispatchNotify_direct e v body s = Some (if fst w
        then (snd w)\<lparr>ds_calls := ds_calls (snd w) @ map (\<lambda>h. (op, h, payload, v)) (handlersOf op (snd w))\<rparr> else snd w)"
      using q Inr op by (simp add: dispatchNotify_direct_def u_def w_def case_prod_unfold Let_def)
    ultimately show ?thesis using served_trans[OF sw] by blast
  qed (use assms q in \<open>simp add: dispatchNotify_direct_def\<close>)
  show ?thesis
    using assms d n served_settle_key[OF assms]
    by (auto simp: dispatch_direct_def dispatchResponse_direct_def split: sum.splits prod.splits)
qed

lemma served_dread_frames:
  "dtable_ok s \<Longrightarrow> \<exists>b t. dread_frames e g fs s = Some (b, t) \<and> served s t"
proof (induction fs arbitrary: s)
  case (Cons f fs)
  obtain hdr body where f: "f = (hdr, body)" by (cases f)
  obtain r t where t: "dispatch_direct e hdr body s = Some (r, t)" "served s t" "dclassified r"
    using served_dispatch[OF Cons.prems] by blast
  show ?case
  proof (cases r)
    case None
    obtain b u where "dread_frames e g fs t = Some (b, u)" "served t u"
      using Cons.IH[OF served_ok[OF t(2)]] by blast
    then show ?thesis using f t None served_trans by auto
  next
    case (Some x)
    have "served t (failInflight (Some x) t)" using served_ok[OF t(2)] t(3) Some by (simp add: served_failInflight)
    also have "served \<dots> (dclose_tr g (failInflight (Some x) t))"
      using served_ok[OF calculation] by (intro served_same) simp_all
    finally show ?thesis using f t Some served_trans by auto
  qed
qed auto

lemma dinvoke_send_cases:
  assumes ok: "dtable_ok s"
  obtains (failed) x t where "dinvoke_send e op req s = (DFailed x, t)" "dclassified (Some x)" "dtable_ok t"
      "set (ds_inflight t) \<subseteq> set (ds_inflight s)" "ds_wire t = ds_wire s"
  | (waiting) g seq m t u body where "dinvoke_send e op req s = (DWaiting seq m, t)" "ds_gen s = Some g"
      "newInflight s = (seq, m, u)" "\<not> Terminal s"
      "t = u\<lparr>ds_wire := ds_wire s @ [(g, request_header s seq, body)]\<rparr>"
      "map_of (ds_inflight t) seq = Some m" "dtable_ok t"
      "\<And>kv. kv \<in> set (ds_inflight t) \<Longrightarrow> fst kv = seq \<or> kv \<in> set (ds_inflight s)"
proof (cases "ds_gen s")
  case (Some g)
  show ?thesis
  proof (cases "marshal_direct e req")
    case (Inl x)
    then have "dclassified (Some x)" by (auto simp: marshal_direct_def split: option.splits sum.splits)
    then show ?thesis using Some Inl ok by (intro failed[of x s]) (auto simp: dinvoke_send_def)
  next
    case (Inr payload)
    obtain seq m u where n: "newInflight s = (seq, m, u)" by (cases "newInflight s") auto
    have u: "u = s\<lparr>ds_seq := seq, ds_next_box := Suc m, ds_inflight := AList.update seq m (ds_inflight s)\<rparr>"
      using n by (auto simp: newInflight_def Store_def Let_def)
    have oku: "dtable_ok u" "map_of (ds_inflight u) seq = Some m" "Terminal u = Terminal s" "ds_plan u = ds_plan s"
        "request_header u = request_header s" "ds_wire u = ds_wire s" "endedErr what u = endedErr what s" for what
      using ok by (auto simp: u dtable_ok_def distinct_update update_conv' Terminal_def request_header_def fun_eq_iff
          endedErr_def endReason_def)
    have sub: "kv \<in> set (ds_inflight u) \<Longrightarrow> fst kv = seq \<or> kv \<in> set (ds_inflight s)" for kv
    proof -
      assume kv: "kv \<in> set (ds_inflight u)"
      moreover have "distinct (map fst (ds_inflight u))" "distinct (map fst (ds_inflight s))"
        using oku(1) ok unfolding dtable_ok_def by blast+
      ultimately have "map_of (ds_inflight u) (fst kv) = Some (snd kv)" by simp
      then show ?thesis by (auto simp: u update_conv' dest: map_of_SomeD split: if_splits)
    qed
    let ?del = "u\<lparr>ds_inflight := Delete seq (ds_inflight u)\<rparr>"
    have del: "dtable_ok ?del" "set (ds_inflight ?del) \<subseteq> set (ds_inflight s)"
    proof -
      show "dtable_ok ?del" using oku(1) by (simp add: dtable_ok_def Delete_def distinct_delete)
      show "set (ds_inflight ?del) \<subseteq> set (ds_inflight s)"
      proof
        fix kv assume "kv \<in> set (ds_inflight ?del)"
        then have "kv \<in> set (ds_inflight u)" "fst kv \<noteq> seq"
          using delete_set_subset[of seq "ds_inflight u"] by (auto simp: Delete_def AList.delete_eq)
        then show "kv \<in> set (ds_inflight s)" using sub by blast
      qed
    qed
    obtain r where w: "writeRequest e g seq op payload u = Some r
        \<and> ((\<exists>x. r = (Some x, u) \<and> dclassified (Some x))
           \<or> (\<exists>body. \<not> Terminal s \<and> r = (None, u\<lparr>ds_wire := ds_wire s @ [(g, request_header s seq, body)]\<rparr>)))"
    proof -
      let ?o = "bytes_of_string op" and ?t = "bytes_of_string (TicketSlot (p_Ticket (ds_plan s)))"
      obtain b where b: "BuildRequestBodyWithSession ?o ?t [] payload = Some b"
        using BuildRequestBodyFull_bad[of ?o ?t "[]"] body_round[of ?o ?t "[]"]
        unfolding BuildRequestBodyWithSession_def BuildRequestBodyFull_def by blast
      have "\<exists>r. writeRequest e g seq op payload u = Some r
        \<and> ((\<exists>x. r = (Some x, u) \<and> dclassified (Some x))
           \<or> (\<exists>body. \<not> Terminal s \<and> r = (None, u\<lparr>ds_wire := ds_wire s @ [(g, request_header s seq, body)]\<rparr>)))"
        using b oku by (auto simp: writeRequest_def Let_def split: sum.split option.split)
      then show ?thesis using that by blast
    qed
    from w consider (err) x where "writeRequest e g seq op payload u = Some (Some x, u)" "dclassified (Some x)"
      | (sent) body where "\<not> Terminal s"
        "writeRequest e g seq op payload u = Some (None, u\<lparr>ds_wire := ds_wire s @ [(g, request_header s seq, body)]\<rparr>)"
      by auto
    then show ?thesis
    proof cases
      case err
      then show ?thesis using Some Inr n del oku by (intro failed[of x ?del]) (simp_all add: dinvoke_send_def)
    next
      case sent
      then show ?thesis
        using Some Inr n oku sub
        by (intro waiting[of seq m "u\<lparr>ds_wire := ds_wire s @ [(g, request_header s seq, body)]\<rparr>" g u body])
          (auto simp: dinvoke_send_def dtable_ok_def)
    qed
  qed
qed (use ok in \<open>auto intro!: failed[of "net_err ''no connection''" s] simp: dinvoke_send_def\<close>)


lemma dclassified_wrapBusiness: "dclassified (Some (fst (wrapBusiness op st s)))"
  by (simp add: wrapBusiness_def terminalReject_def dclassified_def Let_def split: option.split)

lemma served_wrapBusiness: "dtable_ok s \<Longrightarrow> served s (snd (wrapBusiness op st s))"
  by (auto simp: wrapBusiness_def Let_def served_markEnded split: option.split)

lemma result_ok:
  "dtable_ok s \<Longrightarrow> dclassified (r_err r) \<Longrightarrow> result e op r resp s = (x, t) \<Longrightarrow> dclassified x \<and> served s t"
  using dclassified_wrapBusiness[of op "the (r_st r)" s] served_wrapBusiness[of s op "the (r_st r)"]
  by (auto simp: result_def split: option.splits if_splits prod.splits)

lemma dtake_ok:
  assumes "dtable_ok s"
  shows "(case dtake e op m resp s of None \<Rightarrow> m \<notin> fst ` set (ds_mail s) | Some (x, t) \<Rightarrow> dclassified x \<and> served s t)"
proof (cases "map_of (ds_mail s) m")
  case None
  then have "m \<notin> fst ` set (ds_mail s)" by (simp add: map_of_eq_None_iff)
  then show ?thesis using None by (simp add: dtake_def)
next
  case (Some r)
  then have "dclassified (r_err r)" using assms by (auto simp: dtable_ok_def dest: map_of_SomeD)
  then show ?thesis using Some result_ok[OF assms] by (auto simp: dtake_def split: prod.split)
qed

lemma awaitReply_returns:
  assumes ok: "dtable_ok s" and pend: "map_of (ds_inflight s) seq = Some m \<or> m \<in> fst ` set (ds_mail s)"
    and fate: "fate = TimerFires \<or> (\<exists>x. fate = CtxIsDone x)"
  shows "\<exists>r t. awaitReply e op seq m resp fate s = Some (r, t) \<and> dclassified r \<and> dtable_ok t
    \<and> set (ds_inflight t) \<subseteq> set (ds_inflight s)"
proof -
  have served: "served s t \<Longrightarrow> dtable_ok t \<and> set (ds_inflight t) \<subseteq> set (ds_inflight s)" for t
    by (simp add: served_def)
  have drop: "dtable_ok (s\<lparr>ds_inflight := AList.delete seq (ds_inflight s)\<rparr>)"
    using ok by (simp add: dtable_ok_def distinct_delete)
  from fate show ?thesis
  proof
    assume f: "fate = TimerFires"
    let ?u = "dtimer op seq m s"
    have "?u = settle_key seq (err_result (NewTimeoutError (Msg op))) s \<or> map_of (ds_inflight s) seq \<noteq> Some m"
      by (auto simp: dtimer_def settle_key_def LoadAndDelete_def split: option.split)
    have u: "dtable_ok ?u" "set (ds_inflight ?u) \<subseteq> set (ds_inflight s)" "m \<in> fst ` set (ds_mail ?u)"
      using ok pend drop delete_set_subset[of seq "ds_inflight s"]
      by (auto simp: dtimer_def LoadAndDelete_def dput_mail_def dtable_ok_def err_result_def split: option.split)
    obtain r t where "dtake e op m resp ?u = Some (r, t)" "dclassified r" "served ?u t"
      using dtake_ok[OF u(1), where e = e and op = op and m = m and resp = resp] u(3) by (auto split: option.splits)
    then show ?thesis using f u(2) by (auto simp: awaitReply_def served_def)
  next
    assume "\<exists>x. fate = CtxIsDone x"
    then obtain x where f: "fate = CtxIsDone x" by blast
    show ?thesis
      using f ok drop delete_set_subset[of seq "ds_inflight s"] dtake_ok[OF ok, where e = e and op = op and m = m and resp = resp]
      by (auto simp: awaitReply_def abort_def LoadAndDelete_def served_def split: option.splits prod.splits)
  qed
qed



definition quiet_denv :: denv where
  "quiet_denv = \<lparr>de_write = (\<lambda>_ _ _. None), de_marshal = (\<lambda>_. Inr []), de_unmarshal = (\<lambda>_. None),
     de_frame = (\<lambda>_ b. Some (of_nat (length b)))\<rparr>"

definition demo_plan :: Plan where
  "demo_plan = \<lparr>p_MatchID = ''m'', p_BattleID = ''b'', p_Ticket = [1, 2, 3], p_Endpoints = [(1, ''h:1'')], p_MaxNetworkGap = 0\<rparr>"

definition demo_session :: dsession where
  "demo_session = (projr (newSession demo_plan 1 ''h:1'' (defaultOptions\<lparr>d_probeOp := ''/p'', d_frameNumber := Some 0\<rparr>)))
     \<lparr>ds_gen := Some 0, ds_state := DStateConnected\<rparr>"

lemma demo_session_eqs [simp]:
  "ds_inflight demo_session = []" "ds_mail demo_session = []" "ds_gen demo_session = Some 0" "ds_seq demo_session = 0"
  "ds_state demo_session = DStateConnected" "ds_end demo_session = no_end" "ds_ver demo_session = 1"
  "ds_next_box demo_session = 0" "ds_handlers demo_session = []" "ds_handlerSeq demo_session = 0"
  "d_probeOp (ds_opt demo_session) = ''/p''" "ds_stats demo_session = new_stats" "ds_plan demo_session = demo_plan"
  "d_probeReq (ds_opt demo_session) = None" "ds_wire demo_session = []" "ds_closed demo_session = False"
  "d_frameNumber (ds_opt demo_session) = Some 0" "ds_lastSeen demo_session = 0" "ds_calls demo_session = []"
  "ds_waiters demo_session = []" "ds_closed_trs demo_session = []" "ds_fatal demo_session = None"
  by (simp_all add: demo_session_def newSession_def validateSwitchOptions_def defaultOptions_def payloadVersion_def
      ProtoJSONSerializer_def frame_consts)

lemma demo_ok [simp]: "dtable_ok demo_session" "\<not> Terminal demo_session" "\<not> Session_Failed demo_session"
  by (simp_all add: dtable_ok_def Terminal_def Session_Failed_def no_end_def)


section \<open>Rejections and terminal states\<close>

lemma markEnded_effect:
  assumes "\<not> Terminal s" and "dtable_ok s"
  shows "\<exists>t. markEnded reason cause s = (True, t) \<and> Terminal t
    \<and> ds_end t = (ds_end s)\<lparr>en_flag := True, en_failed := en_failed (ds_end s) \<or> \<not> battleEndReason reason,
        en_reason := reason, en_cause := cause\<rparr>
    \<and> ds_state t = end_state_of reason \<and> ds_inflight t = []
    \<and> ds_mail t = ds_mail s @ map (\<lambda>(_, m). (m, terminal_result reason)) (ds_inflight s)
    \<and> ds_handlers t = ds_handlers s \<and> ds_calls t = ds_calls s \<and> ds_lastSeen t = ds_lastSeen s"
proof -
  let ?m = "end_marked reason cause s"
  have m: "ds_end ?m = (ds_end s)\<lparr>en_flag := True, en_failed := en_failed (ds_end s) \<or> \<not> battleEndReason reason,
        en_reason := reason, en_cause := cause\<rparr>" "ds_state ?m = end_state_of reason" "ds_inflight ?m = ds_inflight s"
      "ds_mail ?m = ds_mail s" "ds_handlers ?m = ds_handlers s" "ds_calls ?m = ds_calls s" "ds_lastSeen ?m = ds_lastSeen s"
    using assms(1) by (auto simp: end_marked_def end_flag_def end_failed_def end_cause_def setState_def
        setState_allowed_def end_state_of_def Terminal_def dstate_consts)
  let ?t = "settleInflightTerminal reason ?m"
  have t: "?t = ?m\<lparr>ds_inflight := [], ds_mail := ds_mail s @ map (\<lambda>(_, m). (m, terminal_result reason)) (ds_inflight s)\<rparr>"
    using assms(2) m(3,4) by (simp add: settleInflightTerminal_def settleInflight_eq dtable_ok_def)
  have "ds_end (end_connection reason u) = ds_end u" "ds_state (end_connection reason u) = ds_state u"
    "ds_inflight (end_connection reason u) = ds_inflight u" "ds_mail (end_connection reason u) = ds_mail u"
    "ds_handlers (end_connection reason u) = ds_handlers u" "ds_calls (end_connection reason u) = ds_calls u"
    "ds_lastSeen (end_connection reason u) = ds_lastSeen u" for u
    by (simp_all add: end_connection_def startLinger_def closeCurrent_def dclose_tr_def split: option.split)
  then show ?thesis using assms(1) m by (simp add: markEnded_first t Terminal_def)
qed

lemma terminal_sentinels:
  "terminalEntry reason = Some tr \<Longrightarrow>
     tr_sentinel tr \<in> {ErrBattleEnded, ErrBattleNotFound, ErrBattleFull, ErrFrameTargetMismatch}
   \<and> tr_reason tr = reason \<and> tr \<in> set terminalReasons \<and> reason \<noteq> []"
proof -
  assume "terminalEntry reason = Some tr"
  then have "tr \<in> set terminalReasons" "tr_reason tr = reason"
    unfolding terminalEntry_def find_Some_iff by auto
  then show ?thesis by (auto simp: terminalReasons_def) (simp_all add: reason_defs)
qed

lemma IsTerminal_iff:
  "IsTerminal (Some x) \<longleftrightarrow>
     errors_is x ErrBattleEnded \<or> errors_is x ErrBattleNotFound \<or> errors_is x ErrBattleFull \<or> errors_is x ErrFrameTargetMismatch"
  by (simp add: IsTerminal_def terminalReasons_def)

lemma sentinel_of_reason:
  "terminalEntry reason = Some tr \<Longrightarrow>
     (tr_sentinel tr = ErrBattleEnded \<longleftrightarrow> reason = reasonBattleEnded)
   \<and> (tr_sentinel tr = ErrBattleNotFound \<longleftrightarrow> reason = reasonBattleNotFound)
   \<and> (tr_sentinel tr = ErrBattleFull \<longleftrightarrow> reason = reasonBattleFull)
   \<and> (tr_sentinel tr = ErrFrameTargetMismatch \<longleftrightarrow> reason = reasonFrameTargetMismatch)
   \<and> (reason, tr_code tr) \<in> {(reasonBattleEnded, 409), (reasonBattleNotFound, 404), (reasonBattleFull, 409),
        (reasonFrameTargetMismatch, 403)}"
proof -
  assume "terminalEntry reason = Some tr"
  then have "tr \<in> set terminalReasons" "tr_reason tr = reason" using terminal_sentinels by blast+
  then show ?thesis
    by (auto simp: terminalReasons_def reason_defs codeBattleEnded_def codeBattleNotFound_def codeBattleFull_def
        codeFrameTargetMismatch_def)
qed

text \<open>
  C14: A business rejection keeps the server's code, reason, text and metadata, is never retryable, and
  is told apart by its reason: the two ticket reasons by their sentinels, the four terminal
  reasons by theirs. A terminal reason ends the session there and then, as ended for
  \<open>BATTLE_ENDED\<close> and as failed otherwise, settles every pending request, and records the reason
  and the error itself as the cause; any other rejection leaves the session as it was.
\<close>

theorem business_rejection:
  assumes "dtable_ok s" and "\<not> Terminal s" and "\<not> Session_Failed s" and "wrapBusiness op st s = (x, t)"
  shows "as_business x = Some \<lparr>be_code = st_code st, be_reason = st_reason st, be_message = st_message st,
            be_metadata = st_metadata st, be_class = businessClass (st_reason st) (st_class st)\<rparr>
   \<and> \<not> retryable x
   \<and> errors_is x ErrTicketExpired = (st_reason st = reasonTicketExpired)
   \<and> errors_is x ErrTicketInvalid = (st_reason st = reasonTicketInvalid)
   \<and> errors_is x ErrBattleEnded = (st_reason st = reasonBattleEnded)
   \<and> errors_is x ErrBattleNotFound = (st_reason st = reasonBattleNotFound)
   \<and> errors_is x ErrBattleFull = (st_reason st = reasonBattleFull)
   \<and> errors_is x ErrFrameTargetMismatch = (st_reason st = reasonFrameTargetMismatch)
   \<and> IsTerminal (Some x) = terminal_reason (st_reason st)
   \<and> (if terminal_reason (st_reason st)
      then Terminal t \<and> EndReason t = st_reason st \<and> EndCause t = Some x
         \<and> Session_Failed t = (st_reason st \<noteq> reasonBattleEnded) \<and> Ended t = (st_reason st = reasonBattleEnded)
         \<and> ds_state t = (if st_reason st = reasonBattleEnded then DStateEnded else DStateFailed)
         \<and> ds_inflight t = []
         \<and> ds_mail t = ds_mail s @ map (\<lambda>(_, m). (m, terminal_result (st_reason st))) (ds_inflight s)
      else t = s)"
proof (cases "terminalEntry (st_reason st)")
  case None
  then have "\<not> terminal_reason (st_reason st)" "terminalSentinel (st_reason st) = None"
      "st_reason st \<notin> {reasonBattleEnded, reasonBattleNotFound, reasonBattleFull, reasonFrameTargetMismatch}"
    by (auto simp: terminal_reason_def terminalSentinel_def)
  then show ?thesis
    using assms(4) by (auto simp: wrapBusiness_def IsTerminal_iff retryable_def reason_defs Let_def split: if_splits)
next
  case (Some tr)
  have not_ticket: "st_reason st \<noteq> reasonTicketExpired" "st_reason st \<noteq> reasonTicketInvalid" using Some by auto
  let ?x = "terminalReject op (tr_sentinel tr) \<lparr>be_code = st_code st, be_reason = st_reason st, be_message = st_message st,
            be_metadata = st_metadata st, be_class = businessClass (st_reason st) (st_class st)\<rparr>"
  have xt: "x = ?x" "t = snd (markEnded (st_reason st) (Some ?x) s)"
    using assms(4) Some not_ticket by (auto simp: wrapBusiness_def terminalSentinel_def Let_def)
  obtain u where u: "markEnded (st_reason st) (Some ?x) s = (True, u)" and eff: "Terminal u"
      "ds_end u = (ds_end s)\<lparr>en_flag := True, en_failed := en_failed (ds_end s) \<or> \<not> battleEndReason (st_reason st),
        en_reason := st_reason st, en_cause := Some ?x\<rparr>"
      "ds_state u = end_state_of (st_reason st)" "ds_inflight u = []"
      "ds_mail u = ds_mail s @ map (\<lambda>(_, m). (m, terminal_result (st_reason st))) (ds_inflight s)"
    using markEnded_effect[OF assms(2,1), of "st_reason st" "Some ?x"] by auto
  have "terminal_reason (st_reason st)" using Some by (simp add: terminal_reason_def)
  moreover have "errors_is x ErrBattleEnded = (st_reason st = reasonBattleEnded)
      \<and> errors_is x ErrBattleNotFound = (st_reason st = reasonBattleNotFound)
      \<and> errors_is x ErrBattleFull = (st_reason st = reasonBattleFull)
      \<and> errors_is x ErrFrameTargetMismatch = (st_reason st = reasonFrameTargetMismatch)"
    using sentinel_of_reason[OF Some] by (simp add: xt(1) terminalReject_def)
  moreover have "\<not> retryable x \<and> \<not> errors_is x ErrTicketExpired \<and> \<not> errors_is x ErrTicketInvalid \<and> IsTerminal (Some x)"
    using terminal_sentinels[OF Some] by (auto simp: xt(1) terminalReject_def retryable_def IsTerminal_iff)
  moreover have "as_business x = Some \<lparr>be_code = st_code st, be_reason = st_reason st, be_message = st_message st,
            be_metadata = st_metadata st, be_class = businessClass (st_reason st) (st_class st)\<rparr>"
    by (simp add: xt(1) terminalReject_def)
  ultimately show ?thesis
    using eff assms(3) not_ticket u xt
    by (simp add: EndReason_def EndCause_def Ended_def Session_Failed_def battleEndReason_def end_state_of_def)
qed

definition ended_status :: Status where
  "ended_status = \<lparr>st_code = 409, st_reason = reasonBattleEnded, st_message = ''over'', st_metadata = [], st_class = 0\<rparr>"

theorem business_rejection_witness:
  "\<exists>x t. wrapBusiness ''/a'' ended_status demo_session = (x, t) \<and> ds_state t = DStateEnded \<and> Ended t"
proof -
  obtain x t where e: "wrapBusiness ''/a'' ended_status demo_session = (x, t)" by fastforce
  show ?thesis
    using business_rejection[OF demo_ok e] e
    by (simp add: ended_status_def terminal_reason_def)
qed


lemma result_terminal_status:
  assumes "Terminal t" and "terminalEntry reason = Some tr"
  shows "result e op (terminal_result reason) resp t =
    (Some (terminalReject op (tr_sentinel tr) (terminalBusinessError (terminalStatus reason))), t)"
proof -
  have "reason \<noteq> reasonTicketExpired" "reason \<noteq> reasonTicketInvalid" using assms(2) by auto
  then show ?thesis
    using assms by (simp add: result_def terminal_result_def wrapBusiness_def terminalStatus_def terminalSentinel_def
        terminalBusinessError_def markEnded_again businessClass_def Let_def)
qed

text \<open>
  C15: Whoever finds out that the battle is over, the caller can tell it in the same way. For a terminal reason
  the rejection that came from the server, the local refusal of every later call, and the result
  given to each request that was pending satisfy the same \<open>errors.Is\<close> tests for every sentinel, are
  retried alike, and have the same reason. The rejection keeps the server's code, text and metadata, and its
  class but for one left out, which becomes business; the local ones have the code that belongs to
  the reason, their own text, the class business, and the local mark as their only metadata.
\<close>

theorem local_remote_same:
  assumes "dtable_ok s" and "\<not> Terminal s" and "terminal_reason (st_reason st)" and "wrapBusiness op st s = (x, t)"
  shows "as_business x = Some \<lparr>be_code = st_code st, be_reason = st_reason st, be_message = st_message st,
      be_metadata = st_metadata st, be_class = (if st_class st = ClassUnspecified then ClassBusiness else st_class st)\<rparr>
    \<and> (\<exists>code. (st_reason st, code) \<in> {(reasonBattleEnded, 409), (reasonBattleNotFound, 404), (reasonBattleFull, 409),
        (reasonFrameTargetMismatch, 403)} \<and>
       (let same = (\<lambda>y. (\<forall>sn. errors_is y sn = errors_is x sn) \<and> retryable y = retryable x \<and> isLocalEnded y
          \<and> as_business y = Some \<lparr>be_code = code, be_reason = st_reason st, be_message = terminalMessage (st_reason st),
              be_metadata = [(localSettledKey, ''true'')], be_class = ClassBusiness\<rparr>)
        in same (endedErr what t)
         \<and> (\<forall>(k, m) \<in> set (ds_inflight s). \<exists>r. (m, r) \<in> set (ds_mail t) \<and>
              (\<exists>y. result e op' r resp t = (Some y, t) \<and> same y))))"
proof -
  obtain tr where tr: "terminalEntry (st_reason st) = Some tr" using assms(3) by (auto simp: terminal_reason_def)
  let ?b = "\<lparr>be_code = st_code st, be_reason = st_reason st, be_message = st_message st,
            be_metadata = st_metadata st, be_class = businessClass (st_reason st) (st_class st)\<rparr>"
  let ?l = "terminalBusinessError (terminalStatus (st_reason st))"
  have ne: "st_reason st \<noteq> reasonTicketExpired" "st_reason st \<noteq> reasonTicketInvalid" "st_reason st \<noteq> []"
    using tr terminal_sentinels[OF tr] by auto
  have sn: "terminalSentinel (st_reason st) = Some (tr_sentinel tr)" using tr by (simp add: terminalSentinel_def)
  have x: "x = terminalReject op (tr_sentinel tr) ?b" "t = snd (markEnded (st_reason st) (Some x) s)"
    using assms(4) ne sn by (auto simp: wrapBusiness_def Let_def)
  obtain u where u: "markEnded (st_reason st) (Some x) s = (True, u)" "Terminal u" "en_reason (ds_end u) = st_reason st"
      "ds_mail u = ds_mail s @ map (\<lambda>(_, m). (m, terminal_result (st_reason st))) (ds_inflight s)"
    using markEnded_effect[OF assms(2,1), of "st_reason st" "Some x"] by auto
  have t: "Terminal t" "endReason t = st_reason st"
      "ds_mail t = ds_mail s @ map (\<lambda>(_, m). (m, terminal_result (st_reason st))) (ds_inflight s)"
    using u x(2) ne by (simp_all add: endReason_def)
  have cls: "businessClass (st_reason st) (st_class st) = (if st_class st = ClassUnspecified then ClassBusiness else st_class st)"
    using sn by (simp add: businessClass_def)
  have loc: "?l = \<lparr>be_code = tr_code tr, be_reason = st_reason st, be_message = terminalMessage (st_reason st),
      be_metadata = [(localSettledKey, ''true'')], be_class = ClassBusiness\<rparr>"
    using tr by (simp add: terminalBusinessError_def terminalStatus_def terminalCode_def)
  have retry: "retryable (Wrap w [Sentinel (tr_sentinel tr), BusinessError b]) = retryable x" for w b
    by (simp add: x(1) terminalReject_def retryable_def)
  have ended: "endedErr what t = Wrap what [Sentinel (tr_sentinel tr), BusinessError ?l]"
    by (simp add: endedErr_def t(2) sn Let_def)
  have pend: "\<exists>r. (m, r) \<in> set (ds_mail t) \<and> result e op' r resp t = (Some (terminalReject op' (tr_sentinel tr) ?l), t)"
    if "(k, m) \<in> set (ds_inflight s)" for k m
    using that result_terminal_status[OF t(1) tr] by (force simp: t(3))
  define same where "same = (\<lambda>y. (\<forall>sn. errors_is y sn = errors_is x sn) \<and> retryable y = retryable x \<and> isLocalEnded y
      \<and> as_business y = Some \<lparr>be_code = tr_code tr, be_reason = st_reason st, be_message = terminalMessage (st_reason st),
          be_metadata = [(localSettledKey, ''true'')], be_class = ClassBusiness\<rparr>)"
  have same: "same (Wrap w [Sentinel (tr_sentinel tr), BusinessError ?l])" for w
    unfolding same_def using retry[of w ?l] by (simp add: x(1) terminalReject_def isLocalEnded_def loc)
  have "same (endedErr what t) \<and> (\<forall>(k, m) \<in> set (ds_inflight s). \<exists>r. (m, r) \<in> set (ds_mail t) \<and>
      (\<exists>y. result e op' r resp t = (Some y, t) \<and> same y))"
    using same pend unfolding ended terminalReject_def by fast
  moreover have "as_business x = Some (?b\<lparr>be_class := if st_class st = ClassUnspecified then ClassBusiness else st_class st\<rparr>)"
    by (simp add: x(1) terminalReject_def cls)
  ultimately show ?thesis
    using sentinel_of_reason[OF tr] unfolding same_def Let_def by (intro conjI exI[of _ "tr_code tr"]) simp_all
qed

theorem local_remote_same_witness:
  "\<exists>x t. wrapBusiness ''/a'' ended_status demo_session = (x, t)
    \<and> errors_is x ErrBattleEnded \<and> errors_is (endedErr ''/b'' t) ErrBattleEnded \<and> isLocalEnded (endedErr ''/b'' t)"
proof -
  obtain x t where e: "wrapBusiness ''/a'' ended_status demo_session = (x, t)" by fastforce
  have st: "terminal_reason (st_reason ended_status)"
    by (simp add: ended_status_def terminal_reason_def)
  have "errors_is x ErrBattleEnded"
    using e by (auto simp: wrapBusiness_def ended_status_def reason_defs terminalSentinel_def terminalReject_def
        terminalEntry_def terminalReasons_def Let_def)
  then show ?thesis
    using local_remote_same[OF demo_ok(1,2) st e, of "''/b''"] e by (auto simp: Let_def)
qed

section \<open>The probe\<close>

lemma dtake_settled:
  assumes "map_of (ds_inflight s) seq = Some m" and "m \<notin> fst ` set (ds_mail s)"
  shows "dtake e op m resp (settle_key seq r s) = Some (result e op r resp (settle_key seq r s))"
proof -
  have "map_of (ds_mail s) m = None" using assms(2) by (simp add: map_of_eq_None_iff)
  then show ?thesis
    using assms(1) by (simp add: dtake_def settle_key_def LoadAndDelete_def dput_mail_def map_add_def)
qed

text \<open>
  One tick of the keep-alive probe that the server answers: an empty reply counts as sent, a
  rejection is counted and becomes \<open>HeartbeatErr\<close> if it is the first. The probing goes on unless
  the reason is terminal, in which case the session ends and the loop with it; a ticket
  rejection in particular neither ends the session nor disconnects it.
\<close>

theorem probe_verdict:
  assumes ok: "dtable_ok s" "\<not> Terminal s" "\<not> Session_Failed s" "ds_state s = DStateConnected"
    and send: "dinvoke_send e (d_probeOp (ds_opt s)) (d_probeReq (ds_opt s)) s = (DWaiting seq m, u)"
    and fresh: "ds_next_box s \<notin> fst ` set (ds_mail s)"
    and hdr: "hType hdr = MsgTypeResponse" "hVersion hdr = ds_ver s" "supportedVersion (ds_ver s)" "hSeq hdr = seq"
    and reply: "DecodeReply body = Some (Inr (dat, st))"
  shows "\<exists>t. beat e [(hdr, body)] GotReply s = Some (case st of None \<Rightarrow> True | Some st \<Rightarrow> \<not> terminal_reason (st_reason st), t)
    \<and> (case st of
         None \<Rightarrow> ds_stats t = noteHeartbeatSent (ds_stats s) \<and> \<not> Terminal t
       | Some st \<Rightarrow> Terminal t = terminal_reason (st_reason st)
          \<and> (if terminal_reason (st_reason st) then EndReason t = st_reason st else ds_state t = DStateConnected)
          \<and> (if map_of (st_metadata st) localSettledKey = Some ''true'' then True
             else ss_hbRejects (ds_stats t) = ss_hbRejects (ds_stats s) + 1
                \<and> (ss_firstHBErr (ds_stats s) = None \<longrightarrow> firstHeartbeatErr (ds_stats t) = ss_lastHBErr (ds_stats t))))"
proof -
  let ?op = "d_probeOp (ds_opt s)"
  from ok(1) send obtain g n body' where u: "ds_gen s = Some g" "newInflight s = (seq, m, n)"
      "u = n\<lparr>ds_wire := ds_wire s @ [(g, request_header s seq, body')]\<rparr>" "map_of (ds_inflight u) seq = Some m" "dtable_ok u"
    by (cases rule: dinvoke_send_cases[of s e ?op "d_probeReq (ds_opt s)"]) auto
  have same: "ds_end u = ds_end s" "ds_state u = ds_state s" "ds_stats u = ds_stats s" "ds_ver u = ds_ver s" "ds_gen u = ds_gen s"
      "ds_mail u = ds_mail s" "m = ds_next_box s"
    using u(2,3) by (auto simp: newInflight_def Let_def)
  let ?r = "\<lparr>r_data = dat, r_st = st, r_err = None\<rparr>"
  let ?v = "settle_key seq ?r u"
  have sv: "served u ?v" using u(5) by (intro served_settle_key) simp_all
  have v: "ds_end ?v = ds_end s" "ds_state ?v = ds_state s" "ds_stats ?v = ds_stats s"
    using u(4) same by (auto simp: settle_key_def LoadAndDelete_def dput_mail_def)
  have reads: "dread_frames e (the (ds_gen u)) [(hdr, body)] u = Some (False, ?v)"
    using hdr reply same by (simp add: dispatch_direct_def dispatchResponse_direct_def)
  obtain x w where res: "result e ?op ?r False ?v = (x, w)" by fastforce
  let ?w = "w\<lparr>ds_inflight := Delete seq (ds_inflight w)\<rparr>"
  have probe: "probe e [(hdr, body)] GotReply s = Some (x, ?w)"
    using reads dtake_settled[OF u(4), of e ?op False ?r] res fresh same(6,7)
    by (simp add: probe_def dinvoke_def send awaitReply_def)
  have beat: "beat e [(hdr, body)] GotReply s = Some (case x of
           None \<Rightarrow> (True, ?w\<lparr>ds_stats := noteHeartbeatSent (ds_stats w)\<rparr>)
         | Some x \<Rightarrow>
             if errors_is x ErrClosed then (False, ?w)
             else if Terminal w
             then (False, if isLocalEnded x then ?w else ?w\<lparr>ds_stats := noteHeartbeatReject x (ds_stats w)\<rparr>)
             else if isProtocolReject x \<or> isBusinessReject x
             then (True, ?w\<lparr>ds_stats := noteHeartbeatReject x (ds_stats w)\<rparr>)
             else (True, ?w\<lparr>ds_stats := noteHeartbeatFailure x (ds_stats w)\<rparr>))"
    using probe ok by (cases x) (simp_all add: beat_def Terminal_def)
  show ?thesis
  proof (cases st)
    case None
    then have "x = None" "w = ?v" using res by (simp_all add: result_def)
    then show ?thesis using beat None v ok(2) by (simp add: Terminal_def)
  next
    case (Some st')
    obtain y where y: "wrapBusiness ?op st' ?v = (y, w)" "x = Some y" using res Some by (auto simp: result_def split: prod.splits)
    have vok: "dtable_ok ?v" "\<not> Terminal ?v" "\<not> Session_Failed ?v"
      using served_ok[OF sv] v(1) ok by (simp_all add: Terminal_def Session_Failed_def)
    note rej = business_rejection[OF vok y(1)]
    have biz: "as_business y \<noteq> None" "\<not> errors_is y ErrClosed"
      using rej y(1) terminal_sentinels[of "st_reason st'"]
      by (auto simp: wrapBusiness_def terminalReject_def terminalSentinel_def Let_def split: if_splits option.splits)
    have local: "isLocalEnded y = (map_of (st_metadata st') localSettledKey = Some ''true'')"
      using rej by (simp add: isLocalEnded_def)
    have stats: "ds_stats w = ds_stats s"
      using served_wrapBusiness[OF vok(1), of ?op st'] y(1) v(3) by (simp add: served_def)
    show ?thesis
    proof (cases "terminal_reason (st_reason st')")
      case True
      then have "Terminal w" "EndReason w = st_reason st'" using rej by auto
      then show ?thesis
        using beat y(2) biz True Some local stats
        by (auto simp: noteHeartbeatReject_def firstHeartbeatErr_def Let_def Terminal_def EndReason_def)
    next
      case False
      then have "w = ?v" using rej by simp
      then show ?thesis
        using beat y(2) biz False Some local stats vok(2) v(2) ok(4)
        by (auto simp: noteHeartbeatReject_def firstHeartbeatErr_def isBusinessReject_def Let_def Terminal_def)
    qed
  qed
qed


lemma demo_send: "\<exists>u. dinvoke_send quiet_denv ''/p'' None demo_session = (DWaiting 1 0, u)"
proof -
  let ?o = "bytes_of_string ''/p''" and ?t = "bytes_of_string (TicketSlot [1, 2, 3])"
  have "length ?t = 4" by (simp add: TicketSlot_def RawURLEncode_def raw_encode_def)
  then have "body_ok ?o ?t []" by (simp add: body_ok_def frame_consts bytes_of_string_def)
  then have "\<exists>b. BuildRequestBodyWithSession ?o ?t [] [] = Some (Inr b)"
    using body_round[of ?o ?t "[]" "[]"] by (auto simp: BuildRequestBodyWithSession_def BuildRequestBodyFull_def)
  then show ?thesis
    by (auto simp: dinvoke_send_def marshal_direct_def newInflight_def writeRequest_def Terminal_def no_end_def
        quiet_denv_def demo_plan_def Let_def)
qed

theorem probe_verdict_witness:
  "\<exists>hdr t. beat quiet_denv [(hdr, [0, 0, 0, 0, 0])] GotReply demo_session = Some (True, t) \<and> ss_hbSent (ds_stats t) = 1"
proof -
  let ?h = "\<lparr>hMagic = 0, hVersion = 1, hType = MsgTypeResponse, hFlags = 0, hSeq = 1, hLength = 0\<rparr>"
  obtain u where u: "dinvoke_send quiet_denv ''/p'' None demo_session = (DWaiting 1 0, u)" using demo_send by blast
  have r: "DecodeReply [0, 0, 0, 0, 0] = Some (Inr ([], None))"
    by (simp add: DecodeReply_def read_uint32_at_def uint32_be_def)
  obtain t where "beat quiet_denv [(?h, [0, 0, 0, 0, 0])] GotReply demo_session = Some (True, t)"
      "ds_stats t = noteHeartbeatSent new_stats"
    using probe_verdict[of demo_session quiet_denv 1 0 u ?h "[0, 0, 0, 0, 0]" "[]" None] u r
    by (auto simp: supportedVersion_def frame_consts(3))
  then show ?thesis by (intro exI[of _ ?h] exI[of _ t]) (simp add: noteHeartbeatSent_def new_stats_def)
qed

end
