(* ===== verification/DirectPushes.thy ===== *)
theory DirectPushes
  imports DirectRequests
begin

text \<open>
  What the push side of a direct session guarantees: subscriptions, the end notification that the
  server sends up to five times, and the frame number that catching up starts from. A run of
  pushes is the fold of \<open>dispatchNotify_direct\<close> over the frames the read loop hands it.
\<close>

section \<open>A run of pushes\<close>

fun pushes :: "denv \<Rightarrow> (byte \<times> bytes) list \<Rightarrow> dsession \<Rightarrow> dsession option" where
  "pushes e [] s = Some s"
| "pushes e ((v, body) # fs) s =
     (case dispatchNotify_direct e v body s of None \<Rightarrow> None | Some s \<Rightarrow> pushes e fs s)"

text \<open>The operation and payload of a frame, when it parses.\<close>

definition push_of :: "byte \<times> bytes \<Rightarrow> (byte \<times> bytes \<times> bytes) option" where
  "push_of f = (case ParseRequestBody (snd f) of Some (Inr (op, payload)) \<Rightarrow> Some (fst f, op, payload) | _ \<Rightarrow> None)"

abbreviation end_op :: bytes where "end_op \<equiv> bytes_of_string OpBattleEndNotify"
abbreviation frame_op :: bytes where "frame_op \<equiv> bytes_of_string OpFrameBroadcast"

lemma bytes_of_string_inject [simp]: "bytes_of_string a = bytes_of_string b \<longleftrightarrow> a = b"
  by (metis string_of_bytes_of_string)

lemma end_op_not_frame [simp]: "OpBattleEndNotify \<noteq> OpFrameBroadcast" "OpFrameBroadcast \<noteq> OpBattleEndNotify"
  by (simp_all add: OpBattleEndNotify_def OpFrameBroadcast_def)

definition push_effect :: "denv \<Rightarrow> byte \<times> bytes \<times> bytes \<Rightarrow> dsession \<Rightarrow> dsession" where
  "push_effect e f s =
     (case f of (v, op, payload) \<Rightarrow>
        let s = (if op = frame_op then trackFrame e payload s else s);
            (go, s) = (if op = end_op then noteEndNotify payload s else (True, s))
        in (if go then s\<lparr>ds_calls := ds_calls s @ map (\<lambda>h. (op, h, payload, v)) (handlersOf op s)\<rparr> else s))"

lemma dispatchNotify_push:
  "dispatchNotify_direct e v body s = Some (case push_of (v, body) of None \<Rightarrow> s | Some f \<Rightarrow> push_effect e f s)"
proof -
  obtain q where "ParseRequestBody body = Some q"
    using parseRequestBody_total[of body 0] by (auto simp: ParseRequestBody_def)
  then show ?thesis
    by (auto simp: dispatchNotify_direct_def push_of_def push_effect_def Let_def split: sum.split prod.splits)
qed

lemma pushes_fold: "pushes e fs s = Some (fold (push_effect e) (List.map_filter push_of fs) s)"
proof (induction fs arbitrary: s)
  case (Cons f fs)
  then show ?case
    by (cases f) (auto simp: dispatchNotify_push map_filter_simps split: option.split)
qed (simp add: map_filter_simps)

section \<open>The end notification\<close>

definition end_notice :: "byte \<times> bytes \<times> bytes \<Rightarrow> (byte \<times> bytes) option" where
  "end_notice f = (case f of (v, op, payload) \<Rightarrow> if op = end_op \<and> payload \<noteq> [] then Some (v, payload) else None)"

abbreviation end_calls :: "dsession \<Rightarrow> (bytes \<times> nat \<times> bytes \<times> byte) list" where
  "end_calls s \<equiv> filter (\<lambda>c. fst c = end_op) (ds_calls s)"

text \<open>Ending keeps what the notice recorded, the subscriptions and the calls.\<close>

lemma markEnded_keeps:
  "dtable_ok s \<Longrightarrow> t = snd (markEnded reason cause s) \<Longrightarrow> dtable_ok t \<and> Terminal t
     \<and> en_noticed (ds_end t) = en_noticed (ds_end s) \<and> en_raw (ds_end t) = en_raw (ds_end s)
     \<and> (battleEndReason reason \<longrightarrow> en_failed (ds_end t) = en_failed (ds_end s))
     \<and> en_replays (ds_end t) = en_replays (ds_end s) \<and> en_differs (ds_end t) = en_differs (ds_end s)
     \<and> ds_handlers t = ds_handlers s \<and> ds_calls t = ds_calls s \<and> ds_lastSeen t = ds_lastSeen s \<and> ds_opt t = ds_opt s"
proof (cases "Terminal s")
  case False
  assume ok: "dtable_ok s" and t: "t = snd (markEnded reason cause s)"
  have "dtable_ok t" "ds_opt t = ds_opt s" using served_markEnded[OF ok, of reason cause] t by (simp_all add: served_def)
  then show ?thesis using markEnded_effect[OF False ok, of reason cause] t by auto
qed (simp add: markEnded_again)

lemma push_effect_end:
  assumes "dtable_ok s"
  shows "let t = push_effect e f s in dtable_ok t \<and> ds_handlers t = ds_handlers s \<and> (Terminal s \<longrightarrow> Terminal t)
    \<and> ds_opt t = ds_opt s \<and> en_failed (ds_end t) = en_failed (ds_end s)
    \<and> (case end_notice f of
         None \<Rightarrow> ds_end t = ds_end s \<and> end_calls t = end_calls s
       | Some (v, p) \<Rightarrow> Terminal t
          \<and> (if en_noticed (ds_end s)
             then en_noticed (ds_end t) \<and> en_raw (ds_end t) = en_raw (ds_end s)
               \<and> en_replays (ds_end t) = en_replays (ds_end s) + 1
               \<and> en_differs (ds_end t) = en_differs (ds_end s) + (if en_raw (ds_end s) \<noteq> Some p then 1 else 0)
               \<and> end_calls t = end_calls s
             else en_noticed (ds_end t) \<and> en_raw (ds_end t) = Some p \<and> en_replays (ds_end t) = en_replays (ds_end s)
               \<and> en_differs (ds_end t) = en_differs (ds_end s)
               \<and> end_calls t = end_calls s @ map (\<lambda>h. (end_op, h, p, v)) (handlersOf end_op s)))"
proof -
  obtain v op p where f: "f = (v, op, p)" by (cases f)
  show ?thesis
  proof (cases "op = end_op \<and> p \<noteq> []")
    case True
    define u where "u = s\<lparr>ds_end := (if \<not> en_noticed (ds_end s) then (ds_end s)\<lparr>en_noticed := True, en_raw := Some p\<rparr>
        else (ds_end s)\<lparr>en_replays := en_replays (ds_end s) + 1,
          en_differs := en_differs (ds_end s) + (if en_raw (ds_end s) \<noteq> Some p then 1 else 0)\<rparr>)\<rparr>"
    define w where "w = snd (markEnded reasonBattleEnded (Some (notifyCause u)) u)"
    have n: "noteEndNotify p s = (\<not> en_noticed (ds_end s), w)"
      using True by (simp add: noteEndNotify_def u_def w_def Let_def)
    have "dtable_ok u" using assms by (simp add: u_def dtable_ok_def)
    note k = markEnded_keeps[OF this w_def]
    have "push_effect e f s = (if \<not> en_noticed (ds_end s)
        then w\<lparr>ds_calls := ds_calls w @ map (\<lambda>h. (end_op, h, p, v)) (handlersOf end_op w)\<rparr> else w)"
      using True f n by (simp add: push_effect_def)
    moreover have "handlersOf end_op w = handlersOf end_op s"
      using k by (simp add: handlersOf_def handlers_at_def u_def)
    ultimately show ?thesis
      using True f k by (auto simp: end_notice_def u_def battleEndReason_def dtable_ok_def Terminal_def Let_def filter_empty_conv)
  next
    case False
    then show ?thesis
      using assms f by (auto simp: push_effect_def end_notice_def noteEndNotify_def trackFrame_def dtable_ok_def
          Terminal_def Let_def split: option.splits)
  qed
qed

lemma replays_effect:
  "dtable_ok s \<Longrightarrow> Terminal s \<Longrightarrow> en_noticed (ds_end s) \<Longrightarrow> en_raw (ds_end s) = Some p \<Longrightarrow>
     t = fold (push_effect e) gs s \<Longrightarrow> notices = List.map_filter end_notice gs \<Longrightarrow>
     Terminal t \<and> en_noticed (ds_end t) \<and> en_raw (ds_end t) = Some p \<and> en_failed (ds_end t) = en_failed (ds_end s)
   \<and> en_replays (ds_end t) = en_replays (ds_end s) + of_nat (length notices)
   \<and> en_differs (ds_end t) = en_differs (ds_end s) + of_nat (length (filter (\<lambda>n. snd n \<noteq> p) notices))
   \<and> end_calls t = end_calls s"
proof (induction gs arbitrary: s notices)
  case (Cons g gs)
  let ?s = "push_effect e g s"
  note g = push_effect_end[OF Cons.prems(1), of e g, unfolded Let_def]
  note IH = Cons.IH[of ?s "List.map_filter end_notice gs"]
  show ?case
  proof (cases "end_notice g")
    case None
    then show ?thesis using IH g Cons.prems by (simp add: map_filter_simps)
  next
    case (Some vp)
    then show ?thesis using IH g Cons.prems by (cases vp) (simp add: map_filter_simps)
  qed
qed (simp add: map_filter_simps)



lemma push_of_built:
  assumes "body_ok (bytes_of_string op) [] []"
  shows "\<exists>b. push_of (v, b) = Some (v, bytes_of_string op, p)"
proof -
  obtain b where b: "ParseRequestBodyFull b (body_flags [] []) = Some (Inr (bytes_of_string op, [], [], p))"
    using body_round[OF assms, of p] by blast
  then have "parseRequestBody b 0 = Some (Inr (bytes_of_string op, [], [], p))"
    by (simp add: ParseRequestBodyFull_def body_flags_def)
  then show ?thesis by (intro exI[of _ b]) (simp add: push_of_def ParseRequestBody_def)
qed

lemma end_op_ok: "body_ok end_op [] []"
  by (simp add: body_ok_def frame_consts OpBattleEndNotify_def bytes_of_string_def)


section \<open>The frame number to catch up from\<close>

definition frame_id :: "denv \<Rightarrow> options \<Rightarrow> byte \<times> bytes \<times> bytes \<Rightarrow> u64 option" where
  "frame_id e o' f = (case f of (v, op, payload) \<Rightarrow>
     if op = frame_op then (case d_frameNumber o' of None \<Rightarrow> None | Some fn \<Rightarrow> de_frame e fn payload) else None)"

lemma push_effect_seen:
  assumes "dtable_ok s"
  shows "ds_lastSeen (push_effect e f s)
    = (case frame_id e (ds_opt s) f of None \<Rightarrow> ds_lastSeen s | Some i \<Rightarrow> max (ds_lastSeen s) i)"
proof -
  obtain v op p where f: "f = (v, op, p)" by (cases f)
  have "ds_lastSeen (snd (noteEndNotify q s)) = ds_lastSeen s" for q
  proof -
    have "dtable_ok (s\<lparr>ds_end := en\<rparr>)" for en using assms by (simp add: dtable_ok_def)
    then show ?thesis using markEnded_keeps[OF _ refl] by (simp add: noteEndNotify_def Let_def)
  qed
  moreover obtain go w where w: "noteEndNotify p s = (go, w)" by fastforce
  ultimately have "ds_lastSeen w = ds_lastSeen s" by (metis snd_conv)
  then show ?thesis
    using f w by (auto simp: push_effect_def frame_id_def trackFrame_def frameNumber_def max_def Let_def split: option.split)
qed

text \<open>
  The base for catching up after a reconnect is the greatest frame number seen: whatever pushes
  arrive, out of order or repeated, it is the maximum of the old base and the numbers the
  caller's hook finds in the frame broadcasts, so it never goes back; other pushes, and frames
  without a number, do not move it.
\<close>

theorem catch_up_base:
  assumes "dtable_ok s" and "pushes e fs s = Some t"
    and "ids = List.map_filter (frame_id e (ds_opt s)) (List.map_filter push_of fs)"
  shows "ds_lastSeen t = fold max ids (ds_lastSeen s) \<and> ds_lastSeen s \<le> ds_lastSeen t \<and> (\<forall>i \<in> set ids. i \<le> ds_lastSeen t)"
proof -
  have eq: "dtable_ok s \<Longrightarrow> t = fold (push_effect e) gs s \<Longrightarrow>
      ds_lastSeen t = fold max (List.map_filter (frame_id e (ds_opt s)) gs) (ds_lastSeen s)" for gs
  proof (induction gs arbitrary: s)
    case (Cons g gs)
    have "dtable_ok (push_effect e g s) \<and> ds_opt (push_effect e g s) = ds_opt s"
      using push_effect_end[OF Cons.prems(1), of e g] by (simp add: Let_def)
    then show ?case
      using Cons push_effect_seen[OF Cons.prems(1), of e g]
      by (auto simp: map_filter_simps max.commute split: option.split)
  qed (simp add: map_filter_simps)
  have "(x :: u64) \<le> fold max is x \<and> (\<forall>i \<in> set is. i \<le> fold max is x)" for x "is"
  proof (induction "is" arbitrary: x)
    case (Cons i "is")
    have "max i x \<le> fold max is (max i x) \<and> (\<forall>j \<in> set is. j \<le> fold max is (max i x))" by (rule Cons.IH)
    then show ?case unfolding max.bounded_iff by simp
  qed simp
  moreover have "ds_lastSeen t = fold max ids (ds_lastSeen s)"
    using eq[OF assms(1), of "List.map_filter push_of fs"] assms(2,3) by (simp add: pushes_fold)
  ultimately show ?thesis by simp
qed

theorem catch_up_base_witness:
  "\<exists>a b t. pushes quiet_denv [(1, a), (1, b)] demo_session = Some t \<and> ds_lastSeen t = 3"
proof -
  have "body_ok frame_op [] []" by (simp add: body_ok_def frame_consts OpFrameBroadcast_def bytes_of_string_def)
  then obtain a b where ab: "push_of (1, a) = Some (1, frame_op, [0, 0, 0])" "push_of (1, b) = Some (1, frame_op, [0])"
    using push_of_built by meson
  obtain t where t: "pushes quiet_denv [(1, a), (1, b)] demo_session = Some t" by (simp add: pushes_fold)
  from catch_up_base[OF demo_ok(1) t refl] have "ds_lastSeen t = 3"
    using ab by (simp add: map_filter_simps frame_id_def quiet_denv_def)
  then show ?thesis using t by blast
qed


section \<open>Subscriptions\<close>

text \<open>No two entries share a key, no set is empty, and no key is ahead of the counter.\<close>

definition subs_ok :: "dsession \<Rightarrow> bool" where
  "subs_ok s \<longleftrightarrow> distinct (map fst (ds_handlers s))
     \<and> (\<forall>op. map_of (ds_handlers s) op \<noteq> Some [] \<and> distinct (map fst (handlers_at op s))
          \<and> (\<forall>e \<in> set (handlers_at op s). fst e \<le> ds_handlerSeq s))"

lemma delete_fresh_key: "k \<notin> fst ` set m \<Longrightarrow> AList.delete k m = m"
  by (induction m) auto

lemma delete_appended: "k \<notin> fst ` set m \<Longrightarrow> AList.delete k (m @ [(k, v)]) = m"
  by (induction m) auto

lemma handlers_at_unsubscribe:
  "handlers_at op' (unsubscribe_direct op key s) = (if op' = op then AList.delete key (handlers_at op s) else handlers_at op' s)"
  by (auto simp: unsubscribe_direct_def handlers_at_def delete_conv' update_conv' Let_def split: option.split)

lemma subs_ok_unsubscribe:
  assumes "subs_ok s"
  shows "subs_ok (unsubscribe_direct op key s)"
proof -
  have "map_of (ds_handlers (unsubscribe_direct op key s)) op' \<noteq> Some []" for op'
    using assms by (auto simp del: map_of_eq_Some_iff simp: subs_ok_def unsubscribe_direct_def delete_conv' update_conv'
        Let_def split: option.split)
  moreover have "distinct (map fst (ds_handlers (unsubscribe_direct op key s)))"
    using assms by (simp add: subs_ok_def unsubscribe_direct_def distinct_delete distinct_update Let_def split: option.split)
  moreover have "ds_handlerSeq (unsubscribe_direct op key s) = ds_handlerSeq s"
    by (simp add: unsubscribe_direct_def Let_def split: option.split)
  ultimately show ?thesis
    using assms delete_set_subset[of key "handlers_at op s"]
    by (auto simp: subs_ok_def handlers_at_unsubscribe distinct_delete)
qed

lemma succ_greater: "x \<noteq> - 1 \<Longrightarrow> (x :: u64) < x + 1"
proof -
  assume "x \<noteq> - 1"
  then have "1 + x \<noteq> 0" by (metis add.commute add_eq_0_iff)
  then show ?thesis using unatSuc[of x] by (simp add: word_less_nat_alt add.commute)
qed

text \<open>
  A subscription is its own. Subscribing adds one handler at the end of the operation's list and
  touches no other operation; the function it returns removes exactly that subscription, however
  often it is called, and brings the tables back; subscribing the same handler again makes a
  second subscription, so it is called twice per push. The tables stay in order throughout.
\<close>

theorem push_subscriptions:
  assumes "subs_ok s" and "op \<noteq> []" and "ds_handlerSeq s \<noteq> - 1" and "OnPush op (Some h) s = (off, t)"
  shows "subs_ok t \<and> handlersOf op t = handlersOf op s @ [h]
    \<and> (\<forall>op'. op' \<noteq> op \<longrightarrow> handlersOf op' t = handlersOf op' s)
    \<and> (let u = run_off_direct off t in subs_ok u \<and> (\<forall>op'. handlersOf op' u = handlersOf op' s)
         \<and> (\<forall>op'. handlersOf op' (run_off_direct off u) = handlersOf op' u))
    \<and> (ds_handlerSeq t \<noteq> - 1 \<longrightarrow> handlersOf op (snd (OnPush op (Some h) t)) = handlersOf op s @ [h, h])"
proof -
  have step: "subs_ok u \<and> handlers_at op u = handlers_at op s @ [(ds_handlerSeq s + 1, h)]
      \<and> (\<forall>op'. op' \<noteq> op \<longrightarrow> handlers_at op' u = handlers_at op' s)
      \<and> (ds_handlerSeq s + 1) \<notin> fst ` set (handlers_at op s) \<and> off = Some (op, ds_handlerSeq s + 1)"
    if ok: "subs_ok s" and lt: "ds_handlerSeq s \<noteq> - 1" and on: "OnPush op (Some h) s = (off, u)" for s off u
  proof -
    let ?k = "ds_handlerSeq s + 1"
    have fresh: "?k \<notin> fst ` set (handlers_at op s)"
      using ok succ_greater[OF lt] by (fastforce simp: subs_ok_def)
    have u: "u = s\<lparr>ds_handlerSeq := ?k, ds_handlers := AList.update op (handlers_at op s @ [(?k, h)]) (ds_handlers s)\<rparr>"
        "off = Some (op, ?k)"
      using on assms(2) update_fresh_key[OF fresh, of h] by (auto simp: OnPush_def Let_def)
    have at: "handlers_at op' u = (if op' = op then handlers_at op s @ [(?k, h)] else handlers_at op' s)" for op'
      by (simp add: u handlers_at_def update_conv')
    have le: "\<forall>e \<in> set (handlers_at op' s). fst e \<le> ?k" for op'
      using ok succ_greater[OF lt] unfolding subs_ok_def by (meson less_imp_le order_trans)
    have "subs_ok u"
      using ok fresh le unfolding subs_ok_def at
      by (auto simp del: map_of_eq_Some_iff simp: u update_conv' distinct_update)
    then show ?thesis using at fresh u(2) by auto
  qed
  note t = step[OF assms(1,3,4)]
  let ?u = "run_off_direct off t"
  have u: "?u = unsubscribe_direct op (ds_handlerSeq s + 1) t" using t by (simp add: run_off_direct_def)
  have at_u: "handlers_at op' ?u = handlers_at op' s" for op'
    unfolding u using t delete_appended[of "ds_handlerSeq s + 1" "handlers_at op s" h] by (simp add: handlers_at_unsubscribe)
  have "handlers_at op' (run_off_direct off ?u) = handlers_at op' s" for op'
  proof -
    have off2: "run_off_direct off ?u = unsubscribe_direct op (ds_handlerSeq s + 1) ?u" using t by (simp add: run_off_direct_def)
    have "AList.delete (ds_handlerSeq s + 1) (handlers_at op s) = handlers_at op s" using t by (intro delete_fresh_key) blast
    then show ?thesis unfolding off2 handlers_at_unsubscribe at_u by simp
  qed
  moreover have "handlersOf op (snd (OnPush op (Some h) t)) = handlersOf op s @ [h, h]" if "ds_handlerSeq t \<noteq> - 1"
    using step[of t "fst (OnPush op (Some h) t)" "snd (OnPush op (Some h) t)"] t that by (simp add: handlersOf_def)
  ultimately show ?thesis
    using t at_u subs_ok_unsubscribe[of t op "ds_handlerSeq s + 1"] unfolding u[symmetric] by (simp add: handlersOf_def Let_def)
qed

theorem push_subscriptions_witness:
  "handlersOf [7] (snd (OnPush [7] (Some 4) (snd (OnPush [7] (Some 4) demo_session)))) = [4, 4]"
proof -
  obtain off t where e: "OnPush [7] (Some 4) demo_session = (off, t)" by fastforce
  then have "ds_handlerSeq t = 1" by (auto simp: OnPush_def Let_def)
  moreover have "subs_ok demo_session" by (simp add: subs_ok_def handlers_at_def)
  ultimately show ?thesis
    using push_subscriptions[of demo_session "[7]" 4 off t] e by (simp add: handlersOf_def handlers_at_def)
qed

end
