(* ===== verification/DirectRace.thy ===== *)
theory DirectRace
  imports DirectRequests
begin

text \<open>
  Entering a terminal state while others run. \<open>markEnded\<close> is not one step: callers of \<open>Invoke\<close>
  register, test, lock, test again, write and wait; the supervisor and \<open>Close\<close> set states under
  their own lock; replies and timers settle requests. The steps here are the pieces of
  \<open>DirectTerminal\<close> and \<open>DirectInvoke\<close>, interleaved in every order.
\<close>

section \<open>Threads\<close>

text \<open>
  A caller: registered (after \<open>newInflight\<close>), past the first test, holding the write lock, past the
  second test and still holding it, waiting for its reply.
\<close>

datatype caller =
    Idle | Registered u32 nat | Passed u32 nat | Locked u32 nat | Checked u32 nat | Waits u32 nat

text \<open>
  The goroutine that won the flag, by how far \<open>markEnded\<close> has come: flag set, failed set, cause
  recorded, in \<open>setState\<close> with the lock held, state stored, settling the keys its \<open>Range\<close> has
  still to visit, settled, connection dealt with.
\<close>

datatype ender =
    NotEnding | Flagged string "err option" | FailedSet string "err option" | CauseSet string | Setting string bool
  | StateSet string | Settling string "u32 list" | Settled string | EndDone string

fun stated :: "ender \<Rightarrow> string option" where
  "stated (StateSet r) = Some r" | "stated (Settling r _) = Some r" | "stated (Settled r) = Some r"
| "stated (EndDone r) = Some r" | "stated _ = None"

fun settled :: "ender \<Rightarrow> bool" where
  "settled (Settled _) = True" | "settled (EndDone _) = True" | "settled _ = False"

text \<open>
  \<open>setter\<close> is another goroutine inside \<open>setState\<close>: the state it wants and what its test said.
  \<open>held\<close> are the sequence numbers in use, \<open>late\<close> counts the frames written after the flag was set.
\<close>

record conf =
  ses :: dsession
  callers :: "nat \<Rightarrow> caller"
  wlock :: "nat option"
  ender :: ender
  setter :: "(DState \<times> bool) option"
  held :: "u32 list"
  late :: nat

datatype act =
    Register nat | Test1 nat | Lock nat | Test2 nat | WriteOk nat header bytes | WriteErr nat
  | Take nat | GiveUp nat
  | Settle u32 invokeResult
  | MarkEnded string "err option" | EnderStep
  | SetTest DState | SetStore | CloseFlag

definition conf_of :: "dsession \<Rightarrow> conf" where
  "conf_of s = \<lparr>ses = s, callers = (\<lambda>_. Idle), wlock = None, ender = NotEnding, setter = None, held = [], late = 0\<rparr>"

definition leave :: "nat \<Rightarrow> u32 \<Rightarrow> conf \<Rightarrow> conf" where
  "leave i seq c = c\<lparr>ses := (ses c)\<lparr>ds_inflight := Delete seq (ds_inflight (ses c))\<rparr>,
     callers := (callers c)(i := Idle), held := removeAll seq (held c)\<rparr>"

text \<open>The winner's next step. \<open>setState\<close> tests when it has the lock and then stores.\<close>

definition ender_step :: "conf \<Rightarrow> conf option" where
  "ender_step c =
     (case ender c of
        Flagged r x \<Rightarrow> Some (c\<lparr>ses := end_failed r (ses c), ender := FailedSet r x\<rparr>)
      | FailedSet r x \<Rightarrow> Some (c\<lparr>ses := end_cause r x (ses c), ender := CauseSet r\<rparr>)
      | CauseSet r \<Rightarrow>
          if setter c = None then Some (c\<lparr>ender := Setting r (setState_allowed (end_state_of r) (ses c))\<rparr>) else None
      | Setting r ok \<Rightarrow>
          Some (c\<lparr>ses := (if ok then (ses c)\<lparr>ds_state := end_state_of r\<rparr> else ses c), ender := StateSet r\<rparr>)
      | StateSet r \<Rightarrow> Some (c\<lparr>ender := Settling r (map fst (ds_inflight (ses c)))\<rparr>)
      | Settling r (k # ks) \<Rightarrow> Some (c\<lparr>ses := settle_key k (terminal_result r) (ses c), ender := Settling r ks\<rparr>)
      | Settling r [] \<Rightarrow> Some (c\<lparr>ender := Settled r\<rparr>)
      | Settled r \<Rightarrow> Some (c\<lparr>ses := end_connection r (ses c), ender := EndDone r\<rparr>)
      | _ \<Rightarrow> None)"

text \<open>
  One step. A new request needs a sequence number nobody uses, which holds as long as fewer than
  2^32 - 1 requests are open at once. \<open>genMu\<close> is held by a setter, or by the winner in \<open>Setting\<close>.
\<close>

definition genMu_free :: "conf \<Rightarrow> bool" where
  "genMu_free c \<longleftrightarrow> setter c = None \<and> (case ender c of Setting _ _ \<Rightarrow> False | _ \<Rightarrow> True)"

fun act_do :: "act \<Rightarrow> conf \<Rightarrow> conf option" where
  "act_do (Register i) c =
     (case (callers c i, newInflight (ses c)) of
        (Idle, (seq, m, s)) \<Rightarrow>
          if seq \<in> set (held c) then None
          else Some (c\<lparr>ses := s, callers := (callers c)(i := Registered seq m), held := seq # held c\<rparr>)
      | _ \<Rightarrow> None)"
| "act_do (Test1 i) c =
     (case callers c i of
        Registered seq m \<Rightarrow>
          Some (if Terminal (ses c) then leave i seq c else c\<lparr>callers := (callers c)(i := Passed seq m)\<rparr>)
      | _ \<Rightarrow> None)"
| "act_do (Lock i) c =
     (case (callers c i, wlock c) of
        (Passed seq m, None) \<Rightarrow> Some (c\<lparr>callers := (callers c)(i := Locked seq m), wlock := Some i\<rparr>)
      | _ \<Rightarrow> None)"
| "act_do (Test2 i) c =
     (case callers c i of
        Locked seq m \<Rightarrow>
          Some (if Terminal (ses c) then (leave i seq c)\<lparr>wlock := None\<rparr>
                else c\<lparr>callers := (callers c)(i := Checked seq m)\<rparr>)
      | _ \<Rightarrow> None)"
| "act_do (WriteOk i hdr body) c =
     (case (callers c i, ds_gen (ses c)) of
        (Checked seq m, Some g) \<Rightarrow>
          Some (c\<lparr>ses := (ses c)\<lparr>ds_wire := ds_wire (ses c) @ [(g, hdr, body)]\<rparr>,
                  callers := (callers c)(i := Waits seq m), wlock := None,
                  late := (if Terminal (ses c) then Suc (late c) else late c)\<rparr>)
      | _ \<Rightarrow> None)"
| "act_do (WriteErr i) c =
     (case callers c i of
        Checked seq m \<Rightarrow> Some ((leave i seq c)\<lparr>wlock := None\<rparr>)
      | _ \<Rightarrow> None)"
| "act_do (Take i) c =
     (case callers c i of
        Waits seq m \<Rightarrow> if m \<in> fst ` set (ds_mail (ses c)) then Some (leave i seq c) else None
      | _ \<Rightarrow> None)"
| "act_do (GiveUp i) c =
     (case callers c i of Waits seq m \<Rightarrow> Some (leave i seq c) | _ \<Rightarrow> None)"
| "act_do (Settle k r) c = Some (c\<lparr>ses := settle_key k r (ses c)\<rparr>)"
| "act_do (MarkEnded r x) c =
     (case end_flag (ses c) of
        (False, _) \<Rightarrow> Some c
      | (True, s) \<Rightarrow> Some (c\<lparr>ses := s, ender := Flagged r x\<rparr>))"
| "act_do EnderStep c = ender_step c"
| "act_do (SetTest st) c =
     (if genMu_free c \<and> st \<in> {DStateConnected, DStateReconnecting, DStateDisconnected}
      then Some (c\<lparr>setter := Some (st, setState_allowed st (ses c))\<rparr>) else None)"
| "act_do SetStore c =
     (case setter c of
        None \<Rightarrow> None
      | Some (st, ok) \<Rightarrow> Some (c\<lparr>ses := (if ok then (ses c)\<lparr>ds_state := st\<rparr> else ses c), setter := None\<rparr>))"
| "act_do CloseFlag c =
     (if genMu_free c then Some (c\<lparr>ses := (ses c)\<lparr>ds_closed := True\<rparr>\<rparr>) else None)"

inductive act_step :: "conf \<Rightarrow> act \<Rightarrow> conf \<Rightarrow> bool" where
  "act_do a c = Some d \<Longrightarrow> act_step c a d"

inductive_cases act_stepE: "act_step c a d"

definition race_start_of :: "conf \<Rightarrow> bool" where
  "race_start_of c \<longleftrightarrow> (\<exists>s. c = conf_of s \<and> ds_inflight s = [] \<and> \<not> Terminal s \<and> \<not> Session_Failed s)"

abbreviation race_reach :: "conf \<Rightarrow> bool" where
  "race_reach \<equiv> reach race_start_of act_step"

section \<open>The invariant\<close>

fun seq_of :: "caller \<Rightarrow> (u32 \<times> nat) option" where
  "seq_of Idle = None" | "seq_of (Registered k m) = Some (k, m)" | "seq_of (Passed k m) = Some (k, m)"
| "seq_of (Locked k m) = Some (k, m)" | "seq_of (Checked k m) = Some (k, m)" | "seq_of (Waits k m) = Some (k, m)"

fun holds_lock :: "caller \<Rightarrow> bool" where
  "holds_lock (Locked _ _) = True" | "holds_lock (Checked _ _) = True" | "holds_lock _ = False"

fun sending_or_waiting :: "caller \<Rightarrow> bool" where
  "sending_or_waiting (Checked _ _) = True" | "sending_or_waiting (Waits _ _) = True" | "sending_or_waiting _ = False"

fun is_checked :: "caller \<Rightarrow> bool" where
  "is_checked (Checked _ _) = True" | "is_checked _ = False"

text \<open>Callers: each holds its own number, and its request is pending or has its result.\<close>

definition callers_inv :: "conf \<Rightarrow> bool" where
  "callers_inv c \<longleftrightarrow>
     (\<forall>i k m. seq_of (callers c i) = Some (k, m) \<longrightarrow>
        k \<in> set (held c) \<and> (map_of (ds_inflight (ses c)) k = Some m \<or> m \<in> fst ` set (ds_mail (ses c))))
   \<and> (\<forall>i j k m n. seq_of (callers c i) = Some (k, m) \<longrightarrow> seq_of (callers c j) = Some (k, n) \<longrightarrow> i = j)
   \<and> (\<forall>i. holds_lock (callers c i) \<longrightarrow> wlock c = Some i)"

text \<open>Who may still store a state: a setter whose test passed can only run before the winner's own store.\<close>

definition setter_inv :: "conf \<Rightarrow> bool" where
  "setter_inv c \<longleftrightarrow>
     (case setter c of
        Some (st, ok) \<Rightarrow> (case ender c of Setting _ _ \<Rightarrow> False | _ \<Rightarrow> True) \<and> (ok \<longrightarrow> stated (ender c) = None)
      | None \<Rightarrow> True)
   \<and> (case ender c of Setting r ok \<Rightarrow> ok | _ \<Rightarrow> True)"

definition outcome_inv :: "conf \<Rightarrow> bool" where
  "outcome_inv c \<longleftrightarrow>
     (case ender c of
        NotEnding \<Rightarrow> \<not> Session_Failed (ses c)
      | Flagged r x \<Rightarrow> \<not> Session_Failed (ses c)
      | FailedSet r x \<Rightarrow> Session_Failed (ses c) = (r \<noteq> reasonBattleEnded)
      | CauseSet r \<Rightarrow> Session_Failed (ses c) = (r \<noteq> reasonBattleEnded) \<and> EndReason (ses c) = r
      | Setting r _ \<Rightarrow> Session_Failed (ses c) = (r \<noteq> reasonBattleEnded) \<and> EndReason (ses c) = r
      | _ \<Rightarrow> Session_Failed (ses c) = (the (stated (ender c)) \<noteq> reasonBattleEnded)
          \<and> EndReason (ses c) = the (stated (ender c)) \<and> ds_state (ses c) = end_state_of (the (stated (ender c))))"

definition settling_inv :: "conf \<Rightarrow> bool" where
  "settling_inv c \<longleftrightarrow>
     (\<forall>i k m. sending_or_waiting (callers c i) \<longrightarrow> seq_of (callers c i) = Some (k, m) \<longrightarrow>
        (case ender c of
           Settling r ks \<Rightarrow> k \<in> set ks \<or> m \<in> fst ` set (ds_mail (ses c))
         | Settled r \<Rightarrow> m \<in> fst ` set (ds_mail (ses c))
         | EndDone r \<Rightarrow> m \<in> fst ` set (ds_mail (ses c))
         | _ \<Rightarrow> True))"


section \<open>The pieces on the tables and the end record\<close>

abbreviation delivered :: "dsession \<Rightarrow> nat set" where
  "delivered s \<equiv> fst ` set (ds_mail s)"

definition pending_or_done :: "dsession \<Rightarrow> u32 \<Rightarrow> nat \<Rightarrow> bool" where
  "pending_or_done s k m \<longleftrightarrow> map_of (ds_inflight s) k = Some m \<or> m \<in> delivered s"

lemma settle_key_pending:
  "pending_or_done s k m \<Longrightarrow> pending_or_done (settle_key k' r s) k m"
  "m \<in> delivered s \<Longrightarrow> m \<in> delivered (settle_key k' r s)"
  "map_of (ds_inflight s) k = Some m \<Longrightarrow> m \<in> delivered (settle_key k r s)"
  by (auto simp: pending_or_done_def settle_key_def LoadAndDelete_def dput_mail_def delete_conv' split: option.split)

lemma settle_key_fields [simp]:
  "ds_end (settle_key k r s) = ds_end s" "ds_state (settle_key k r s) = ds_state s"
  "ds_closed (settle_key k r s) = ds_closed s"
  by (simp_all add: settle_key_def dput_mail_def split: option.split prod.split)

lemma piece_fields [simp]:
  "ds_inflight (end_failed r s) = ds_inflight s" "ds_mail (end_failed r s) = ds_mail s" "ds_state (end_failed r s) = ds_state s"
  "ds_inflight (end_cause r x s) = ds_inflight s" "ds_mail (end_cause r x s) = ds_mail s" "ds_state (end_cause r x s) = ds_state s"
  "ds_inflight (end_connection r s) = ds_inflight s" "ds_mail (end_connection r s) = ds_mail s"
  "ds_state (end_connection r s) = ds_state s" "ds_end (end_connection r s) = ds_end s"
  by (simp_all add: end_failed_def end_cause_def end_connection_def startLinger_def closeCurrent_def dclose_tr_def
      split: option.split)

lemma pending_pieces [simp]:
  "pending_or_done (end_failed r s) = pending_or_done s" "pending_or_done (end_cause r x s) = pending_or_done s"
  "pending_or_done (end_connection r s) = pending_or_done s" "pending_or_done (s\<lparr>ds_state := st\<rparr>) = pending_or_done s"
  by (simp_all add: pending_or_done_def fun_eq_iff)

lemma piece_flags [simp]:
  "Terminal (end_failed r s) = Terminal s" "Terminal (end_cause r x s) = Terminal s" "Terminal (end_connection r s) = Terminal s"
  "Terminal (settle_key k q s) = Terminal s" "Session_Failed (settle_key k q s) = Session_Failed s"
  "EndReason (settle_key k q s) = EndReason s" "Session_Failed (end_connection r s) = Session_Failed s"
  "EndReason (end_connection r s) = EndReason s" "Session_Failed (end_cause r x s) = Session_Failed s"
  "EndReason (end_cause r x s) = r"
  "Session_Failed (end_failed r s) = (Session_Failed s \<or> r \<noteq> reasonBattleEnded)"
  by (simp_all add: Terminal_def Session_Failed_def EndReason_def end_failed_def end_cause_def battleEndReason_def)

lemma same_end_flags [simp]:
  "Terminal (s\<lparr>ds_inflight := t\<rparr>) = Terminal s" "Session_Failed (s\<lparr>ds_inflight := t\<rparr>) = Session_Failed s"
  "EndReason (s\<lparr>ds_inflight := t\<rparr>) = EndReason s"
  "Terminal (s\<lparr>ds_wire := w\<rparr>) = Terminal s" "Session_Failed (s\<lparr>ds_wire := w\<rparr>) = Session_Failed s"
  "EndReason (s\<lparr>ds_wire := w\<rparr>) = EndReason s"
  "Terminal (s\<lparr>ds_state := st\<rparr>) = Terminal s" "Session_Failed (s\<lparr>ds_state := st\<rparr>) = Session_Failed s"
  "EndReason (s\<lparr>ds_state := st\<rparr>) = EndReason s"
  "Terminal (s\<lparr>ds_closed := b\<rparr>) = Terminal s" "Session_Failed (s\<lparr>ds_closed := b\<rparr>) = Session_Failed s"
  "EndReason (s\<lparr>ds_closed := b\<rparr>) = EndReason s"
  by (simp_all add: Terminal_def Session_Failed_def EndReason_def)

lemma newInflight_effect:
  "newInflight s = (seq, m, t) \<Longrightarrow> map_of (ds_inflight t) = (map_of (ds_inflight s))(seq \<mapsto> m)
    \<and> ds_mail t = ds_mail s \<and> ds_end t = ds_end s \<and> ds_state t = ds_state s \<and> ds_closed t = ds_closed s"
  by (auto simp: newInflight_def Store_def update_conv' Let_def)

lemma newInflight_flags:
  "newInflight s = (seq, m, t) \<Longrightarrow> Terminal t = Terminal s \<and> Session_Failed t = Session_Failed s \<and> EndReason t = EndReason s"
  using newInflight_effect[of s seq m t] by (simp add: Terminal_def Session_Failed_def EndReason_def)

text \<open>What an action can do, seen from the invariants: the shapes of the state change.\<close>

lemma callers_inv_alt:
  "callers_inv c \<longleftrightarrow>
     (\<forall>i k m. seq_of (callers c i) = Some (k, m) \<longrightarrow> k \<in> set (held c) \<and> pending_or_done (ses c) k m)
   \<and> (\<forall>i j k m n. seq_of (callers c i) = Some (k, m) \<longrightarrow> seq_of (callers c j) = Some (k, n) \<longrightarrow> i = j)
   \<and> (\<forall>i. holds_lock (callers c i) \<longrightarrow> wlock c = Some i)"
  by (simp add: callers_inv_def pending_or_done_def)

lemma callers_inv_session:
  assumes "callers_inv c" and "callers d = callers c" and "held d = held c" and "wlock d = wlock c"
    and "\<And>k m. pending_or_done (ses c) k m \<Longrightarrow> pending_or_done (ses d) k m"
  shows "callers_inv d"
  using assms(1,5) unfolding callers_inv_alt assms(2-4) by blast

lemma callers_inv_move:
  assumes "callers_inv c" and "seq_of (callers c i) = Some (k, m)" and "seq_of w = Some (k, m)"
    and "holds_lock w \<longrightarrow> l = Some i" and "\<And>j. j \<noteq> i \<Longrightarrow> holds_lock (callers c j) \<Longrightarrow> l = Some j"
  shows "callers_inv (c\<lparr>callers := (callers c)(i := w), wlock := l\<rparr>)"
  using assms unfolding callers_inv_alt by (auto split: if_splits)

lemma callers_inv_leave:
  assumes inv: "callers_inv c" and i: "seq_of (callers c i) = Some (k, m)"
    and l: "\<And>j. j \<noteq> i \<Longrightarrow> holds_lock (callers c j) \<Longrightarrow> l = Some j"
  shows "callers_inv ((leave i k c)\<lparr>wlock := l\<rparr>)"
proof -
  have other: "k' \<noteq> k" if "j \<noteq> i" "seq_of (callers c j) = Some (k', m')" for j k' m'
    using inv i that unfolding callers_inv_alt by blast
  have "k' \<in> set (removeAll k (held c)) \<and> pending_or_done ((ses c)\<lparr>ds_inflight := Delete k (ds_inflight (ses c))\<rparr>) k' m'"
    if "j \<noteq> i" "seq_of (callers c j) = Some (k', m')" for j k' m'
    using inv other[OF that] that unfolding callers_inv_alt
    by (auto simp: pending_or_done_def Delete_def delete_conv')
  then show ?thesis
    using inv l unfolding callers_inv_alt by (auto simp: leave_def split: if_splits)
qed

lemma callers_inv_step:
  assumes "callers_inv c" and "act_do a c = Some d"
  shows "callers_inv d"
proof -
  have lock: "holds_lock (callers c j) \<Longrightarrow> wlock c = Some j" for j
    using assms(1) by (simp add: callers_inv_def)
  show ?thesis
  proof (cases a)
    case (Register i)
    then obtain k m s where n: "callers c i = Idle" "newInflight (ses c) = (k, m, s)" "k \<notin> set (held c)"
        "d = c\<lparr>ses := s, callers := (callers c)(i := Registered k m), held := k # held c\<rparr>"
      using assms(2) by (auto split: caller.splits prod.splits if_splits)
    have "pending_or_done (ses c) k' m' \<Longrightarrow> k' \<in> set (held c) \<Longrightarrow> pending_or_done s k' m'" for k' m'
      using newInflight_effect[OF n(2)] n(3) by (auto simp: pending_or_done_def)
    moreover have "pending_or_done s k m" using newInflight_effect[OF n(2)] by (simp add: pending_or_done_def)
    ultimately show ?thesis
      using assms(1) n unfolding callers_inv_alt by (auto split: if_splits)
  next
    case (Test1 i)
    then obtain k m where n: "callers c i = Registered k m"
        "d = (if Terminal (ses c) then leave i k c else c\<lparr>callers := (callers c)(i := Passed k m)\<rparr>)"
      using assms(2) by (auto split: caller.splits)
    have "callers_inv (leave i k c)" "callers_inv (c\<lparr>callers := (callers c)(i := Passed k m)\<rparr>)"
      using callers_inv_leave[OF assms(1), of i k m "wlock c"] callers_inv_move[OF assms(1), of i k m "Passed k m" "wlock c"] n(1) lock
      by (simp_all add: leave_def)
    then show ?thesis using n(2) by simp
  next
    case (Lock i)
    then obtain k m where n: "callers c i = Passed k m" "wlock c = None"
        "d = c\<lparr>callers := (callers c)(i := Locked k m), wlock := Some i\<rparr>"
      using assms(2) by (auto split: caller.splits option.splits)
    then show ?thesis using callers_inv_move[OF assms(1), of i k m "Locked k m" "Some i"] lock by fastforce
  next
    case (Test2 i)
    then obtain k m where n: "callers c i = Locked k m"
        "d = (if Terminal (ses c) then (leave i k c)\<lparr>wlock := None\<rparr> else c\<lparr>callers := (callers c)(i := Checked k m)\<rparr>)"
      using assms(2) by (auto split: caller.splits)
    have l: "j \<noteq> i \<Longrightarrow> \<not> holds_lock (callers c j)" "wlock c = Some i" for j using lock[of i] lock[of j] n(1) by auto
    have "callers_inv ((leave i k c)\<lparr>wlock := None\<rparr>)"
      by (rule callers_inv_leave[OF assms(1), of i k m]) (simp_all add: n(1) l(1))
    moreover have "callers_inv (c\<lparr>callers := (callers c)(i := Checked k m), wlock := Some i\<rparr>)"
      by (rule callers_inv_move[OF assms(1), of i k m]) (simp_all add: n(1) l(1))
    moreover have "c\<lparr>callers := (callers c)(i := Checked k m), wlock := Some i\<rparr> = c\<lparr>callers := (callers c)(i := Checked k m)\<rparr>"
      using l(2) by (cases c) simp
    ultimately show ?thesis using n(2) by simp
  next
    case (WriteOk i hdr body)
    then obtain k m g where n: "callers c i = Checked k m"
        "d = c\<lparr>ses := (ses c)\<lparr>ds_wire := ds_wire (ses c) @ [(g, hdr, body)]\<rparr>,
                  callers := (callers c)(i := Waits k m), wlock := None,
                  late := (if Terminal (ses c) then Suc (late c) else late c)\<rparr>"
      using assms(2) by (auto split: caller.splits option.splits)
    have l: "j \<noteq> i \<Longrightarrow> \<not> holds_lock (callers c j)" for j using lock[of i] lock[of j] n(1) by auto
    have "callers_inv (c\<lparr>callers := (callers c)(i := Waits k m), wlock := None\<rparr>)"
      by (rule callers_inv_move[OF assms(1), of i k m]) (simp_all add: n(1) l)
    then show ?thesis by (rule callers_inv_session) (simp_all add: n(2) pending_or_done_def)
  next
    case (WriteErr i)
    then obtain k m where n: "callers c i = Checked k m" "d = (leave i k c)\<lparr>wlock := None\<rparr>"
      using assms(2) by (auto split: caller.splits)
    have "j \<noteq> i \<Longrightarrow> \<not> holds_lock (callers c j)" for j using lock[of i] lock[of j] n(1) by auto
    then show ?thesis unfolding n(2) by (intro callers_inv_leave[OF assms(1), of i k m]) (simp_all add: n(1))
  next
    case (Take i)
    then obtain k m where n: "callers c i = Waits k m" "d = leave i k c"
      using assms(2) by (auto split: caller.splits if_splits)
    then show ?thesis using callers_inv_leave[OF assms(1), of i k m "wlock c"] lock by (simp add: leave_def)
  next
    case (GiveUp i)
    then obtain k m where n: "callers c i = Waits k m" "d = leave i k c"
      using assms(2) by (auto split: caller.splits if_splits)
    then show ?thesis using callers_inv_leave[OF assms(1), of i k m "wlock c"] lock by (simp add: leave_def)
  next
    case (Settle k r)
    then have d: "d = c\<lparr>ses := settle_key k r (ses c)\<rparr>" using assms(2) by simp
    show ?thesis by (rule callers_inv_session[OF assms(1)]) (simp_all add: d settle_key_pending(1))
  next
    case EnderStep
    then have d: "callers d = callers c" "held d = held c" "wlock d = wlock c"
        "\<And>k m. pending_or_done (ses c) k m \<Longrightarrow> pending_or_done (ses d) k m"
      using assms(2) settle_key_pending(1)
      by (auto simp: ender_step_def split: ender.splits list.splits if_splits)
    then show ?thesis by (rule callers_inv_session[OF assms(1)])
  qed (rule callers_inv_session[OF assms(1)];
      use assms(2) in \<open>auto simp: pending_or_done_def end_flag_def split: if_splits option.splits prod.splits\<close>)+
qed


lemma callers_inv_start: "race_start_of c \<Longrightarrow> callers_inv c"
  by (auto simp: race_start_of_def conf_of_def callers_inv_def)

lemma is_checked_unique:
  "callers_inv c \<Longrightarrow> is_checked (callers c i) \<Longrightarrow> is_checked (callers c j) \<Longrightarrow> i = j"
proof -
  assume inv: "callers_inv c" and "is_checked (callers c i)" "is_checked (callers c j)"
  then have "holds_lock (callers c i)" "holds_lock (callers c j)"
    by (cases "callers c i", simp_all, cases "callers c j", simp_all)
  then show "i = j" using inv unfolding callers_inv_def by (metis option.inject)
qed

text \<open>The callers past the second test, as far as the counting of late writes goes.\<close>

definition checked_count :: "conf \<Rightarrow> nat" where
  "checked_count c = (if \<exists>i. is_checked (callers c i) then 1 else 0)"

definition counting_inv :: "conf \<Rightarrow> bool" where
  "counting_inv c \<longleftrightarrow> (Terminal (ses c) \<longleftrightarrow> ender c \<noteq> NotEnding)
     \<and> (if Terminal (ses c) then late c + checked_count c \<le> 1 else late c = 0)"

lemma checked_count_leave:
  assumes "callers_inv c" and "is_checked (callers c i)" and "\<not> is_checked w" and "callers d = (callers c)(i := w)"
  shows "checked_count d = 0 \<and> checked_count c = 1"
proof -
  have "\<not> is_checked (callers d j)" for j
  proof (cases "j = i")
    case False
    then have "\<not> is_checked (callers c j)" using is_checked_unique[OF assms(1,2), of j] by blast
    then show ?thesis using assms(4) False by simp
  qed (simp add: assms(3,4))
  then show ?thesis using assms(2) by (auto simp: checked_count_def)
qed

lemma checked_count_other:
  assumes "\<not> is_checked (callers c i)" and "\<not> is_checked w" and "callers d = (callers c)(i := w)"
  shows "checked_count d = checked_count c"
proof -
  have "is_checked (callers d j) = is_checked (callers c j)" for j
    using assms by (cases "j = i") auto
  then show ?thesis by (simp add: checked_count_def)
qed

lemma checked_count_same: "callers d = callers c \<Longrightarrow> checked_count d = checked_count c"
  by (simp add: checked_count_def)

lemma checked_count_le: "checked_count c \<le> 1"
  by (simp add: checked_count_def)

lemma counting_inv_step:
  assumes "callers_inv c" and "counting_inv c" and "act_do a c = Some d"
  shows "counting_inv d"
proof (cases a)
  case (WriteOk i hdr body)
  then obtain k m g where n: "callers c i = Checked k m"
        "d = c\<lparr>ses := (ses c)\<lparr>ds_wire := ds_wire (ses c) @ [(g, hdr, body)]\<rparr>,
                  callers := (callers c)(i := Waits k m), wlock := None,
                  late := (if Terminal (ses c) then Suc (late c) else late c)\<rparr>"
    using assms(3) by (auto split: caller.splits option.splits)
  then show ?thesis
    using assms(2) checked_count_leave[OF assms(1), of i "Waits k m" d] by (auto simp: counting_inv_def)
next
  case (WriteErr i)
  then obtain k m where n: "callers c i = Checked k m" "d = (leave i k c)\<lparr>wlock := None\<rparr>"
    using assms(3) by (auto split: caller.splits)
  then show ?thesis
    using assms(2) checked_count_leave[OF assms(1), of i Idle d] by (auto simp: counting_inv_def leave_def)
next
  case (Test2 i)
  then obtain k m where n: "callers c i = Locked k m"
      "d = (if Terminal (ses c) then (leave i k c)\<lparr>wlock := None\<rparr> else c\<lparr>callers := (callers c)(i := Checked k m)\<rparr>)"
    using assms(3) by (auto split: caller.splits)
  then show ?thesis
    using assms(2) checked_count_other[of c i Idle d] by (auto simp: counting_inv_def leave_def)
next
  case (MarkEnded r x)
  then have d: "callers d = callers c" "late d = late c"
      "Terminal (ses c) \<and> d = c \<or> \<not> Terminal (ses c) \<and> Terminal (ses d) \<and> ender d = Flagged r x"
    using assms(3) by (auto simp: end_flag_def Terminal_def split: if_splits prod.splits)
  then show ?thesis
    using assms(2) checked_count_same[OF d(1)] checked_count_le[of c] by (auto simp: counting_inv_def)
next
  case EnderStep
  then have d: "callers d = callers c" "late d = late c" "Terminal (ses d) = Terminal (ses c)"
      "ender c \<noteq> NotEnding" "ender d \<noteq> NotEnding"
    using assms(3) by (auto simp: ender_step_def split: ender.splits list.splits if_splits)
  then show ?thesis using assms(2) checked_count_same[OF d(1)] by (auto simp: counting_inv_def)
next
  case (Register i)
  then obtain k m s where n: "callers c i = Idle" "newInflight (ses c) = (k, m, s)"
      "d = c\<lparr>ses := s, callers := (callers c)(i := Registered k m), held := k # held c\<rparr>"
    using assms(3) by (auto split: caller.splits prod.splits if_splits)
  then show ?thesis
    using assms(2) checked_count_other[of c i "Registered k m" d] newInflight_flags[OF n(2)] by (auto simp: counting_inv_def)
next
  case (Test1 i)
  then obtain k m where "callers c i = Registered k m"
      "d = (if Terminal (ses c) then leave i k c else c\<lparr>callers := (callers c)(i := Passed k m)\<rparr>)"
    using assms(3) by (auto split: caller.splits)
  then show ?thesis
    using assms(2) checked_count_other[of c i Idle d] checked_count_other[of c i "Passed k m" d]
    by (auto simp: counting_inv_def leave_def)
next
  case (Lock i)
  then obtain k m where "callers c i = Passed k m" "d = c\<lparr>callers := (callers c)(i := Locked k m), wlock := Some i\<rparr>"
    using assms(3) by (auto split: caller.splits option.splits)
  then show ?thesis using assms(2) checked_count_other[of c i "Locked k m" d] by (auto simp: counting_inv_def)
next
  case (Take i)
  then obtain k m where "callers c i = Waits k m" "d = leave i k c"
    using assms(3) by (auto split: caller.splits if_splits)
  then show ?thesis using assms(2) checked_count_other[of c i Idle d] by (auto simp: counting_inv_def leave_def)
next
  case (GiveUp i)
  then obtain k m where "callers c i = Waits k m" "d = leave i k c"
    using assms(3) by (auto split: caller.splits if_splits)
  then show ?thesis using assms(2) checked_count_other[of c i Idle d] by (auto simp: counting_inv_def leave_def)
qed (use assms in \<open>auto simp: counting_inv_def checked_count_def split: if_splits option.splits\<close>)


text \<open>The other fields an action leaves alone.\<close>

definition quiet_act :: "act \<Rightarrow> bool" where
  "quiet_act a \<longleftrightarrow> (case a of EnderStep \<Rightarrow> False | MarkEnded _ _ \<Rightarrow> False | SetTest _ \<Rightarrow> False | SetStore \<Rightarrow> False | _ \<Rightarrow> True)"

lemma quiet_act_keeps:
  assumes "act_do a c = Some d" and "quiet_act a"
  shows "ender d = ender c" "setter d = setter c" "ds_end (ses d) = ds_end (ses c)" "ds_state (ses d) = ds_state (ses c)"
  using assms
  by (cases a; auto simp: quiet_act_def leave_def split: caller.splits prod.splits option.splits if_splits
      dest!: newInflight_effect)+

lemma allowed_terminal: "setState_allowed (end_state_of r) s"
  by (simp add: setState_allowed_def end_state_of_def)

lemma not_quiet_cases:
  "\<not> quiet_act a \<Longrightarrow> a = EnderStep \<or> (\<exists>r x. a = MarkEnded r x) \<or> (\<exists>st. a = SetTest st) \<or> a = SetStore"
  by (auto simp: quiet_act_def split: act.splits)

lemma MarkEnded_cases:
  "act_do (MarkEnded r x) c = Some d \<Longrightarrow>
     Terminal (ses c) \<and> d = c \<or> \<not> Terminal (ses c) \<and> d = c\<lparr>ses := snd (end_flag (ses c)), ender := Flagged r x\<rparr>"
  by (auto simp: end_flag_def Terminal_def split: if_splits)

lemma setter_inv_step:
  assumes "counting_inv c" and "setter_inv c" and "act_do a c = Some d"
  shows "setter_inv d"
proof (cases "quiet_act a")
  case True
  show ?thesis using assms(2) unfolding setter_inv_def quiet_act_keeps[OF assms(3) True] .
next
  case False
  then consider "a = EnderStep" | r x where "a = MarkEnded r x" | st where "a = SetTest st" | "a = SetStore"
    using not_quiet_cases by blast
  then show ?thesis
  proof cases
    case 1
    then show ?thesis
      using assms(2,3) allowed_terminal
      by (auto simp: ender_step_def setter_inv_def split: ender.splits list.splits if_splits option.splits)
  next
    case 2
    then show ?thesis
      using MarkEnded_cases[of r x c d] assms by (auto simp: setter_inv_def counting_inv_def split: option.splits)
  next
    case 3
    then have d: "genMu_free c" "st \<in> {DStateConnected, DStateReconnecting, DStateDisconnected}"
        "d = c\<lparr>setter := Some (st, setState_allowed st (ses c))\<rparr>"
      using assms(3) by (auto split: if_splits)
    have "stated (ender c) = None" if "setState_allowed st (ses c)"
      using that d(2) assms(1) by (auto simp: setState_allowed_def dstate_consts counting_inv_def Terminal_def)
    then show ?thesis
      using d(1,3) by (auto simp: setter_inv_def genMu_free_def split: ender.splits)
  next
    case 4
    then show ?thesis using assms(2,3) by (auto simp: setter_inv_def split: option.splits)
  qed
qed

lemma outcome_inv_step:
  assumes "counting_inv c" and "setter_inv c" and "outcome_inv c" and "act_do a c = Some d"
  shows "outcome_inv d"
proof (cases "quiet_act a")
  case True
  then have flags: "Session_Failed (ses d) = Session_Failed (ses c)" "EndReason (ses d) = EndReason (ses c)"
    using quiet_act_keeps[OF assms(4)] by (simp_all add: Session_Failed_def EndReason_def)
  show ?thesis using assms(3) unfolding outcome_inv_def quiet_act_keeps[OF assms(4) True] flags .
next
  case False
  then consider "a = EnderStep" | r x where "a = MarkEnded r x" | st where "a = SetTest st" | "a = SetStore"
    using not_quiet_cases by blast
  then show ?thesis
  proof cases
    case 1
    then show ?thesis
      using assms(2,3,4)
      by (auto simp: ender_step_def outcome_inv_def setter_inv_def split: ender.splits list.splits if_splits)
  next
    case 2
    have "Session_Failed (snd (end_flag (ses c))) = Session_Failed (ses c)" by (simp add: end_flag_def Session_Failed_def)
    then show ?thesis
      using MarkEnded_cases[of r x c d] 2 assms by (auto simp: outcome_inv_def counting_inv_def)
  next
    case 3
    then have d: "ender d = ender c" "ses d = ses c" using assms(4) by (auto split: if_splits)
    show ?thesis using assms(3) unfolding outcome_inv_def d .
  next
    case 4
    then obtain st ok where s: "setter c = Some (st, ok)"
        "d = c\<lparr>ses := (if ok then (ses c)\<lparr>ds_state := st\<rparr> else ses c), setter := None\<rparr>"
      using assms(4) by (auto split: option.splits)
    show ?thesis
    proof (cases ok)
      case True
      then have "stated (ender c) = None" using assms(2) s(1) by (simp add: setter_inv_def)
      then show ?thesis using assms(3) s(2) True by (cases "ender c") (simp_all add: outcome_inv_def)
    next
      case False
      then have d: "ender d = ender c" "ses d = ses c" using s(2) by simp_all
      show ?thesis using assms(3) unfolding outcome_inv_def d .
    qed
  qed
qed

lemma pending_of: "callers_inv c \<Longrightarrow> seq_of (callers c i) = Some (k, m) \<Longrightarrow> pending_or_done (ses c) k m"
  unfolding callers_inv_alt by blast

text \<open>Callers past the second test, or waiting, after an action: they were before, unless nothing has ended.\<close>

lemma sender_before:
  assumes "act_do a c = Some d" and "sending_or_waiting (callers d i)" and "seq_of (callers d i) = Some (k, m)"
  shows "sending_or_waiting (callers c i) \<and> seq_of (callers c i) = Some (k, m) \<or> \<not> Terminal (ses c)"
  using assms
  by (cases a; auto simp: leave_def ender_step_def split: caller.splits prod.splits bool.splits option.splits if_splits ender.splits list.splits)

lemma delivered_grows:
  assumes "act_do a c = Some d"
  shows "delivered (ses c) \<subseteq> delivered (ses d)"
proof -
  have grow: "(m, q) \<in> set (ds_mail s) \<Longrightarrow> m \<in> delivered (settle_key k r s)" for m q k r s
    using settle_key_pending(2)[of m s] by (force intro: rev_image_eqI)
  show ?thesis
    using assms
    by (cases a; auto simp: leave_def ender_step_def end_flag_def split: caller.splits prod.splits option.splits if_splits
        ender.splits list.splits dest!: newInflight_effect intro: grow rev_image_eqI)
qed

lemma settling_inv_step:
  assumes "callers_inv c" and "counting_inv c" and "settling_inv c" and "act_do a c = Some d"
  shows "settling_inv d"
proof -
  have goal: "case ender d of
           Settling r ks \<Rightarrow> k \<in> set ks \<or> m \<in> delivered (ses d)
         | Settled r \<Rightarrow> m \<in> delivered (ses d) | EndDone r \<Rightarrow> m \<in> delivered (ses d) | _ \<Rightarrow> True"
    if i: "sending_or_waiting (callers d i)" "seq_of (callers d i) = Some (k, m)" for i k m
  proof (cases "Terminal (ses c)")
    case True
    then have b: "sending_or_waiting (callers c i)" "seq_of (callers c i) = Some (k, m)"
      using sender_before[OF assms(4) i] by auto
    have grow: "m \<in> delivered (ses c) \<Longrightarrow> m \<in> delivered (ses d)" using delivered_grows[OF assms(4)] by blast
    have p: "pending_or_done (ses c) k m" using pending_of[OF assms(1) b(2)] .
    have known: "k \<in> set (map fst (ds_inflight (ses c))) \<or> m \<in> delivered (ses c)"
      using p by (auto simp: pending_or_done_def intro: rev_image_eqI dest: map_of_SomeD)
    have now: "m \<in> delivered (settle_key k r (ses c))" for r
      using p settle_key_pending(2)[of m "ses c"] settle_key_pending(3)[of "ses c" k m] unfolding pending_or_done_def by blast
    have inst: "case ender c of Settling r ks \<Rightarrow> k \<in> set ks \<or> m \<in> delivered (ses c)
        | Settled r \<Rightarrow> m \<in> delivered (ses c) | EndDone r \<Rightarrow> m \<in> delivered (ses c) | _ \<Rightarrow> True"
      using assms(3) b unfolding settling_inv_def by blast
    show ?thesis
    proof (cases "a = EnderStep")
      case True
      then show ?thesis
        using inst assms(4) grow known now
        by (auto simp: ender_step_def simp del: set_map split: ender.splits list.splits if_splits)
    next
      case False
      then have "ender d = ender c"
        using assms(4) True by (cases a) (auto simp: leave_def end_flag_def Terminal_def split: caller.splits prod.splits option.splits if_splits)
      then show ?thesis using inst grow by (auto split: ender.splits)
    qed
  next
    case False
    then have "ender c = NotEnding" using assms(2) by (auto simp: counting_inv_def)
    then have "ender d = NotEnding \<or> (\<exists>r x. ender d = Flagged r x)"
      using assms(4) by (cases a) (auto simp: leave_def ender_step_def split: caller.splits prod.splits bool.splits option.splits if_splits)
    then show ?thesis by auto
  qed
  then show ?thesis unfolding settling_inv_def by blast
qed

definition race_inv_direct :: "conf \<Rightarrow> bool" where
  "race_inv_direct c \<longleftrightarrow> callers_inv c \<and> counting_inv c \<and> setter_inv c \<and> outcome_inv c \<and> settling_inv c"

interpretation ending: inductive_invariant race_start_of act_step race_inv_direct
proof
  fix c assume "race_start_of c"
  then show "race_inv_direct c"
    by (auto simp: race_inv_direct_def race_start_of_def conf_of_def callers_inv_def counting_inv_def setter_inv_def
        outcome_inv_def settling_inv_def)
next
  fix c a d assume "race_inv_direct c" "act_step c a d"
  then show "race_inv_direct d"
    using callers_inv_step counting_inv_step setter_inv_step outcome_inv_step settling_inv_step
    unfolding race_inv_direct_def by (blast elim: act_stepE)
qed


lemma reachD:
  assumes "race_reach c"
  shows "callers_inv c" "counting_inv c" "setter_inv c" "outcome_inv c" "settling_inv c"
  using ending.reach_inv[OF assms] by (simp_all add: race_inv_direct_def)

section \<open>What holds in every interleaving\<close>

text \<open>Once the winner has stored its state, no action changes who won or undoes it.\<close>

lemma stated_step:
  "act_do a c = Some d \<Longrightarrow> stated (ender c) = Some r \<Longrightarrow> Terminal (ses c) \<Longrightarrow> stated (ender d) = Some r"
  by (cases a) (auto simp: ender_step_def leave_def end_flag_def Terminal_def
      split: caller.splits prod.splits option.splits if_splits ender.splits list.splits)

lemma stated_outcome:
  assumes "race_reach c" and "stated (ender c) = Some r"
  shows "Terminal (ses c) \<and> ds_state (ses c) = end_state_of r \<and> EndReason (ses c) = r
    \<and> Session_Failed (ses c) = (r \<noteq> reasonBattleEnded)"
  using reachD(2,4)[OF assms(1)] assms(2)
  by (cases "ender c") (auto simp: counting_inv_def outcome_inv_def)

text \<open>
  C6: A terminal state is final. From the moment the goroutine that ends the session has stored the
  state, in every interleaving with callers, setters of other states, repeated endings and
  \<open>Close\<close>, the session stays terminal, in the state of the first reason, with that reason, and
  as failed exactly when the reason is not \<open>BATTLE_ENDED\<close>.
\<close>

theorem terminal_irrevocable:
  assumes "race_reach c" and "stated (ender c) = Some r" and "reach (\<lambda>x. x = c) act_step d"
  shows "race_reach d \<and> Terminal (ses d) \<and> EndReason (ses d) = r
    \<and> ds_state (ses d) = (if r = reasonBattleEnded then DStateEnded else DStateFailed)
    \<and> Ended (ses d) = (r = reasonBattleEnded) \<and> Session_Failed (ses d) = (r \<noteq> reasonBattleEnded)"
proof -
  from assms(3) have "race_reach d \<and> stated (ender d) = Some r"
  proof induction
    case (reach_start s)
    then show ?case using assms by simp
  next
    case (reach_step s a t)
    then have "act_do a s = Some t" by (auto elim: act_stepE)
    moreover have "Terminal (ses s)" using stated_outcome reach_step.IH by blast
    ultimately show ?case using reach_step stated_step by (blast intro: reach.reach_step)
  qed
  then show ?thesis
    using stated_outcome[of d r] by (auto simp: end_state_of_def battleEndReason_def Ended_def Session_Failed_def Terminal_def)
qed

text \<open>
  C16: After the end flag is set at most one more frame goes out, the one whose caller had already made
  its second test and holds the write lock; every other caller, wherever it was, is refused.
\<close>

theorem writes_after_end:
  "race_reach c \<Longrightarrow> late c \<le> 1 \<and> (Terminal (ses c) \<and> late c = 1 \<longrightarrow> (\<forall>i k m. callers c i \<noteq> Checked k m))"
  using reachD(2)[of c] unfolding counting_inv_def checked_count_def
  by (auto split: if_splits) (metis is_checked.simps(1))

text \<open>
  C17: Ending leaves nobody waiting. Once \<open>markEnded\<close> has settled, every caller that is waiting for a
  reply, or is about to because its frame is being written, has its result; so it returns at
  once, without a reply and without its timer.
\<close>

theorem end_settles_waiting:
  assumes "race_reach c" and "settled (ender c)" and "callers c i = Waits k m \<or> callers c i = Checked k m"
  shows "m \<in> fst ` set (ds_mail (ses c)) \<and> (callers c i = Waits k m \<longrightarrow> act_do (Take i) c \<noteq> None)"
proof -
  have "sending_or_waiting (callers c i)" "seq_of (callers c i) = Some (k, m)" using assms(3) by auto
  then have "m \<in> fst ` set (ds_mail (ses c))"
    using reachD(5)[OF assms(1)] assms(2) unfolding settling_inv_def by (cases "ender c") fastforce+
  then show ?thesis by auto
qed

section \<open>Schedules\<close>

lemma race_reach_run:
  "race_start_of c \<Longrightarrow> run_steps (\<lambda>c a. act_do a c) c as = Some d \<Longrightarrow> race_reach d"
  by (rule reach_run_steps[where f = "\<lambda>c a. act_do a c"]) (auto intro: act_step.intros reach.reach_start)

lemma demo_race_start: "race_start_of (conf_of demo_session)"
  unfolding race_start_of_def by (intro exI[of _ demo_session]) simp

definition waiting_schedule :: "act list" where
  "waiting_schedule = [Register 0, Test1 0, Lock 0, Test2 0, WriteOk 0 (request_header demo_session 1) [],
     Register 1, Test1 1, Lock 1, Test2 1, MarkEnded reasonBattleFull None,
     WriteOk 1 (request_header demo_session 2) [], EnderStep, EnderStep, EnderStep, EnderStep, EnderStep, EnderStep,
     EnderStep, EnderStep]"

lemma waiting_run:
  "\<exists>d. run_steps (\<lambda>c a. act_do a c) (conf_of demo_session) waiting_schedule = Some d
     \<and> ender d = Settled reasonBattleFull \<and> callers d 0 = Waits 1 0 \<and> callers d 1 = Waits 2 1 \<and> late d = 1"
  by (simp add: waiting_schedule_def conf_of_def newInflight_def Store_def Terminal_def no_end_def end_flag_def
      ender_step_def end_failed_def end_cause_def battleEndReason_def reason_defs setState_allowed_def end_state_of_def
      settle_key_def LoadAndDelete_def dput_mail_def dstate_consts Let_def)


lemma waiting_reach:
  "\<exists>d. race_reach d \<and> ender d = Settled reasonBattleFull \<and> callers d 0 = Waits 1 0 \<and> callers d 1 = Waits 2 1 \<and> late d = 1"
  using waiting_run race_reach_run[OF demo_race_start] by blast

theorem terminal_irrevocable_witness:
  "\<exists>d. race_reach d \<and> ds_state (ses d) = DStateFailed \<and> EndReason (ses d) = ''BATTLE_FULL''"
proof -
  obtain c where c: "race_reach c" "ender c = Settled reasonBattleFull" using waiting_reach by blast
  have "reach (\<lambda>x. x = c) act_step c" by (rule reach.reach_start) simp
  from terminal_irrevocable[OF c(1) _ this, of reasonBattleFull] c show ?thesis
    by (intro exI[of _ c]) (simp add: reason_defs)
qed

theorem writes_after_end_witness:
  "\<exists>c. race_reach c \<and> late c = 1 \<and> late c \<le> 1"
proof -
  obtain c where "race_reach c" "late c = 1" using waiting_reach by blast
  then show ?thesis using writes_after_end[of c] by blast
qed

theorem end_settles_waiting_witness:
  "\<exists>c. race_reach c \<and> callers c 1 = Waits 2 1 \<and> 1 \<in> fst ` set (ds_mail (ses c))"
proof -
  obtain c where "race_reach c" "ender c = Settled reasonBattleFull" "callers c 1 = Waits 2 1" using waiting_reach by blast
  then show ?thesis using end_settles_waiting[of c 1 2 1] by (intro exI[of _ c]) simp
qed

text \<open>
  C32: The end flag is visible before the reason is. In this schedule the session ends because the
  battle is full; between the first and the second step of \<open>markEnded\<close> it reports \<open>Ended\<close>, as if
  the battle had been played to its end, and refuses a call with \<open>ErrBattleEnded\<close>; a moment later
  it has failed.
\<close>

theorem ended_before_failed:
  "\<exists>c d. race_reach c \<and> act_step c EnderStep d
     \<and> Ended (ses c) \<and> errors_is (endedErr ''/a'' (ses c)) ErrBattleEnded \<and> \<not> errors_is (endedErr ''/a'' (ses c)) ErrBattleFull
     \<and> Session_Failed (ses d) \<and> \<not> Ended (ses d)"
proof -
  let ?c = "(conf_of demo_session)\<lparr>ses := snd (end_flag demo_session), ender := Flagged reasonBattleFull None\<rparr>"
  let ?d = "?c\<lparr>ses := end_failed reasonBattleFull (ses ?c), ender := FailedSet reasonBattleFull None\<rparr>"
  have run: "run_steps (\<lambda>c a. act_do a c) (conf_of demo_session) [MarkEnded reasonBattleFull None] = Some ?c"
    by (simp add: conf_of_def end_flag_def no_end_def)
  have "act_do EnderStep ?c = Some ?d" by (simp add: ender_step_def)
  then have "act_step ?c EnderStep ?d" by (rule act_step.intros)
  moreover have "Ended (ses ?c)" "Session_Failed (ses ?d)" "\<not> Ended (ses ?d)"
    by (simp_all add: Ended_def Session_Failed_def end_flag_def end_failed_def no_end_def battleEndReason_def reason_defs)
  moreover have "endReason (ses ?c) = reasonBattleEnded" by (simp add: endReason_def end_flag_def no_end_def)
  then have "errors_is (endedErr ''/a'' (ses ?c)) ErrBattleEnded" "\<not> errors_is (endedErr ''/a'' (ses ?c)) ErrBattleFull"
    by (simp_all add: endedErr_def terminalSentinel_def)
  ultimately show ?thesis using race_reach_run[OF demo_race_start run] by blast
qed

end
