(* ===== verification/DirectReconnect.thy ===== *)
theory DirectReconnect
  imports DirectRequests
begin

text \<open>
  Reconnecting a direct session (\<open>direct/session_reconnect.go\<close>, \<open>startGeneration\<close> of
  \<open>direct/session.go\<close>): one round of redialling as a function of what the network does, and the
  supervising goroutines as a step system, because every generation starts another one.
\<close>

section \<open>Generations\<close>

definition startGeneration :: "nat \<Rightarrow> dsession \<Rightarrow> bool \<times> dsession" where
  "startGeneration tr s =
     (if ds_closed s then (False, dclose_tr tr s)
      else (True, s\<lparr>ds_gen := Some tr, ds_stats := noteConnect (ds_stats s)\<rparr>))"

definition dialTracked :: "err option \<Rightarrow> dsession \<Rightarrow> dsession" where
  "dialTracked r s = s\<lparr>ds_stats := noteHandshake r (ds_stats s)\<rparr>"

text \<open>\<open>Open\<close>: the checks of \<open>open_plan\<close>, the dial (its error, or the transport), the first generation.\<close>

definition Open :: "Plan \<Rightarrow> DOption list \<Rightarrow> err + nat \<Rightarrow> err + dsession" where
  "Open plan opts dialled =
     (if p_Ticket plan = [] then Inl (wrap_sentinel ErrNotifyNoTicket)
      else
        let o' = applyPlanDefaults plan (foldl (\<lambda>o' opt. opt o') defaultOptions opts) in
        (case pickEndpoint plan (d_transport o') of
           Inl x \<Rightarrow> Inl x
         | Inr (kind, addr) \<Rightarrow>
             (case newSession plan kind addr o' of
                Inl x \<Rightarrow> Inl x
              | Inr s \<Rightarrow>
                  (case dialled of
                     Inl x \<Rightarrow> Inl x
                   | Inr tr \<Rightarrow>
                       (case startGeneration tr (dialTracked None s) of
                          (False, _) \<Rightarrow> Inl (Sentinel ErrClosed)
                        | (True, s) \<Rightarrow> Inr (setState DStateConnected s))))))"

section \<open>Replaying (direct/session_reconnect.go)\<close>

text \<open>
  \<open>mk\<close> is the step's request function applied to the last frame number; each step comes with what
  its request meets, as in \<open>dinvoke\<close>.
\<close>

fun restore_steps ::
  "denv \<Rightarrow> (nat \<Rightarrow> u64 \<Rightarrow> nat option) \<Rightarrow> (Replay \<times> (header \<times> bytes) list \<times> await_end) list \<Rightarrow> dsession
     \<Rightarrow> (err option \<times> dsession) option" where
  "restore_steps e mk [] s = Some (None, s)"
| "restore_steps e mk ((step, fs, fate) # steps) s =
     (case dinvoke e (rp_Op step) (case rp_Req step of None \<Rightarrow> None | Some f \<Rightarrow> mk f (ds_lastSeen s)) False fs fate s of
        None \<Rightarrow> None
      | Some (Some x, s) \<Rightarrow> Some (Some x, s)
      | Some (None, s) \<Rightarrow> restore_steps e mk steps s)"

definition restore ::
  "denv \<Rightarrow> (nat \<Rightarrow> u64 \<Rightarrow> nat option) \<Rightarrow> ((header \<times> bytes) list \<times> await_end) list \<Rightarrow> dsession
     \<Rightarrow> (err option \<times> dsession) option" where
  "restore e mk meets s =
     (if length meets < length (d_replay (ds_opt s)) then None
      else restore_steps e mk (zip (d_replay (ds_opt s)) meets) s)"

section \<open>One round\<close>

text \<open>
  What happens in one turn of the loop of \<open>reconnectRound\<close>: the session is closed during the sleep,
  the dial fails, or it opens a transport and the replay meets the given answers.
\<close>

datatype round_event = SleepClosed | DialFails err | DialOpens nat "((header \<times> bytes) list \<times> await_end) list"

text \<open>The delays slept, the result and the session; \<open>None\<close> while the loop still goes on.\<close>

fun reconnectRound ::
  "denv \<Rightarrow> (nat \<Rightarrow> u64 \<Rightarrow> nat option) \<Rightarrow> duration \<Rightarrow> round_event list \<Rightarrow> dsession
     \<Rightarrow> (duration list \<times> err option \<times> dsession) option" where
  "reconnectRound e mk b [] s = None"
| "reconnectRound e mk b (ev # evs) s =
     (let next = nextBackoff_direct (d_backoffMax (ds_opt s)) b;
          again = (\<lambda>s. map_option (\<lambda>(ds, r). (b # ds, r)) (reconnectRound e mk next evs s))
      in case ev of
           SleepClosed \<Rightarrow> Some ([b], Some (Sentinel ErrClosed), s)
         | DialFails x \<Rightarrow>
             let s = dialTracked (Some x) s in
             if retryable x then again s else Some ([b], Some x, s)
         | DialOpens tr meets \<Rightarrow>
             (case startGeneration tr (dialTracked None s) of
                (False, s) \<Rightarrow> Some ([b], Some (Sentinel ErrClosed), s)
              | (True, s) \<Rightarrow>
                  (case restore e mk meets s of
                     None \<Rightarrow> None
                   | Some (None, s) \<Rightarrow> Some ([b], None, s)
                   | Some (Some x, s) \<Rightarrow> if retryable x then again (closeCurrent s) else Some ([b], Some x, s))))"

definition reconnect ::
  "denv \<Rightarrow> (nat \<Rightarrow> u64 \<Rightarrow> nat option) \<Rightarrow> round_event list \<Rightarrow> dsession \<Rightarrow> (duration list \<times> err option \<times> dsession) option" where
  "reconnect e mk evs s =
     (case reconnectRound e mk (d_backoffBase (ds_opt s)) evs s of
        None \<Rightarrow> None
      | Some (ds, r, s) \<Rightarrow>
          Some (ds, r, s\<lparr>ds_stats := noteReconnectRound
            (case r of None \<Rightarrow> None | Some x \<Rightarrow> if errors_is x ErrClosed then None else Some x) (ds_stats s)\<rparr>))"

section \<open>Attempts that are retried\<close>

text \<open>What a request leaves as it was.\<close>

definition same_core :: "dsession \<Rightarrow> dsession \<Rightarrow> bool" where
  "same_core s t \<longleftrightarrow> dtable_ok t \<and> ds_opt t = ds_opt s \<and> ds_stats t = ds_stats s \<and> ds_gen t = ds_gen s \<and> ds_closed t = ds_closed s"

lemma same_core_trans [trans]: "same_core s t \<Longrightarrow> same_core t u \<Longrightarrow> same_core s u"
  by (simp add: same_core_def)

lemma served_core: "served s t \<Longrightarrow> same_core s t"
  by (simp add: served_def same_core_def)

lemma writeRequest_core:
  assumes "writeRequest e g seq op payload s = Some (r, t)"
  shows "\<exists>w. t = s\<lparr>ds_wire := w\<rparr>"
proof -
  have "t = s \<or> (\<exists>w. t = s\<lparr>ds_wire := w\<rparr>)"
    using assms
    by (cases "BuildRequestBodyWithSession (bytes_of_string op) (bytes_of_string (TicketSlot (p_Ticket (ds_plan s)))) [] payload")
      (auto simp: writeRequest_def Let_def split: if_splits sum.splits option.splits)
  moreover have "s = s\<lparr>ds_wire := ds_wire s\<rparr>" by simp
  ultimately show ?thesis by metis
qed

lemma dinvoke_send_core:
  "dinvoke_send e op req s = (d, t) \<Longrightarrow> ds_opt t = ds_opt s \<and> ds_stats t = ds_stats s \<and> ds_gen t = ds_gen s \<and> ds_closed t = ds_closed s"
  by (auto simp: dinvoke_send_def newInflight_def Let_def dest!: writeRequest_core
      split: option.splits sum.splits if_splits prod.splits)

lemma dtable_ok_drop: "dtable_ok s \<Longrightarrow> dtable_ok (s\<lparr>ds_inflight := AList.delete k (ds_inflight s)\<rparr>)"
  by (simp add: dtable_ok_def distinct_delete)

lemma awaitReply_core:
  assumes "dtable_ok s" and "awaitReply e op seq m resp fate s = Some (r, t)"
  shows "same_core s t"
proof -
  have take: "same_core u v" if "dtable_ok u" "dtake e op m resp u = Some (x, v)" for u v x
    using dtake_ok[OF that(1), where e = e and op = op and m = m and resp = resp] that(2) by (simp add: served_core)
  have drop: "same_core s (s\<lparr>ds_inflight := AList.delete seq (ds_inflight s)\<rparr>)"
    using assms(1) by (simp add: same_core_def dtable_ok_drop)
  have timer: "same_core s (dtimer op seq m s)"
    using assms(1) drop
    by (auto simp: dtimer_def LoadAndDelete_def dput_mail_def same_core_def dtable_ok_def err_result_def split: option.split)
  show ?thesis
  proof (cases fate)
    case TimerFires
    then show ?thesis
      using assms(2) take[of "dtimer op seq m s" r t] timer same_core_trans[OF timer] by (simp add: awaitReply_def same_core_def)
  next
    case (CtxIsDone x)
    then show ?thesis
      using assms drop take[OF assms(1)]
      by (auto simp: awaitReply_def abort_def LoadAndDelete_def same_core_def split: option.splits)
  qed (use assms take[OF assms(1)] in \<open>auto simp: awaitReply_def same_core_def split: if_splits\<close>)
qed

lemma dinvoke_core:
  assumes "dtable_ok s" and "dinvoke e op req resp fs fate s = Some (r, t)"
  shows "same_core s t"
  using assms(1)
proof (cases rule: dinvoke_send_cases[of s e op req])
  case (failed x u)
  then show ?thesis using assms dinvoke_send_core[OF failed(1)] by (auto simp: dinvoke_def same_core_def)
next
  case (waiting g seq m u w body)
  have u: "same_core s u" using waiting(7) dinvoke_send_core[OF waiting(1)] by (simp add: same_core_def)
  obtain b v where v: "dread_frames e (the (ds_gen u)) fs u = Some (b, v)" "served u v"
    using served_dread_frames[OF waiting(7)] by blast
  obtain x y where y: "awaitReply e op seq m resp fate v = Some (x, y)" "t = y\<lparr>ds_inflight := Delete seq (ds_inflight y)\<rparr>"
    using assms(2) waiting(1) v(1) by (auto simp: dinvoke_def bind_eq_Some_conv)
  have "same_core s y" using u served_core[OF v(2)] awaitReply_core[OF served_ok[OF v(2)] y(1)] by (blast intro: same_core_trans)
  then show ?thesis using y(2) dtable_ok_drop[of y seq] by (simp add: same_core_def Delete_def)
qed

lemma restore_steps_core: "restore_steps e mk steps s = Some (r, t) \<Longrightarrow> dtable_ok s \<Longrightarrow> same_core s t"
proof (induction e mk steps s rule: restore_steps.induct)
  case (2 e mk step fs fate steps s)
  obtain x u where x: "dinvoke e (rp_Op step) (case rp_Req step of None \<Rightarrow> None | Some f \<Rightarrow> mk f (ds_lastSeen s)) False fs fate s = Some (x, u)"
    using 2(2) by (auto split: option.splits)
  have u: "same_core s u" using dinvoke_core[OF 2(3) x] .
  show ?case
  proof (cases x)
    case None
    then show ?thesis using 2(1)[OF x refl None] 2(2) x u same_core_trans[OF u] by (simp add: same_core_def)
  qed (use 2(2) x u in simp)
qed (simp add: same_core_def)

lemma restore_core: "restore e mk meets s = Some (r, t) \<Longrightarrow> dtable_ok s \<Longrightarrow> same_core s t"
  using restore_steps_core by (auto simp: restore_def split: if_splits)

text \<open>
  Turns of the loop that all fail and are all retried: a dial with a retryable error, or a dial that opens a
  transport whose replay meets a retryable error. \<open>u\<close> is the session after them.
\<close>

inductive retried :: "denv \<Rightarrow> (nat \<Rightarrow> u64 \<Rightarrow> nat option) \<Rightarrow> dsession \<Rightarrow> round_event list \<Rightarrow> dsession \<Rightarrow> bool"
  for e :: denv and mk :: "nat \<Rightarrow> u64 \<Rightarrow> nat option"
where
  no_turn: "retried e mk s [] s"
| dial_turn: "retryable x \<Longrightarrow> retried e mk (dialTracked (Some x) s) evs u \<Longrightarrow> retried e mk s (DialFails x # evs) u"
| replay_turn: "startGeneration tr (dialTracked None s) = (True, t) \<Longrightarrow> restore e mk meets t = Some (Some x, v)
    \<Longrightarrow> retryable x \<Longrightarrow> retried e mk (closeCurrent v) evs u \<Longrightarrow> retried e mk s (DialOpens tr meets # evs) u"

definition delays :: "duration \<Rightarrow> duration \<Rightarrow> nat \<Rightarrow> duration list" where
  "delays m b n = map (\<lambda>i. (nextBackoff_direct m ^^ i) b) [0..<n]"

lemma delays_Suc: "delays m b (Suc n) = b # delays m (nextBackoff_direct m b) n"
  unfolding delays_def by (simp add: upt_conv_Cons map_Suc_upt[symmetric] funpow_swap1 comp_def del: upt_Suc)

lemma delays_snoc: "delays m b (Suc n) = delays m b n @ [(nextBackoff_direct m ^^ n) b]"
  by (simp add: delays_def)

definition dial_failures :: "round_event list \<Rightarrow> nat" where
  "dial_failures evs = length (filter (\<lambda>ev. \<exists>x. ev = DialFails x) evs)"

lemma closeCurrent_fields [simp]:
  "ds_opt (closeCurrent s) = ds_opt s" "ds_stats (closeCurrent s) = ds_stats s" "ds_closed (closeCurrent s) = ds_closed s"
  "dtable_ok (closeCurrent s) = dtable_ok s"
  by (simp_all add: closeCurrent_def dclose_tr_def dtable_ok_def split: option.split)

lemma dialTracked_fields [simp]:
  "ds_opt (dialTracked r s) = ds_opt s" "ds_closed (dialTracked r s) = ds_closed s" "dtable_ok (dialTracked r s) = dtable_ok s"
  "ds_stats (dialTracked r s) = noteHandshake r (ds_stats s)"
  by (simp_all add: dialTracked_def dtable_ok_def)

lemma startGeneration_opens:
  "\<not> ds_closed s \<Longrightarrow> \<exists>t. startGeneration tr s = (True, t) \<and> ds_opt t = ds_opt s \<and> ds_closed t = ds_closed s
     \<and> dtable_ok t = dtable_ok s \<and> ds_gen t = Some tr \<and> ds_stats t = noteConnect (ds_stats s)"
  by (simp add: startGeneration_def dtable_ok_def)

lemma startGeneration_True:
  "startGeneration tr s = (True, t) \<Longrightarrow> ds_opt t = ds_opt s \<and> ds_closed t = ds_closed s
     \<and> dtable_ok t = dtable_ok s \<and> ds_gen t = Some tr \<and> ds_stats t = noteConnect (ds_stats s)"
  by (auto simp: startGeneration_def dtable_ok_def split: if_splits)

text \<open>After such turns: the options are the same, and every dial has been counted, failed ones as failures.\<close>

lemma retried_keeps:
  "retried e mk s evs u \<Longrightarrow> dtable_ok s \<Longrightarrow>
     dtable_ok u \<and> ds_opt u = ds_opt s \<and> ds_closed u = ds_closed s
     \<and> ss_handshakeAttempts (ds_stats u) = ss_handshakeAttempts (ds_stats s) + of_nat (length evs)
     \<and> ss_handshakeFailures (ds_stats u) = ss_handshakeFailures (ds_stats s) + of_nat (dial_failures evs)
     \<and> ss_reconnectFailures (ds_stats u) = ss_reconnectFailures (ds_stats s)
     \<and> ss_reconnectRounds (ds_stats u) = ss_reconnectRounds (ds_stats s)"
proof (induction rule: retried.induct)
  case (replay_turn tr s t meets x v evs u)
  have "dtable_ok t" using startGeneration_True[OF replay_turn(1)] replay_turn.prems by simp
  then have "same_core t v" using restore_core[OF replay_turn(2)] by simp
  then show ?case
    using replay_turn.IH startGeneration_True[OF replay_turn(1)]
    by (simp add: same_core_def dial_failures_def noteHandshake_def noteConnect_def Let_def)
qed (simp_all add: dial_failures_def noteHandshake_def Let_def)

lemma reconnectRound_retried:
  "retried e mk s evs u \<Longrightarrow> dtable_ok s \<Longrightarrow>
     reconnectRound e mk b (evs @ more') s =
       map_option (\<lambda>(ds, r). (delays (d_backoffMax (ds_opt s)) b (length evs) @ ds, r))
         (reconnectRound e mk ((nextBackoff_direct (d_backoffMax (ds_opt s)) ^^ length evs) b) more' u)"
proof (induction arbitrary: b rule: retried.induct)
  case (no_turn s)
  then show ?case by (simp add: delays_def option.map_ident split_def)
next
  case (dial_turn x s evs u)
  then show ?case by (simp add: Let_def delays_Suc funpow_swap1 option.map_comp comp_def split_def)
next
  case (replay_turn tr s t meets x v evs u)
  have t: "dtable_ok t" "ds_opt t = ds_opt s" using startGeneration_True[OF replay_turn(1)] replay_turn.prems by simp_all
  then have "same_core t v" using restore_core[OF replay_turn(2)] by simp
  then show ?case
    using replay_turn t by (simp add: same_core_def Let_def delays_Suc funpow_swap1 option.map_comp comp_def split_def)
qed

text \<open>
  C25: A reconnect perseveres through every retryable failure and stops at the first that is not. Let any number
  of turns fail and be retried, by their dial or by their replay. If the next dial opens and its replay succeeds,
  it returns without an error on that transport, and the round counts as no failure. If instead the dial or
  its replay fails with an error that is not retryable, it returns that error and counts one failed round; if
  the session is closed during the sleep, it returns the closed error and counts none. Each time it has slept
  one delay per turn, the base doubled each time and capped, and counted every dial and every failed one.
\<close>

theorem reconnect_perseveres:
  assumes "retried e mk s evs u" and "dtable_ok s" and "\<not> ds_closed s"
    and "0 < d_backoffBase (ds_opt s)" and "d_backoffBase (ds_opt s) \<le> d_backoffMax (ds_opt s)"
    and "d_backoffMax (ds_opt s) < 2 ^ 62" and "\<not> retryable x" and "\<not> errors_is x ErrClosed"
  shows "let ds = map (\<lambda>i. min (d_backoffBase (ds_opt s) * 2 ^ i) (d_backoffMax (ds_opt s))) [0..<Suc (length evs)];
      v = snd (startGeneration tr (dialTracked None u));
      counts = (\<lambda>t dials fails rounds. ss_handshakeAttempts (ds_stats t) = ss_handshakeAttempts (ds_stats s) + of_nat dials
        \<and> ss_handshakeFailures (ds_stats t) = ss_handshakeFailures (ds_stats s) + of_nat fails
        \<and> ss_reconnectFailures (ds_stats t) = ss_reconnectFailures (ds_stats s) + rounds
        \<and> ss_reconnectRounds (ds_stats t) = ss_reconnectRounds (ds_stats s) + 1)
    in (\<forall>w. restore e mk meets v = Some (None, w) \<longrightarrow>
         (\<exists>t. reconnect e mk (evs @ DialOpens tr meets # later) s = Some (ds, None, t) \<and> ds_gen t = Some tr
            \<and> counts t (length evs + 1) (dial_failures evs) 0))
     \<and> (\<forall>w. restore e mk meets v = Some (Some x, w) \<longrightarrow>
         (\<exists>t. reconnect e mk (evs @ DialOpens tr meets # later) s = Some (ds, Some x, t)
            \<and> counts t (length evs + 1) (dial_failures evs) 1))
     \<and> (\<exists>t. reconnect e mk (evs @ DialFails x # later) s = Some (ds, Some x, t) \<and> ds_gen t = ds_gen u
          \<and> counts t (length evs + 1) (dial_failures evs + 1) 1)
     \<and> (\<exists>t. reconnect e mk (evs @ SleepClosed # later) s = Some (ds, Some (Sentinel ErrClosed), t)
          \<and> counts t (length evs) (dial_failures evs) 0)"
proof -
  let ?m = "d_backoffMax (ds_opt s)" and ?b = "d_backoffBase (ds_opt s)"
  let ?ds = "map (\<lambda>i. min (?b * 2 ^ i) ?m) [0..<Suc (length evs)]"
  let ?v = "snd (startGeneration tr (dialTracked None u))"
  let ?counts = "\<lambda>t dials fails rounds. ss_handshakeAttempts (ds_stats t) = ss_handshakeAttempts (ds_stats s) + of_nat dials
      \<and> ss_handshakeFailures (ds_stats t) = ss_handshakeFailures (ds_stats s) + of_nat fails
      \<and> ss_reconnectFailures (ds_stats t) = ss_reconnectFailures (ds_stats s) + rounds
      \<and> ss_reconnectRounds (ds_stats t) = ss_reconnectRounds (ds_stats s) + 1"
  note u = retried_keeps[OF assms(1,2)]
  have "length (delays ?m ?b (Suc (length evs))) = Suc (length evs)" by (simp add: delays_def)
  then have ds: "delays ?m ?b (Suc (length evs)) = ?ds"
    using direct_backoff.nth_delay[OF assms(4-6)] by (intro nth_equalityI) (simp_all add: delays_def del: upt_Suc)
  have end_of: "reconnect e mk (evs @ more') s = Some (?ds, r, w\<lparr>ds_stats := noteReconnectRound
        (case r of None \<Rightarrow> None | Some x \<Rightarrow> if errors_is x ErrClosed then None else Some x) (ds_stats w)\<rparr>)"
    if "\<And>b. reconnectRound e mk b more' u = Some ([b], r, w)" for more' r w
    unfolding reconnect_def reconnectRound_retried[OF assms(1,2)] that
    by (simp add: delays_snoc[symmetric] ds del: upt_Suc)
  obtain v where v: "startGeneration tr (dialTracked None u) = (True, v)" "?v = v" "dtable_ok v" "ds_gen v = Some tr"
      "ds_stats v = noteConnect (noteHandshake None (ds_stats u))"
    using startGeneration_opens[of "dialTracked None u" tr] u assms(3) by auto
  have won: "reconnectRound e mk b (DialOpens tr meets # later) u = Some ([b], r, w)"
    if "restore e mk meets v = Some (r, w)" "r = None \<or> r = Some x" for b r w
    using that v(1) assms(7) by (auto simp: Let_def)
  have core: "ds_stats w = ds_stats v \<and> ds_gen w = Some tr" if "restore e mk meets v = Some (r, w)" for r w
    using restore_core[OF that v(3)] v(4) by (simp add: same_core_def)
  have "reconnectRound e mk b (DialFails x # later) u = Some ([b], Some x, dialTracked (Some x) u)" for b
    using assms(7) by (simp add: Let_def)
  note refused = end_of[OF this]
  have "reconnectRound e mk b (SleepClosed # later) u = Some ([b], Some (Sentinel ErrClosed), u)" for b by simp
  note closed = end_of[OF this]
  note counted = noteReconnectRound_def noteHandshake_def noteConnect_def add.assoc Let_def
  have rej: "(case Some x of None \<Rightarrow> None | Some x \<Rightarrow> if errors_is x ErrClosed then None else Some x) = Some x" using assms(8) by simp
  have "\<exists>t. reconnect e mk (evs @ DialOpens tr meets # later) s = Some (?ds, None, t) \<and> ds_gen t = Some tr
      \<and> ?counts t (length evs + 1) (dial_failures evs) 0" if "restore e mk meets v = Some (None, w)" for w
    unfolding end_of[OF won[OF that disjI1[OF refl]]] using core[OF that] u by (simp add: v(5) counted del: upt_Suc)
  moreover have "\<exists>t. reconnect e mk (evs @ DialOpens tr meets # later) s = Some (?ds, Some x, t)
      \<and> ?counts t (length evs + 1) (dial_failures evs) 1" if "restore e mk meets v = Some (Some x, w)" for w
    unfolding end_of[OF won[OF that disjI2[OF refl]]] rej using core[OF that] u by (simp add: v(5) counted del: upt_Suc)
  moreover have "\<exists>t. reconnect e mk (evs @ DialFails x # later) s = Some (?ds, Some x, t) \<and> ds_gen t = ds_gen u
      \<and> ?counts t (length evs + 1) (dial_failures evs + 1) 1"
    unfolding refused rej using u by (simp add: counted dialTracked_def del: upt_Suc)
  moreover have "\<exists>t. reconnect e mk (evs @ SleepClosed # later) s = Some (?ds, Some (Sentinel ErrClosed), t)
      \<and> ?counts t (length evs) (dial_failures evs) 0"
    unfolding closed using u by (simp add: counted del: upt_Suc)
  ultimately show ?thesis unfolding Let_def v(2) by blast
qed

text \<open>A session with one replay step, whose transport 5 fails to write.\<close>

definition replaying_session :: dsession where
  "replaying_session = demo_session\<lparr>ds_opt := (ds_opt demo_session)\<lparr>d_replay := [\<lparr>rp_Op = ''/join'', rp_Req = None\<rparr>]\<rparr>\<rparr>"

theorem reconnect_perseveres_witness:
  "let e = quiet_denv\<lparr>de_write := (\<lambda>g _ _. if g = 5 then Some (net_err ''broken pipe'') else None)\<rparr>
   in \<exists>t ds. reconnect e (\<lambda>_ _. None) [DialFails (net_err ''x''), DialOpens 5 [([], TimerFires)], DialFails (Sentinel ErrRejected)] replaying_session
      = Some (ds, Some (Sentinel ErrRejected), t) \<and> ds ! 2 = 2 * second \<and> length ds = 3"
proof -
  let ?e = "quiet_denv\<lparr>de_write := (\<lambda>g _ _. if g = 5 then Some (net_err ''broken pipe'') else None)\<rparr>"
  let ?s1 = "dialTracked (Some (net_err ''x'')) replaying_session"
  let ?t = "snd (startGeneration 5 (dialTracked None ?s1))"
  have o': "ds_opt demo_session = defaultOptions\<lparr>d_probeOp := ''/p'', d_frameNumber := Some 0\<rparr>"
    by (simp add: demo_session_def newSession_def validateSwitchOptions_def defaultOptions_def payloadVersion_def
        ProtoJSONSerializer_def frame_consts)
  have st: "startGeneration 5 (dialTracked None ?s1) = (True, ?t)"
    by (simp add: startGeneration_def dialTracked_def replaying_session_def)
  have "\<not> isl (the (BuildRequestBodyWithSession (bytes_of_string ''/join'') (bytes_of_string (TicketSlot [1, 2, 3])) [] []))
      \<and> BuildRequestBodyWithSession (bytes_of_string ''/join'') (bytes_of_string (TicketSlot [1, 2, 3])) [] [] \<noteq> None"
    by code_simp
  then obtain b where b: "BuildRequestBodyWithSession (bytes_of_string ''/join'') (bytes_of_string (TicketSlot [1, 2, 3])) [] [] = Some (Inr b)"
    by (auto simp: isl_def) (metis sum.exhaust)
  have "\<exists>x v. restore ?e (\<lambda>_ _. None) [([], TimerFires)] ?t = Some (Some x, v) \<and> retryable x"
    using b by (auto simp: restore_def replaying_session_def o' defaultOptions_def quiet_denv_def dinvoke_def dinvoke_send_def
        marshal_direct_def newInflight_def writeRequest_def startGeneration_def dialTracked_def Terminal_def no_end_def
        demo_plan_def retryable_def endedErr_def Let_def split: sum.split)
  then obtain x v where v: "restore ?e (\<lambda>_ _. None) [([], TimerFires)] ?t = Some (Some x, v)" "retryable x" by blast
  have "retried ?e (\<lambda>_ _. None) replaying_session [DialFails (net_err ''x''), DialOpens 5 [([], TimerFires)]] (closeCurrent v)"
    by (rule dial_turn, simp add: retryable_def, rule replay_turn[OF st v], rule no_turn)
  note turns = this
  have pre: "dtable_ok replaying_session" "\<not> ds_closed replaying_session" "0 < d_backoffBase (ds_opt replaying_session)"
    "d_backoffBase (ds_opt replaying_session) \<le> d_backoffMax (ds_opt replaying_session)"
    "d_backoffMax (ds_opt replaying_session) < 2 ^ 62" "\<not> retryable (Sentinel ErrRejected)"
    "\<not> errors_is (Sentinel ErrRejected) ErrClosed"
    by (simp_all add: replaying_session_def o' defaultOptions_def retryable_def dtable_ok_def)
  obtain t where "reconnect ?e (\<lambda>_ _. None) ([DialFails (net_err ''x''), DialOpens 5 [([], TimerFires)]] @ DialFails (Sentinel ErrRejected) # []) replaying_session
      = Some (map (\<lambda>i. min (d_backoffBase (ds_opt replaying_session) * 2 ^ i) (d_backoffMax (ds_opt replaying_session))) [0..<Suc 2],
          Some (Sentinel ErrRejected), t)"
    using reconnect_perseveres[OF turns pre, of undefined "[]" "[]"] by (simp add: Let_def numeral_2_eq_2 del: upt_Suc) blast
  then show ?thesis by (simp add: replaying_session_def o' defaultOptions_def numeral_2_eq_2)
qed

end
