(* ===== verification/DirectSupervise.thy ===== *)
theory DirectSupervise
  imports DirectReconnect
begin

text \<open>
  The supervising goroutines of a direct session (\<open>supervise\<close>, \<open>awaitEnd\<close>, \<open>waitManual\<close>,
  \<open>Reconnect\<close> in \<open>direct/session_reconnect.go\<close>), as a step system. Each goroutine is a program
  counter in a list; \<open>startGeneration\<close> appends a new one, as the code starts one per generation.
\<close>

section \<open>State and steps\<close>

text \<open>
  A supervisor waits for its generation to end; has taken a manual signal, closed the transport
  and waits for the read loop; waits for a manual signal with automatic reconnecting off; sleeps
  before a dial; replays on a new generation; has returned.
\<close>

datatype sup = Await nat | Closing nat | WaitManual | Sleeping duration | Replaying duration | Exited

text \<open>
  Transports are numbered in the order they are opened, \<open>dead\<close> are those whose read loop has ended,
  \<open>manual\<close> is the number of signals in the channel of capacity eight. A caller of \<open>Reconnect\<close>
  is \<open>asking\<close> between its checks and its registration; \<open>used\<close> are the callers seen so far.
\<close>

record sconf =
  sc_ses :: dsession
  sups :: "sup list"
  dead :: "nat list"
  next_tr' :: nat
  manual :: nat
  asking :: "nat list"
  used :: "nat list"

datatype sact =
    Outage | Drops nat | Wake nat | TakeSignal nat | SeeClosed nat
  | DialErr nat err | DialOk nat | ReplayOk nat | ReplayErr nat err
  | EndSession string "err option" | Ask nat | Enqueue nat | Signal | CloseSession

definition opened :: "dsession \<Rightarrow> sconf" where
  "opened s = \<lparr>sc_ses = s\<lparr>ds_gen := Some 0\<rparr>, sups = [Await 0], dead = [], next_tr' = 1, manual = 0, asking = [], used = []\<rparr>"

definition open_transports :: "sconf \<Rightarrow> nat list" where
  "open_transports c = filter (\<lambda>g. g \<notin> set (dead c)) [0..<next_tr' c]"

definition set_sup :: "nat \<Rightarrow> sup \<Rightarrow> dsession \<Rightarrow> sconf \<Rightarrow> sconf" where
  "set_sup i p s c = c\<lparr>sc_ses := s, sups := (sups c)[i := p]\<rparr>"

text \<open>\<open>supervise\<close> after \<open>awaitEnd\<close> has returned.\<close>

definition after_end :: "nat \<Rightarrow> bool \<Rightarrow> sconf \<Rightarrow> sconf" where
  "after_end i man c =
     (let s = sc_ses c in
      if Terminal s then set_sup i Exited s c
      else if \<not> man \<and> \<not> d_autoReconnect (ds_opt s) then set_sup i WaitManual (setState DStateDisconnected s) c
      else set_sup i (Sleeping (d_backoffBase (ds_opt s))) (setState DStateReconnecting s) c)"

text \<open>\<open>supervise\<close> after \<open>reconnect\<close> has returned an error.\<close>

definition after_error :: "nat \<Rightarrow> err \<Rightarrow> sconf \<Rightarrow> sconf" where
  "after_error i x c =
     (let s = sc_ses c;
          s = s\<lparr>ds_stats := noteReconnectRound (if errors_is x ErrClosed then None else Some x) (ds_stats s)\<rparr>
      in if errors_is x ErrClosed then set_sup i Exited s c
         else if Terminal s then set_sup i Exited (finishWaiters (Some x) s) c
         else set_sup i Exited (finishWaiters (Some x) (setFatal x s)) c)"

definition sup_at :: "nat \<Rightarrow> sconf \<Rightarrow> sup" where
  "sup_at i c = (if i < length (sups c) then sups c ! i else Exited)"

fun sup_do :: "sact \<Rightarrow> sconf \<Rightarrow> sconf option" where
  "sup_do Outage c = Some (c\<lparr>dead := [0..<next_tr' c],
     sc_ses := failInflight (Some (net_err ''connection lost'')) (sc_ses c)\<rparr>)"
| "sup_do (Drops g) c =
     (if g < next_tr' c \<and> g \<notin> set (dead c)
      then Some (c\<lparr>dead := g # dead c, sc_ses := failInflight (Some (net_err ''connection lost'')) (sc_ses c)\<rparr>) else None)"
| "sup_do (Wake i) c =
     (case sup_at i c of
        Await g \<Rightarrow> if g \<in> set (dead c) then Some (after_end i False c) else None
      | Closing g \<Rightarrow> if g \<in> set (dead c) then Some (after_end i True c) else None
      | _ \<Rightarrow> None)"
| "sup_do (TakeSignal i) c =
     (if manual c = 0 then None
      else
        let c = c\<lparr>manual := manual c - 1\<rparr> in
        (case sup_at i c of
           Await g \<Rightarrow> Some (set_sup i (Closing g) (dclose_tr g (sc_ses c)) c)
         | WaitManual \<Rightarrow>
             Some (set_sup i (Sleeping (d_backoffBase (ds_opt (sc_ses c)))) (setState DStateReconnecting (sc_ses c)) c)
         | _ \<Rightarrow> None))"
| "sup_do (SeeClosed i) c =
     (if \<not> ds_closed (sc_ses c) then None
      else
        (case sup_at i c of
           Await g \<Rightarrow> Some (set_sup i Exited (sc_ses c) c)
         | WaitManual \<Rightarrow> Some (set_sup i Exited (finishWaiters (Some (Sentinel ErrClosed)) (sc_ses c)) c)
         | Sleeping b \<Rightarrow> Some (after_error i (Sentinel ErrClosed) c)
         | _ \<Rightarrow> None))"
| "sup_do (DialErr i x) c =
     (case sup_at i c of
        Sleeping b \<Rightarrow>
          let s = dialTracked (Some x) (sc_ses c) in
          Some (if retryable x then set_sup i (Sleeping (nextBackoff_direct (d_backoffMax (ds_opt s)) b)) s c
                else after_error i x (c\<lparr>sc_ses := s\<rparr>))
      | _ \<Rightarrow> None)"
| "sup_do (DialOk i) c =
     (case sup_at i c of
        Sleeping b \<Rightarrow>
          let tr = next_tr' c in
          (case startGeneration tr (dialTracked None (sc_ses c)) of
             (False, s) \<Rightarrow> Some (after_error i (Sentinel ErrClosed) (c\<lparr>sc_ses := s, next_tr' := Suc tr, dead := tr # dead c\<rparr>))
           | (True, s) \<Rightarrow>
               let c = set_sup i (Replaying b) s c in Some (c\<lparr>sups := sups c @ [Await tr], next_tr' := Suc tr\<rparr>))
      | _ \<Rightarrow> None)"
| "sup_do (ReplayOk i) c =
     (case sup_at i c of
        Replaying b \<Rightarrow>
          let s = (sc_ses c)\<lparr>ds_stats := noteReconnectRound None (ds_stats (sc_ses c))\<rparr>;
              s = finishWaiters None (setState DStateConnected s)
          in Some (set_sup i (case ds_gen s of None \<Rightarrow> Exited | Some g \<Rightarrow> Await g) s c)
      | _ \<Rightarrow> None)"
| "sup_do (ReplayErr i x) c =
     (case sup_at i c of
        Replaying b \<Rightarrow>
          Some (if retryable x
                then set_sup i (Sleeping (nextBackoff_direct (d_backoffMax (ds_opt (sc_ses c))) b)) (closeCurrent (sc_ses c)) c
                else after_error i x c)
      | _ \<Rightarrow> None)"
| "sup_do (EndSession r x) c = Some (c\<lparr>sc_ses := snd (markEnded r x (sc_ses c))\<rparr>)"
| "sup_do (Ask w) c =
     (if w \<in> set (used c) \<or> Terminal (sc_ses c) \<or> ds_fatal (sc_ses c) \<noteq> None then None
      else Some (c\<lparr>asking := w # asking c, used := w # used c\<rparr>))"
| "sup_do (Enqueue w) c =
     (if w \<notin> set (asking c) then None
      else if ds_closed (sc_ses c) then Some (c\<lparr>asking := remove1 w (asking c)\<rparr>)
      else Some (c\<lparr>asking := remove1 w (asking c), sc_ses := (sc_ses c)\<lparr>ds_waiters := ds_waiters (sc_ses c) @ [w]\<rparr>\<rparr>))"
| "sup_do Signal c = (if manual c < 8 then Some (c\<lparr>manual := Suc (manual c)\<rparr>) else None)"
| "sup_do CloseSession c = Some (c\<lparr>sc_ses := Close_direct (sc_ses c)\<rparr>)"

inductive sup_step :: "sconf \<Rightarrow> sact \<Rightarrow> sconf \<Rightarrow> bool" where
  "sup_do a c = Some d \<Longrightarrow> sup_step c a d"

inductive_cases sup_stepE: "sup_step c a d"

definition sup_start :: "sconf \<Rightarrow> bool" where
  "sup_start c \<longleftrightarrow> (\<exists>s. c = opened s \<and> ds_waiters s = [] \<and> ds_answered s = [] \<and> \<not> Terminal s \<and> \<not> ds_closed s)"

abbreviation sup_reach :: "sconf \<Rightarrow> bool" where
  "sup_reach \<equiv> reach sup_start sup_step"

section \<open>Fields\<close>

text \<open>Who waits and who was answered, under each operation on the session.\<close>

lemma waiters_same [simp]:
  "ds_waiters (setState st s) = ds_waiters s" "ds_answered (setState st s) = ds_answered s"
  "ds_waiters (dclose_tr g s) = ds_waiters s" "ds_answered (dclose_tr g s) = ds_answered s"
  "ds_waiters (closeCurrent s) = ds_waiters s" "ds_answered (closeCurrent s) = ds_answered s"
  "ds_waiters (dialTracked r s) = ds_waiters s" "ds_answered (dialTracked r s) = ds_answered s"
  "ds_waiters (setFatal x s) = ds_waiters s" "ds_answered (setFatal x s) = ds_answered s"
  by (simp_all add: setState_def dclose_tr_def closeCurrent_def dialTracked_def setFatal_def split: option.split)

lemma settle_waiters:
  "ds_waiters (settleInflight r s) = ds_waiters s \<and> ds_answered (settleInflight r s) = ds_answered s
   \<and> ds_closed (settleInflight r s) = ds_closed s \<and> ds_opt (settleInflight r s) = ds_opt s
   \<and> ds_end (settleInflight r s) = ds_end s \<and> ds_gen (settleInflight r s) = ds_gen s"
proof -
  have "ds_waiters (fold (\<lambda>(k, _) s. settle_key k r s) kvs s) = ds_waiters s
      \<and> ds_answered (fold (\<lambda>(k, _) s. settle_key k r s) kvs s) = ds_answered s
      \<and> ds_closed (fold (\<lambda>(k, _) s. settle_key k r s) kvs s) = ds_closed s
      \<and> ds_opt (fold (\<lambda>(k, _) s. settle_key k r s) kvs s) = ds_opt s
      \<and> ds_end (fold (\<lambda>(k, _) s. settle_key k r s) kvs s) = ds_end s
      \<and> ds_gen (fold (\<lambda>(k, _) s. settle_key k r s) kvs s) = ds_gen s" for kvs :: "(u32 \<times> nat) list"
    by (induction kvs arbitrary: s) (auto simp: settle_key_def dput_mail_def split: option.split prod.split)
  then show ?thesis by (simp add: settleInflight_def)
qed

lemma failInflight_same [simp]:
  "ds_waiters (failInflight x s) = ds_waiters s" "ds_answered (failInflight x s) = ds_answered s"
  "ds_closed (failInflight x s) = ds_closed s" "ds_opt (failInflight x s) = ds_opt s"
  "ds_end (failInflight x s) = ds_end s" "ds_gen (failInflight x s) = ds_gen s"
  using settle_waiters by (simp_all add: failInflight_def)

lemma markEnded_waiters [simp]:
  "ds_waiters (snd (markEnded r x s)) = ds_waiters s" "ds_answered (snd (markEnded r x s)) = ds_answered s"
  "ds_closed (snd (markEnded r x s)) = ds_closed s"
  using settle_waiters
  by (simp_all add: markEnded_def end_flag_def end_failed_def end_cause_def end_connection_def startLinger_def setState_def
      settleInflightTerminal_def closeCurrent_def dclose_tr_def Let_def split: option.split)

lemma startGeneration_same [simp]:
  "ds_waiters (snd (startGeneration tr s)) = ds_waiters s" "ds_answered (snd (startGeneration tr s)) = ds_answered s"
  by (simp_all add: startGeneration_def dclose_tr_def)

text \<open>A closed session stays closed.\<close>

lemma closed_same [simp]:
  "ds_closed (setState st s) = ds_closed s" "ds_closed (dclose_tr g s) = ds_closed s" "ds_closed (closeCurrent s) = ds_closed s"
  "ds_closed (dialTracked r s) = ds_closed s" "ds_closed (setFatal x s) = ds_closed s" "ds_closed (finishWaiters q s) = ds_closed s"
  "ds_closed (Close_direct s)"
  by (simp_all add: setState_def dclose_tr_def closeCurrent_def dialTracked_def setFatal_def finishWaiters_def Close_direct_def Let_def
      split: option.split)

lemma startGeneration_closed: "startGeneration tr s = (ok, t) \<Longrightarrow> ds_closed t = ds_closed s"
  by (auto simp: startGeneration_def split: if_splits)

section \<open>Answers to callers of Reconnect\<close>

definition waiters_inv :: "sconf \<Rightarrow> bool" where
  "waiters_inv c \<longleftrightarrow>
     distinct (asking c @ ds_waiters (sc_ses c) @ map fst (ds_answered (sc_ses c)))
     \<and> set (asking c @ ds_waiters (sc_ses c) @ map fst (ds_answered (sc_ses c))) \<subseteq> set (used c)"

lemma finishWaiters_fields [simp]:
  "ds_waiters (finishWaiters r s) = []"
  "map fst (ds_answered (finishWaiters r s)) = map fst (ds_answered s) @ ds_waiters s"
  by (simp_all add: finishWaiters_def comp_def)

text \<open>What an operation may do to the callers: nothing, or answer all who wait.\<close>

definition kept_or_answered :: "dsession \<Rightarrow> dsession \<Rightarrow> bool" where
  "kept_or_answered s t \<longleftrightarrow>
     ds_waiters t = ds_waiters s \<and> map fst (ds_answered t) = map fst (ds_answered s)
     \<or> ds_waiters t = [] \<and> map fst (ds_answered t) = map fst (ds_answered s) @ ds_waiters s"

lemma kept_same: "ds_waiters t = ds_waiters s \<Longrightarrow> ds_answered t = ds_answered s \<Longrightarrow> kept_or_answered s t"
  by (simp add: kept_or_answered_def)

lemma kept_answered:
  "ds_waiters t = [] \<Longrightarrow> map fst (ds_answered t) = map fst (ds_answered s) @ ds_waiters s \<Longrightarrow> kept_or_answered s t"
  by (simp add: kept_or_answered_def)

lemma set_sup_fields [simp]:
  "sc_ses (set_sup i p s c) = s" "asking (set_sup i p s c) = asking c" "used (set_sup i p s c) = used c"
  "sups (set_sup i p s c) = (sups c)[i := p]" "dead (set_sup i p s c) = dead c"
  "next_tr' (set_sup i p s c) = next_tr' c" "manual (set_sup i p s c) = manual c"
  by (simp_all add: set_sup_def)

lemma sup_at_fields [simp]:
  "sup_at i (c\<lparr>manual := n\<rparr>) = sup_at i c" "sup_at i (c\<lparr>dead := gs\<rparr>) = sup_at i c"
  "sup_at i (c\<lparr>sc_ses := s\<rparr>) = sup_at i c" "sup_at i (c\<lparr>next_tr' := n\<rparr>) = sup_at i c"
  by (simp_all add: sup_at_def)

lemma kept_inv:
  "waiters_inv c \<Longrightarrow> kept_or_answered (sc_ses c) (sc_ses d) \<Longrightarrow> asking d = asking c \<Longrightarrow> used d = used c \<Longrightarrow> waiters_inv d"
  unfolding waiters_inv_def kept_or_answered_def by (elim disjE) (auto simp: distinct_append)

lemma Close_kept: "kept_or_answered s (Close_direct s)"
proof -
  have c: "ds_waiters (s\<lparr>ds_closed := True\<rparr>) = ds_waiters s" "ds_answered (s\<lparr>ds_closed := True\<rparr>) = ds_answered s" by simp_all
  show ?thesis
    by (cases "ds_closed s"; cases "ds_gen s") (simp_all add: Close_direct_def Let_def kept_or_answered_def)
qed

lemma after_kept:
  "kept_or_answered (sc_ses c) (sc_ses (after_end i man c))" "asking (after_end i man c) = asking c"
  "used (after_end i man c) = used c"
  "kept_or_answered (sc_ses c) (sc_ses (after_error i x c))" "asking (after_error i x c) = asking c"
  "used (after_error i x c) = used c"
  by (simp_all add: after_end_def after_error_def set_sup_def kept_or_answered_def Let_def)

lemma kept_trans_same:
  "kept_or_answered s t \<Longrightarrow> ds_waiters s' = ds_waiters s \<Longrightarrow> ds_answered s' = ds_answered s \<Longrightarrow> kept_or_answered s' t"
  by (simp add: kept_or_answered_def)

text \<open>Every action but a caller's own leaves the callers alone or answers all of them.\<close>

fun caller_act :: "sact \<Rightarrow> bool" where
  "caller_act (Ask _) = True" | "caller_act (Enqueue _) = True" | "caller_act _ = False"

lemma sup_do_kept:
  assumes "sup_do a c = Some d" and "\<not> caller_act a"
  shows "kept_or_answered (sc_ses c) (sc_ses d) \<and> asking d = asking c \<and> used d = used c"
proof (cases a)
  case (DialOk i)
  obtain ok s where g: "startGeneration (next_tr' c) (dialTracked None (sc_ses c)) = (ok, s)" by fastforce
  have s: "ds_waiters s = ds_waiters (sc_ses c)" "ds_answered s = ds_answered (sc_ses c)"
    using startGeneration_same[of "next_tr' c" "dialTracked None (sc_ses c)"] g by simp_all
  obtain b where b: "sup_at i c = Sleeping b" using assms(1) DialOk by (auto split: sup.splits)
  show ?thesis
  proof (cases ok)
    case True
    then show ?thesis using assms(1) DialOk b g s by (auto simp: set_sup_def kept_or_answered_def Let_def)
  next
    case False
    then have d: "d = after_error i (Sentinel ErrClosed)
        (c\<lparr>sc_ses := s, next_tr' := Suc (next_tr' c), dead := next_tr' c # dead c\<rparr>)"
      using assms(1) DialOk b g by (simp add: Let_def)
    show ?thesis
      unfolding d after_kept(5,6) using after_kept(4) s by (auto intro!: kept_trans_same[OF after_kept(4)])
  qed
next
  case (DialErr i x)
  obtain b where b: "sup_at i c = Sleeping b" using assms(1) DialErr by (auto split: sup.splits)
  show ?thesis
  proof (cases "retryable x")
    case True
    then show ?thesis using assms(1) DialErr b by (auto simp: set_sup_def kept_or_answered_def Let_def)
  next
    case False
    then have d: "d = after_error i x (c\<lparr>sc_ses := dialTracked (Some x) (sc_ses c)\<rparr>)"
      using assms(1) DialErr b by (simp add: Let_def)
    show ?thesis unfolding d after_kept(5,6) by (auto intro!: kept_trans_same[OF after_kept(4)])
  qed
next
  case CloseSession
  then show ?thesis using assms(1) Close_kept by auto
next
  case (Wake i)
  then show ?thesis using assms(1) by (auto simp: after_kept split: sup.splits if_splits)
next
  case (SeeClosed i)
  then show ?thesis
    using assms(1) by (auto simp: after_kept intro: kept_same kept_answered split: sup.splits if_splits)
next
  case (ReplayErr i x)
  then show ?thesis
    using assms(1) by (auto simp: after_kept intro: kept_same kept_answered split: sup.splits if_splits)
next
  case (TakeSignal i)
  then show ?thesis using assms(1) by (auto simp: Let_def intro: kept_same split: sup.splits if_splits)
next
  case (ReplayOk i)
  then show ?thesis using assms(1) by (auto simp: Let_def intro: kept_answered split: sup.splits)
qed (use assms in \<open>auto intro: kept_same split: if_splits\<close>)

lemma waiters_inv_step:
  assumes "waiters_inv c" and "sup_do a c = Some d"
  shows "waiters_inv d"
proof (cases "caller_act a")
  case False
  then show ?thesis using sup_do_kept[OF assms(2)] kept_inv[OF assms(1)] by blast
next
  case True
  then consider (ask) w where "a = Ask w" | (enq) w where "a = Enqueue w" by (cases a) auto
  then show ?thesis
  proof cases
    case ask
    then have "w \<notin> set (used c)" "d = c\<lparr>asking := w # asking c, used := w # used c\<rparr>"
      using assms(2) by (auto split: if_splits)
    then show ?thesis using assms(1) by (auto simp: waiters_inv_def simp del: map_append set_map)
  next
    case enq
    then have w: "w \<in> set (asking c)"
      and d: "d = c\<lparr>asking := remove1 w (asking c)\<rparr>
        \<or> d = c\<lparr>asking := remove1 w (asking c), sc_ses := (sc_ses c)\<lparr>ds_waiters := ds_waiters (sc_ses c) @ [w]\<rparr>\<rparr>"
      using assms(2) by (auto split: if_splits)
    have "distinct (asking c)" using assms(1) by (simp add: waiters_inv_def)
    then have rest: "set (remove1 w (asking c)) = set (asking c) - {w}" by (simp add: set_remove1_eq)
    show ?thesis
      using d assms(1) w rest unfolding waiters_inv_def
      by (elim disjE) (auto simp: distinct_remove1 simp del: set_map)
  qed
qed

interpretation supervising: inductive_invariant sup_start sup_step waiters_inv
proof
  fix c assume "sup_start c"
  then show "waiters_inv c" by (auto simp: sup_start_def opened_def waiters_inv_def)
next
  fix c a d assume "waiters_inv c" "sup_step c a d"
  then show "waiters_inv d" using waiters_inv_step by (auto elim: sup_stepE)
qed

text \<open>Callers are lost sight of only when the session is closed, and then refused.\<close>

definition callers_inv :: "sconf \<Rightarrow> bool" where
  "callers_inv c \<longleftrightarrow> ds_closed (sc_ses c)
     \<or> set (used c) \<subseteq> set (asking c) \<union> set (ds_waiters (sc_ses c)) \<union> fst ` set (ds_answered (sc_ses c))"

lemma after_closed:
  "ds_closed (sc_ses (after_end i man c)) = ds_closed (sc_ses c)" "ds_closed (sc_ses (after_error i x c)) = ds_closed (sc_ses c)"
  by (simp_all add: after_end_def after_error_def set_sup_def Let_def)

lemma sup_do_closed:
  assumes "sup_do a c = Some d" and "ds_closed (sc_ses c)"
  shows "ds_closed (sc_ses d)"
proof (cases a)
  case (DialOk i)
  obtain ok s where g: "startGeneration (next_tr' c) (dialTracked None (sc_ses c)) = (ok, s)" by fastforce
  then show ?thesis
    using assms DialOk startGeneration_closed[OF g]
    by (cases ok) (auto simp: set_sup_def after_closed Let_def split: sup.splits)
qed (use assms in \<open>auto simp: after_closed Let_def split: sup.splits if_splits\<close>)

lemma kept_sets:
  "kept_or_answered s t \<Longrightarrow>
     set (ds_waiters t) \<union> fst ` set (ds_answered t) = set (ds_waiters s) \<union> fst ` set (ds_answered s)
     \<and> fst ` set (ds_answered s) \<subseteq> fst ` set (ds_answered t)"
  unfolding kept_or_answered_def by (elim disjE) (auto simp flip: set_map)

lemma caller_moves:
  assumes "sup_do a c = Some d" and "caller_act a"
  obtains (ask) w where "d = c\<lparr>asking := w # asking c, used := w # used c\<rparr>"
  | (refused) w where "ds_closed (sc_ses c)" and "d = c\<lparr>asking := remove1 w (asking c)\<rparr>"
  | (waits) w where "w \<in> set (asking c)"
      and "d = c\<lparr>asking := remove1 w (asking c), sc_ses := (sc_ses c)\<lparr>ds_waiters := ds_waiters (sc_ses c) @ [w]\<rparr>\<rparr>"
proof (cases a)
  case (Ask w)
  then show thesis using assms(1) ask[of w] by (auto split: if_splits)
next
  case (Enqueue w)
  then show thesis using assms(1) refused[of w] waits[of w] by (auto split: if_splits)
qed (use assms(2) in simp_all)

lemma remove1_covers: "set xs \<subseteq> insert w (set (remove1 w xs))"
  by (induction xs) auto

interpretation counting: inductive_invariant sup_start sup_step callers_inv
proof
  fix c assume "sup_start c"
  then show "callers_inv c" by (auto simp: sup_start_def opened_def callers_inv_def)
next
  fix c a d assume inv: "callers_inv c" and "sup_step c a d"
  then have step: "sup_do a c = Some d" by (auto elim: sup_stepE)
  show "callers_inv d"
  proof (cases "ds_closed (sc_ses c)")
    case True
    then show ?thesis using sup_do_closed[OF step] by (simp add: callers_inv_def)
  next
    case False
    then have used: "set (used c) \<subseteq> set (asking c) \<union> set (ds_waiters (sc_ses c)) \<union> fst ` set (ds_answered (sc_ses c))"
      using inv by (simp add: callers_inv_def)
    show ?thesis
    proof (cases "caller_act a")
      case True
      show ?thesis
        using step True
      proof (cases rule: caller_moves)
        case (waits w)
        then show ?thesis using used remove1_covers[of "asking c" w] by (auto simp: callers_inv_def)
      qed (use used False in \<open>auto simp: callers_inv_def\<close>)
    next
      case False
      then have k: "kept_or_answered (sc_ses c) (sc_ses d)" "asking d = asking c" "used d = used c"
        using sup_do_kept[OF step] by simp_all
      have "set (used d) \<subseteq> set (asking d) \<union> (set (ds_waiters (sc_ses d)) \<union> fst ` set (ds_answered (sc_ses d)))"
        using used kept_sets[OF k(1)] by (simp add: k(2,3) Un_assoc)
      then show ?thesis by (simp add: callers_inv_def Un_assoc)
    qed
  qed
qed

lemma sup_step_answers:
  assumes "sup_step c a d"
  shows "set (ds_waiters (sc_ses c)) \<subseteq> set (ds_waiters (sc_ses d)) \<union> fst ` set (ds_answered (sc_ses d))
    \<and> fst ` set (ds_answered (sc_ses c)) \<subseteq> fst ` set (ds_answered (sc_ses d))"
proof -
  have step: "sup_do a c = Some d" using assms by (auto elim: sup_stepE)
  show ?thesis
  proof (cases "caller_act a")
    case True
    show ?thesis using step True by (cases rule: caller_moves) auto
  next
    case False
    then have k: "kept_or_answered (sc_ses c) (sc_ses d)" using sup_do_kept[OF step] by simp
    show ?thesis using kept_sets[OF k] by (intro conjI) (simp_all add: Un_upper1)
  qed
qed

text \<open>
  C30: Nobody who asked for a reconnect is answered twice. In every interleaving of callers,
  supervisors, endings and \<open>Close\<close>, each caller is in at most one place: about to register, waiting,
  or answered once; and until the session is closed, which refuses the callers about to register, in exactly
  one. One who waits goes on waiting or is answered, and an answer stays. So \<open>finishWaiters\<close>, which sends on channels
  of capacity one, never blocks.
\<close>

theorem waiters_once:
  assumes "sup_reach c"
  shows "distinct (asking c @ ds_waiters (sc_ses c) @ map fst (ds_answered (sc_ses c)))
    \<and> set (asking c) \<union> set (ds_waiters (sc_ses c)) \<union> fst ` set (ds_answered (sc_ses c)) \<subseteq> set (used c)
    \<and> (\<not> ds_closed (sc_ses c) \<longrightarrow>
         set (used c) = set (asking c) \<union> set (ds_waiters (sc_ses c)) \<union> fst ` set (ds_answered (sc_ses c)))
    \<and> (sup_step c a d \<longrightarrow>
         set (ds_waiters (sc_ses c)) \<subseteq> set (ds_waiters (sc_ses d)) \<union> fst ` set (ds_answered (sc_ses d))
         \<and> fst ` set (ds_answered (sc_ses c)) \<subseteq> fst ` set (ds_answered (sc_ses d)))"
  using supervising.reach_inv[OF assms] counting.reach_inv[OF assms] sup_step_answers[of c a d]
  unfolding waiters_inv_def callers_inv_def by auto

text \<open>Steps of the supervisors from a given state on, without a call of \<open>Close\<close>.\<close>

abbreviation sup_run :: "sconf \<Rightarrow> sact list \<Rightarrow> sconf option" where
  "sup_run \<equiv> run_steps (\<lambda>c a. sup_do a c)"

lemma sup_reach_run: "sup_start c \<Longrightarrow> sup_run c as = Some d \<Longrightarrow> sup_reach d"
  by (rule reach_run_steps[where f = "\<lambda>c a. sup_do a c"]) (auto intro: sup_step.intros reach.reach_start)

definition quiet_step :: "sconf \<Rightarrow> sact \<Rightarrow> sconf \<Rightarrow> bool" where
  "quiet_step c a d \<longleftrightarrow> sup_step c a d \<and> a \<noteq> CloseSession"

definition stuck :: "nat \<Rightarrow> sconf \<Rightarrow> bool" where
  "stuck w c \<longleftrightarrow> list_all (\<lambda>p. p = Exited) (sups c) \<and> w \<in> set (ds_waiters (sc_ses c)) \<and> ds_answered (sc_ses c) = []"

lemma stuck_step:
  assumes "stuck w c" and "quiet_step c a d"
  shows "stuck w d"
proof -
  have ex: "sup_at i c = Exited" for i using assms(1) by (simp add: stuck_def sup_at_def list_all_length)
  have "sup_do a c = Some d" "a \<noteq> CloseSession" using assms(2) by (auto simp: quiet_step_def elim: sup_stepE)
  then show ?thesis using assms(1) by (cases a) (auto simp: ex stuck_def Let_def split: if_splits)
qed

lemma stuck_reach: "reach (\<lambda>x. x = c) quiet_step d \<Longrightarrow> stuck w c \<Longrightarrow> stuck w d"
  by (induction rule: reach.induct) (auto intro: stuck_step)

lemma demo_auto: "d_autoReconnect (ds_opt demo_session)"
  by (simp add: demo_session_def newSession_def validateSwitchOptions_def defaultOptions_def payloadVersion_def
      ProtoJSONSerializer_def frame_consts)

lemma demo_callers:
  "ds_waiters demo_session = []" "ds_answered demo_session = []" "ds_fatal demo_session = None"
  "\<not> Terminal demo_session" "\<not> ds_closed demo_session"
  by (simp_all add: demo_session_def newSession_def validateSwitchOptions_def defaultOptions_def payloadVersion_def
      ProtoJSONSerializer_def frame_consts Terminal_def no_end_def)

text \<open>
  C29: A caller of \<open>Reconnect\<close> can be lost. In this schedule the caller has made its checks and is
  waiting when the battle ends; the supervisor takes its signal, sees the terminal state and
  returns without answering. From then on, whatever else happens short of \<open>Close\<close>, the caller
  goes on waiting and no supervisor is left to answer it.
\<close>

theorem reconnect_waiter_lost:
  "\<exists>c w. sup_reach c \<and> Terminal (sc_ses c) \<and> \<not> ds_closed (sc_ses c)
     \<and> (\<forall>d. reach (\<lambda>x. x = c) quiet_step d \<longrightarrow>
          w \<in> set (ds_waiters (sc_ses d)) \<and> w \<notin> fst ` set (ds_answered (sc_ses d)) \<and> (\<forall>p \<in> set (sups d). p = Exited))"
proof -
  let ?o = "opened demo_session"
  let ?w = "?o\<lparr>asking := [], used := [0], manual := 1, sc_ses := (sc_ses ?o)\<lparr>ds_waiters := [0]\<rparr>\<rparr>"
  obtain t where t: "markEnded reasonBattleEnded None (sc_ses ?w) = (True, t)" "Terminal t"
    using markEnded_effect[of "sc_ses ?w" reasonBattleEnded None] by (auto simp: opened_def Terminal_def no_end_def dtable_ok_def)
  have tw: "ds_waiters t = [0]" "ds_answered t = []" "\<not> ds_closed t"
    using markEnded_waiters[of reasonBattleEnded None "sc_ses ?w", unfolded t(1)] by (simp_all add: opened_def demo_callers)
  let ?t = "failInflight (Some (net_err ''connection lost'')) (dclose_tr 0 t)"
  let ?d = "?w\<lparr>manual := 0, dead := [0], sups := [Exited], sc_ses := ?t\<rparr>"
  have tt: "Terminal ?t" "ds_waiters ?t = [0]" "ds_answered ?t = []" "\<not> ds_closed ?t"
    using t tw by (simp_all add: Terminal_def dclose_tr_def)
  note s = demo_callers
  have "sup_run ?o [Ask 0, Enqueue 0, Signal, EndSession reasonBattleEnded None, TakeSignal 0, Drops 0, Wake 0] = Some ?d"
    using s t tt by (simp add: opened_def Terminal_def sup_at_def set_sup_def after_end_def Let_def)
  moreover have "sup_start ?o" using s unfolding sup_start_def by blast
  ultimately have "sup_reach ?d" by (rule sup_reach_run[rotated])
  moreover have "stuck 0 ?d" using tt by (simp add: stuck_def)
  then have "stuck 0 d" if "reach (\<lambda>x. x = ?d) quiet_step d" for d using stuck_reach[OF that] by blast
  then have "\<forall>d. reach (\<lambda>x. x = ?d) quiet_step d \<longrightarrow>
      0 \<in> set (ds_waiters (sc_ses d)) \<and> 0 \<notin> fst ` set (ds_answered (sc_ses d)) \<and> (\<forall>p \<in> set (sups d). p = Exited)"
    unfolding stuck_def list_all_iff by simp
  moreover have "Terminal (sc_ses ?d)" "\<not> ds_closed (sc_ses ?d)" using tt by simp_all
  ultimately show ?thesis by blast
qed

theorem reconnect_waiter_lost_witness:
  "\<exists>c w. sup_reach c \<and> Terminal (sc_ses c) \<and> w \<in> set (ds_waiters (sc_ses c)) \<and> w \<notin> fst ` set (ds_answered (sc_ses c))"
proof -
  obtain c w where c: "sup_reach c" "Terminal (sc_ses c)"
    "\<And>d. reach (\<lambda>x. x = c) quiet_step d \<Longrightarrow>
       w \<in> set (ds_waiters (sc_ses d)) \<and> w \<notin> fst ` set (ds_answered (sc_ses d))"
    using reconnect_waiter_lost by blast
  have "reach (\<lambda>x. x = c) quiet_step c" by (rule reach.reach_start) simp
  then show ?thesis using c by blast
qed

section \<open>Supervisors multiply\<close>

text \<open>One supervisor's way through an outage: it wakes, dials with success and replays.\<close>

definition recover_one :: "nat \<Rightarrow> sact list" where "recover_one i = [Wake i, DialOk i, ReplayOk i]"

definition recover_all :: "nat \<Rightarrow> sact list" where "recover_all n = concat (map recover_one [0..<n])"

fun outages :: "nat \<Rightarrow> sact list" where
  "outages 0 = []"
| "outages (Suc n) = outages n @ Outage # recover_all (2 ^ n)"

definition awaits :: "nat \<Rightarrow> sup \<Rightarrow> bool" where "awaits n p \<longleftrightarrow> (\<exists>g < n. p = Await g)"

text \<open>After \<open>j\<close> of the \<open>m\<close> old supervisors have recovered; \<open>n\<close> transports were open before the outage.\<close>

definition recovered :: "nat \<Rightarrow> nat \<Rightarrow> nat \<Rightarrow> sconf \<Rightarrow> bool" where
  "recovered n m j c \<longleftrightarrow>
     length (sups c) = m + j \<and> next_tr' c = n + j \<and> dead c = [0..<n]
     \<and> (\<forall>i < m + j. awaits (if j \<le> i \<and> i < m then n else n + j) (sups c ! i))
     \<and> \<not> Terminal (sc_ses c) \<and> \<not> ds_closed (sc_ses c) \<and> d_autoReconnect (ds_opt (sc_ses c))"

lemma recover_step:
  assumes "recovered n m j c" and "j < m"
  shows "\<exists>d. sup_run c (recover_one j) = Some d \<and> recovered n m (Suc j) d"
proof -
  let ?s = "sc_ses c"
  from assms have c: "length (sups c) = m + j" "next_tr' c = n + j" "dead c = [0..<n]"
      "\<not> Terminal ?s" "\<not> ds_closed ?s" "d_autoReconnect (ds_opt ?s)" by (simp_all add: recovered_def)
  have "\<forall>i < m + j. awaits (if j \<le> i \<and> i < m then n else n + j) (sups c ! i)" using assms(1) by (simp add: recovered_def)
  with assms(2) have "awaits n (sups c ! j)" by (auto dest: spec[of _ j])
  then obtain g where g: "sups c ! j = Await g" "g < n" by (auto simp: awaits_def)
  define s1 where "s1 = setState DStateReconnecting ?s"
  define s2 where "s2 = snd (startGeneration (n + j) (dialTracked None s1))"
  define s3 where "s3 = finishWaiters None (setState DStateConnected (s2\<lparr>ds_stats := noteReconnectRound None (ds_stats s2)\<rparr>))"
  have s1: "\<not> Terminal s1" "\<not> ds_closed s1" "ds_opt s1 = ds_opt ?s"
    using c by (simp_all add: s1_def setState_def Terminal_def)
  have s2: "startGeneration (n + j) (dialTracked None s1) = (True, s2)" "ds_gen s2 = Some (n + j)"
      "\<not> Terminal s2" "\<not> ds_closed s2" "ds_opt s2 = ds_opt ?s"
    using s1 by (simp_all add: s2_def startGeneration_def dialTracked_def Terminal_def)
  have s3: "ds_gen s3 = Some (n + j)" "\<not> Terminal s3" "\<not> ds_closed s3" "ds_opt s3 = ds_opt ?s"
    using s2 by (simp_all add: s3_def finishWaiters_def setState_def Terminal_def)
  let ?d = "c\<lparr>sc_ses := s3, sups := (sups c)[j := Await (n + j)] @ [Await (n + j)], next_tr' := Suc (n + j)\<rparr>"
  have j: "j < length (sups c)" using c assms(2) by simp
  have "sup_run c (recover_one j) = Some ?d"
    using j c g s1 s2 s3(1)
    by (simp add: recover_one_def sup_at_def after_end_def set_sup_def list_update_append nth_append s1_def[symmetric] s3_def[symmetric] Let_def)
  moreover have "awaits (n + Suc j) p" if "awaits (n + j) p \<or> awaits n p" for p using that by (auto simp: awaits_def)
  then have "recovered n m (Suc j) ?d"
    using assms c s3 by (auto simp: recovered_def nth_append nth_list_update awaits_def less_Suc_eq split: if_splits)
  ultimately show ?thesis by blast
qed

lemma recover_many:
  "recovered n m 0 c \<Longrightarrow> k \<le> m \<Longrightarrow> \<exists>d. sup_run c (recover_all k) = Some d \<and> recovered n m k d"
proof (induction k)
  case 0
  then show ?case by (simp add: recover_all_def)
next
  case (Suc k)
  then obtain d where "sup_run c (recover_all k) = Some d" "recovered n m k d" by auto
  moreover from this Suc.prems obtain e where "sup_run d (recover_one k) = Some e" "recovered n m (Suc k) e"
    using recover_step[of n m k d] by auto
  moreover have "recover_all (Suc k) = recover_all k @ recover_one k" by (simp add: recover_all_def)
  ultimately show ?case by (simp add: run_steps_append del: sup_do.simps)
qed

text \<open>Between outages: \<open>2 ^ n\<close> supervisors, all of them waiting, and the transports of the last one open.\<close>

definition settled_down :: "nat \<Rightarrow> sconf \<Rightarrow> bool" where
  "settled_down n c \<longleftrightarrow>
     length (sups c) = 2 ^ n \<and> (\<forall>p \<in> set (sups c). awaits (next_tr' c) p)
     \<and> length (open_transports c) = (if n = 0 then 1 else 2 ^ (n - 1))
     \<and> \<not> Terminal (sc_ses c) \<and> \<not> ds_closed (sc_ses c) \<and> d_autoReconnect (ds_opt (sc_ses c))"

lemma outage_step:
  assumes "settled_down n c"
  shows "\<exists>d. sup_run c (Outage # recover_all (2 ^ n)) = Some d \<and> settled_down (Suc n) d"
proof -
  let ?c = "c\<lparr>dead := [0..<next_tr' c], sc_ses := failInflight (Some (net_err ''connection lost'')) (sc_ses c)\<rparr>"
  have "recovered (next_tr' c) (2 ^ n) 0 ?c"
    using assms by (simp add: recovered_def settled_down_def Terminal_def all_set_conv_all_nth)
  from recover_many[OF this order_refl] obtain d
    where d: "sup_run ?c (recover_all (2 ^ n)) = Some d" "recovered (next_tr' c) (2 ^ n) (2 ^ n) d" by blast
  have "open_transports d = [next_tr' c..<next_tr' c + 2 ^ n]"
  proof -
    have "[0..<next_tr' c + 2 ^ n] = [0..<next_tr' c] @ [next_tr' c..<next_tr' c + 2 ^ n]"
      using upt_add_eq_append[of 0 "next_tr' c" "2 ^ n"] by simp
    then show ?thesis using d(2) by (simp add: open_transports_def recovered_def filter_empty_conv)
  qed
  moreover have "\<forall>p \<in> set (sups d). awaits (next_tr' d) p"
    using d(2) by (auto simp: recovered_def in_set_conv_nth split: if_splits)
  ultimately have "settled_down (Suc n) d" using d(2) by (simp add: settled_down_def recovered_def)
  then show ?thesis using d(1) by (intro exI[of _ d]) simp
qed

lemma outages_run:
  "settled_down 0 c \<Longrightarrow> \<exists>d. sup_run c (outages n) = Some d \<and> settled_down n d"
proof (induction n)
  case (Suc n)
  then obtain d where d: "sup_run c (outages n) = Some d" "settled_down n d" by blast
  from outage_step[OF d(2)] obtain e where "sup_run d (Outage # recover_all (2 ^ n)) = Some e" "settled_down (Suc n) e" by blast
  then show ?case using d(1) by (intro exI[of _ e]) (simp add: run_steps_append del: sup_do.simps run_steps.simps(2))
qed simp

lemma outages_actions:
  "length (filter (\<lambda>a. a = Outage) (outages n)) = n"
  "a \<in> set (outages n) \<Longrightarrow> a = Outage \<or> (\<exists>i. a \<in> set (recover_one i))"
  by (induction n) (auto simp: recover_all_def recover_one_def filter_concat comp_def)

text \<open>
  Supervisors multiply. \<open>startGeneration\<close> starts a supervisor for the new generation, and the one
  that called it goes on with that generation too; so each outage of the network, every dial and
  replay succeeding at the first try, doubles their number. After \<open>n\<close> outages there are \<open>2 ^ n\<close>
  supervisors and half as many transports open at once, of which the session uses one.
\<close>

theorem supervisors_double:
  assumes "\<not> Terminal s" and "\<not> ds_closed s" and "d_autoReconnect (ds_opt s)"
  shows "\<exists>as c. run_steps (\<lambda>c a. sup_do a c) (opened s) as = Some c
     \<and> length (filter (\<lambda>a. a = Outage) as) = n \<and> (\<forall>a \<in> set as. a = Outage \<or> (\<exists>i. a \<in> {Wake i, DialOk i, ReplayOk i}))
     \<and> length (filter (\<lambda>p. p \<noteq> Exited) (sups c)) = 2 ^ n
     \<and> length (open_transports c) = (if n = 0 then 1 else 2 ^ (n - 1))"
proof -
  have "settled_down 0 (opened s)"
    using assms by (simp add: settled_down_def opened_def awaits_def open_transports_def Terminal_def)
  from outages_run[OF this, of n] obtain c where c: "sup_run (opened s) (outages n) = Some c" "settled_down n c" by blast
  have "filter (\<lambda>p. p \<noteq> Exited) (sups c) = sups c"
    using c(2) by (auto simp: settled_down_def awaits_def filter_id_conv)
  then show ?thesis
    using c outages_actions(1)[of n] outages_actions(2)[of _ n]
    by (intro exI[of _ "outages n"] exI[of _ c]) (auto simp: settled_down_def recover_one_def)
qed

theorem supervisors_double_witness:
  "\<exists>as c. run_steps (\<lambda>c a. sup_do a c) (opened demo_session) as = Some c \<and> length (open_transports c) = 4"
  using supervisors_double[of demo_session 3] demo_callers demo_auto by auto

text \<open>One caller is answered by a reconnect, the next one waits, the third is about to register.\<close>

definition three_callers :: "sact list" where
  "three_callers = [Ask 0, Ask 1, Ask 2, Enqueue 0, Signal, TakeSignal 0, Drops 0, Wake 0, DialOk 0, ReplayOk 0, Enqueue 1]"

lemma end_same:
  "ds_end (setState st s) = ds_end s" "ds_end (dclose_tr g s) = ds_end s" "ds_end (dialTracked r s) = ds_end s"
  by (simp_all add: setState_def dclose_tr_def dialTracked_def)

lemma finishWaiters_answers: "ds_answered (finishWaiters r s) = ds_answered s @ map (\<lambda>w. (w, r)) (ds_waiters s)"
  by (simp add: finishWaiters_def)

lemma finishWaiters_gen: "ds_gen (finishWaiters r s) = ds_gen s" "ds_gen (setState st s) = ds_gen s"
  by (simp_all add: finishWaiters_def setState_def)

theorem waiters_once_witness:
  "\<exists>c. sup_reach c \<and> asking c = [2] \<and> ds_waiters (sc_ses c) = [1] \<and> ds_answered (sc_ses c) = [(0, None)]
     \<and> set (used c) = {0, 1, 2}"
proof -
  obtain c where c: "sup_run (opened demo_session) three_callers = Some c" "asking c = [2]" "ds_waiters (sc_ses c) = [1]"
      "ds_answered (sc_ses c) = [(0, None)]" "\<not> ds_closed (sc_ses c)"
    using demo_callers
    by (simp add: three_callers_def opened_def sup_at_def set_sup_def after_end_def startGeneration_def finishWaiters_answers
        finishWaiters_gen Terminal_def end_same Let_def)
  have "sup_start (opened demo_session)" unfolding sup_start_def by (intro exI[of _ demo_session]) (simp add: demo_callers)
  then have r: "sup_reach c" using c(1) by (rule sup_reach_run)
  then have "set (used c) = {0, 1, 2}" using waiters_once[OF r] c(2-5) by auto
  then show ?thesis using r c by blast
qed

end
