(* ===== verification/DirectLeaks.thy ===== *)
theory DirectLeaks
  imports DirectSupervise
begin

text \<open>
  \<open>Close\<close> of a direct session after outages of the network (\<open>direct/session.go\<close>). \<open>Close\<close> closes
  the transport of the current generation and waits, through the session's wait group, for every
  read loop and every supervisor. The supervisors that multiply in \<open>DirectSupervise\<close> leave further
  transports open, and nothing ends their read loops.
\<close>

section \<open>Waiting for the goroutines\<close>

text \<open>
  What \<open>Close\<close> waits for at \<open>wg.Wait\<close>: read loops that have not ended and supervisors that have not
  returned. (It waits for heartbeats and linger windows as well, which both watch \<open>closeCh\<close>.)
\<close>

definition close_waits :: "sconf \<Rightarrow> bool" where
  "close_waits c \<longleftrightarrow> open_transports c \<noteq> [] \<or> list_ex (\<lambda>p. p \<noteq> Exited) (sups c)"

text \<open>
  Steps with a silent network: a read loop ends only on a transport that the session has closed, and
  nobody calls \<open>Reconnect\<close>. Without a read deadline, as on WebSocket and UDP, a peer that has gone
  away is such a network.
\<close>

definition silent_step :: "sconf \<Rightarrow> sact \<Rightarrow> sconf \<Rightarrow> bool" where
  "silent_step c a d \<longleftrightarrow> sup_step c a d \<and> a \<noteq> Outage \<and> a \<noteq> Signal
     \<and> (case a of Drops g \<Rightarrow> g \<in> set (ds_closed_trs (sc_ses c)) | _ \<Rightarrow> True)"

text \<open>After \<open>Close\<close>: a transport with a read loop that is neither current nor closed.\<close>

definition leaked :: "nat \<Rightarrow> sconf \<Rightarrow> bool" where
  "leaked g c \<longleftrightarrow> ds_closed (sc_ses c) \<and> g < next_tr' c \<and> g \<notin> set (dead c) \<and> g \<notin> set (ds_closed_trs (sc_ses c))
     \<and> ds_gen (sc_ses c) \<noteq> Some g \<and> manual c = 0"

section \<open>A leaked transport stays open\<close>

text \<open>What the operations of a closed session do to its transports.\<close>

definition closes_only :: "nat option \<Rightarrow> dsession \<Rightarrow> dsession \<Rightarrow> bool" where
  "closes_only g s t \<longleftrightarrow> ds_closed t = ds_closed s \<and> ds_gen t = ds_gen s
     \<and> set (ds_closed_trs t) \<subseteq> set (ds_closed_trs s) \<union> set_option g"

lemma settle_trs: "ds_closed_trs (settleInflight r s) = ds_closed_trs s"
proof -
  have "ds_closed_trs (fold (\<lambda>(k, _) s. settle_key k r s) kvs s) = ds_closed_trs s" for kvs :: "(u32 \<times> nat) list"
    by (induction kvs arbitrary: s) (auto simp: settle_key_def dput_mail_def split: option.split prod.split)
  then show ?thesis by (simp add: settleInflight_def)
qed

lemma trs_same [simp]:
  "ds_closed_trs (setState st s) = ds_closed_trs s" "ds_gen (setState st s) = ds_gen s" "ds_closed (setState st s) = ds_closed s"
  "ds_closed_trs (finishWaiters r s) = ds_closed_trs s" "ds_gen (finishWaiters r s) = ds_gen s"
  "ds_closed (finishWaiters r s) = ds_closed s"
  "ds_closed_trs (setFatal x s) = ds_closed_trs s" "ds_gen (setFatal x s) = ds_gen s" "ds_closed (setFatal x s) = ds_closed s"
  "ds_closed_trs (failInflight r s) = ds_closed_trs s"
  "ds_closed_trs (dialTracked e s) = ds_closed_trs s" "ds_gen (dialTracked e s) = ds_gen s" "ds_closed (dialTracked e s) = ds_closed s"
  by (simp_all add: setState_def finishWaiters_def setFatal_def failInflight_def settle_trs dialTracked_def split: option.split)

lemma after_trs [simp]:
  "ds_closed_trs (sc_ses (after_end i man c)) = ds_closed_trs (sc_ses c)" "ds_gen (sc_ses (after_end i man c)) = ds_gen (sc_ses c)"
  "ds_closed (sc_ses (after_end i man c)) = ds_closed (sc_ses c)" "dead (after_end i man c) = dead c"
  "next_tr' (after_end i man c) = next_tr' c" "manual (after_end i man c) = manual c"
  "ds_closed_trs (sc_ses (after_error i x c)) = ds_closed_trs (sc_ses c)" "ds_gen (sc_ses (after_error i x c)) = ds_gen (sc_ses c)"
  "ds_closed (sc_ses (after_error i x c)) = ds_closed (sc_ses c)" "dead (after_error i x c) = dead c"
  "next_tr' (after_error i x c) = next_tr' c" "manual (after_error i x c) = manual c"
  by (simp_all add: after_end_def after_error_def Let_def)

lemma closeCurrent_trs: "closes_only (ds_gen s) s (closeCurrent s)"
  by (auto simp: closes_only_def closeCurrent_def dclose_tr_def split: option.split)

lemma markEnded_trs: "closes_only (ds_gen s) s (snd (markEnded r x s))"
  using settle_waiters settle_trs
  by (auto simp: closes_only_def markEnded_def end_flag_def end_failed_def end_cause_def end_connection_def startLinger_def
      settleInflightTerminal_def closeCurrent_def dclose_tr_def Let_def split: option.split)

lemma leaked_closes_only:
  "leaked g c \<Longrightarrow> closes_only (ds_gen (sc_ses c)) (sc_ses c) s \<Longrightarrow> leaked g (c\<lparr>sc_ses := s\<rparr>)"
  by (auto simp: leaked_def closes_only_def)

lemma leaked_step:
  assumes "leaked g c" and "silent_step c a d"
  shows "leaked g d"
proof -
  have a: "sup_do a c = Some d" "a \<noteq> Outage" "a \<noteq> Signal" "\<And>h. a = Drops h \<Longrightarrow> h \<in> set (ds_closed_trs (sc_ses c))"
    using assms(2) by (auto simp: silent_step_def elim: sup_stepE)
  have m: "manual c = 0" "ds_closed (sc_ses c)" using assms(1) by (simp_all add: leaked_def)
  show ?thesis
  proof (cases a)
    case (Drops h)
    then show ?thesis using a assms(1) by (auto simp: leaked_def split: if_splits)
  next
    case (EndSession r x)
    then show ?thesis using a leaked_closes_only[OF assms(1) markEnded_trs] by auto
  next
    case (ReplayErr i x)
    have "leaked g (c\<lparr>sc_ses := closeCurrent (sc_ses c)\<rparr>)" using leaked_closes_only[OF assms(1) closeCurrent_trs] .
    then show ?thesis using a assms(1) ReplayErr by (auto simp: leaked_def split: sup.splits if_splits)
  next
    case (DialOk i)
    then show ?thesis using a assms(1) m
      by (auto simp: leaked_def startGeneration_def dclose_tr_def Let_def split: sup.splits)
  qed (use a m assms(1) in \<open>auto simp: leaked_def Close_direct_def Let_def split: sup.splits if_splits option.splits\<close>)
qed

lemma leaked_reach: "reach (\<lambda>x. x = c) silent_step d \<Longrightarrow> leaked g c \<Longrightarrow> leaked g d"
  by (induction rule: reach.induct) (auto intro: leaked_step)

section \<open>Transports after outages\<close>

text \<open>
  Through outages, wake-ups, dials and replays that succeed: nothing has been closed, the last transport
  is the current one, and there are as many supervisors as transports opened.
\<close>

definition only_opened :: "sconf \<Rightarrow> bool" where
  "only_opened c \<longleftrightarrow> ds_closed_trs (sc_ses c) = [] \<and> \<not> ds_closed (sc_ses c) \<and> manual c = 0 \<and> 0 < next_tr' c
     \<and> ds_gen (sc_ses c) = Some (next_tr' c - 1) \<and> length (sups c) = next_tr' c"

definition recovering :: "sact \<Rightarrow> bool" where
  "recovering a \<longleftrightarrow> a = Outage \<or> (\<exists>i. a \<in> {Wake i, DialOk i, ReplayOk i})"

lemma length_after_end [simp]: "length (sups (after_end i man c)) = length (sups c)"
  by (simp add: after_end_def Let_def)

lemma only_opened_step: "only_opened c \<Longrightarrow> sup_do a c = Some d \<Longrightarrow> recovering a \<Longrightarrow> only_opened d"
  by (auto simp: recovering_def only_opened_def startGeneration_def Let_def split: sup.splits if_splits)

lemma only_opened_run:
  "sup_run c as = Some d \<Longrightarrow> only_opened c \<Longrightarrow> \<forall>a \<in> set as. recovering a \<Longrightarrow> only_opened d"
proof (induction as arbitrary: c)
  case (Cons a as)
  then obtain e where "sup_do a c = Some e" "sup_run e as = Some d" by (auto split: option.splits simp del: sup_do.simps)
  with Cons show ?case using only_opened_step[of c a e] by auto
qed simp

lemma outages_settle:
  assumes "\<not> Terminal s" and "\<not> ds_closed s" and "d_autoReconnect (ds_opt s)" and "ds_closed_trs s = []"
  shows "\<exists>c. sup_run (opened s) (outages n) = Some c \<and> settled_down n c \<and> only_opened c"
proof -
  have "settled_down 0 (opened s)"
    using assms by (simp add: settled_down_def opened_def awaits_def open_transports_def Terminal_def)
  from outages_run[OF this, of n] obtain c where c: "sup_run (opened s) (outages n) = Some c" "settled_down n c" by blast
  moreover have "only_opened (opened s)" using assms by (simp add: only_opened_def opened_def)
  moreover have "\<forall>a \<in> set (outages n). recovering a"
    using outages_actions(2)[of _ n] by (auto simp: recovering_def recover_one_def)
  ultimately show ?thesis using only_opened_run by blast
qed

section \<open>Close does not return\<close>

lemma close_leaks:
  assumes "only_opened c" and "sup_do CloseSession c = Some d" and "g \<in> set (open_transports c)" and "g \<noteq> next_tr' c - 1"
  shows "leaked g d"
  using assms by (auto simp: leaked_def only_opened_def open_transports_def Close_direct_def dclose_tr_def Let_def)

lemma leaked_open: "leaked g c \<Longrightarrow> g \<in> set (open_transports c)"
  by (simp add: leaked_def open_transports_def)

lemma card_open: "card (set (open_transports c)) = length (open_transports c)"
  by (intro distinct_card) (simp add: open_transports_def)

lemma open_after_close:
  assumes "\<And>g. g \<in> set (open_transports c) \<Longrightarrow> g \<noteq> k \<Longrightarrow> g \<in> set (open_transports d)"
  shows "length (open_transports c) - 1 \<le> length (open_transports d)"
proof -
  have "length (open_transports c) - 1 \<le> card (set (open_transports c) - {k})"
    using diff_card_le_card_Diff[of "{k}" "set (open_transports c)"] by (simp add: card_open)
  also have "\<dots> \<le> card (set (open_transports d))" using assms by (intro card_mono) auto
  finally show ?thesis by (simp add: card_open)
qed

lemma another_open:
  assumes "2 \<le> length (open_transports c)"
  obtains g where "g \<in> set (open_transports c)" and "g \<noteq> k"
proof -
  have "\<not> set (open_transports c) \<subseteq> {k}" using card_mono[of "{k}" "set (open_transports c)"] assms by (auto simp: card_open)
  then show ?thesis using that by blast
qed

text \<open>A closed session's supervisors that wait for a generation see the close, one after the other.\<close>

lemma see_closed_run:
  assumes "ds_closed (sc_ses c)" and "\<forall>p \<in> set (sups c). awaits n p"
  shows "k \<le> length (sups c) \<Longrightarrow> sup_run c (map SeeClosed [0..<k]) = Some (c\<lparr>sups := replicate k Exited @ drop k (sups c)\<rparr>)"
proof (induction k)
  case (Suc k)
  let ?c = "c\<lparr>sups := replicate k Exited @ drop k (sups c)\<rparr>"
  have k: "k < length (sups c)" using Suc.prems by simp
  then have "awaits n (sups c ! k)" using assms(2) by simp
  then obtain g where g: "sups c ! k = Await g" by (auto simp: awaits_def)
  have "drop k (sups c) = Await g # drop (Suc k) (sups c)" using Cons_nth_drop_Suc[OF k] g by simp
  then have "sup_do (SeeClosed k) ?c = Some (c\<lparr>sups := replicate (Suc k) Exited @ drop (Suc k) (sups c)\<rparr>)"
    using assms(1) k by (simp add: sup_at_def nth_append set_sup_def list_update_append replicate_app_Cons_same)
  then show ?case using Suc by (simp add: run_steps_append del: sup_do.simps)
qed simp

text \<open>
  C28: Supervisors multiply, and \<open>Close\<close> then waits for good. \<open>startGeneration\<close> starts a supervisor for the new
  generation, and the one that called it goes on with that generation too; so each outage of the network,
  every dial and replay succeeding at the first try, doubles their number. After \<open>n\<close> outages there are
  \<open>2 ^ n\<close> supervisors; as many transports have been opened, half of them are open at once, and none was
  closed. \<open>Close\<close> closes the last of them only: from the second outage on, whatever happens short of
  the network ending the other connections, their read loops go on and \<open>Close\<close> does not return. Nothing
  else holds it up: when the network ends them, each supervisor sees the close and nothing is waited for.
\<close>

theorem close_waits_forever:
  assumes "\<not> Terminal s" and "\<not> ds_closed s" and "d_autoReconnect (ds_opt s)" and "ds_closed_trs s = []" and "2 \<le> n"
  shows "\<exists>as c. run_steps (\<lambda>c a. sup_do a c) (opened s) (as @ [CloseSession]) = Some c
     \<and> length (filter (\<lambda>a. a = Outage) as) = n \<and> list_all recovering as
     \<and> length (filter (\<lambda>p. p \<noteq> Exited) (sups c)) = 2 ^ n
     \<and> next_tr' c = 2 ^ n \<and> length (open_transports c) = 2 ^ (n - 1) \<and> ds_closed_trs (sc_ses c) = [2 ^ n - 1]
     \<and> (\<forall>d. reach (\<lambda>x. x = c) silent_step d \<longrightarrow>
          ds_closed (sc_ses d) \<and> 2 ^ (n - 1) - 1 \<le> length (open_transports d) \<and> close_waits d)
     \<and> (\<exists>d. run_steps (\<lambda>c a. sup_do a c) c (Outage # map SeeClosed [0..<2 ^ n]) = Some d \<and> \<not> close_waits d)"
proof -
  obtain b where b: "sup_run (opened s) (outages n) = Some b" "settled_down n b" "only_opened b"
    using outages_settle[OF assms(1-4)] by blast
  let ?c = "b\<lparr>sc_ses := Close_direct (sc_ses b)\<rparr>"
  have run: "sup_run (opened s) (outages n @ [CloseSession]) = Some ?c" using b(1) by (simp add: run_steps_append)
  have acts: "list_all recovering (outages n)"
    using outages_actions(2)[of _ n] by (auto simp: recovering_def recover_one_def list_all_iff)
  have sizes: "length (filter (\<lambda>p. p \<noteq> Exited) (sups b)) = 2 ^ n" "next_tr' b = 2 ^ n" "length (open_transports b) = 2 ^ (n - 1)"
  proof -
    have "filter (\<lambda>p. p \<noteq> Exited) (sups b) = sups b" using b(2) by (auto simp: settled_down_def awaits_def filter_id_conv)
    then show "length (filter (\<lambda>p. p \<noteq> Exited) (sups b)) = 2 ^ n" "next_tr' b = 2 ^ n" "length (open_transports b) = 2 ^ (n - 1)"
      using b(2,3) assms(5) by (simp_all add: settled_down_def only_opened_def)
  qed
  have closed: "ds_closed_trs (sc_ses ?c) = [2 ^ n - 1]"
    using b(3) sizes(2) by (simp add: only_opened_def Close_direct_def dclose_tr_def Let_def)
  have "(2::nat) ^ 1 \<le> 2 ^ (n - 1)" using assms(5) by (intro power_increasing) auto
  then have two: "2 \<le> length (open_transports b)" using sizes(3) by simp
  have "ds_closed (sc_ses d) \<and> 2 ^ (n - 1) - 1 \<le> length (open_transports d) \<and> close_waits d"
    if d: "reach (\<lambda>x. x = ?c) silent_step d" for d
  proof -
    have leak: "leaked g d" if "g \<in> set (open_transports b)" "g \<noteq> next_tr' b - 1" for g
      using leaked_reach[OF d] close_leaks[OF b(3) _ that] by simp
    then have le: "length (open_transports b) - 1 \<le> length (open_transports d)"
      using leaked_open by (intro open_after_close[of _ "next_tr' b - 1"]) blast
    obtain g where "g \<in> set (open_transports b)" "g \<noteq> next_tr' b - 1" using another_open[OF two] .
    then have "leaked g d" by (rule leak)
    then show ?thesis using le sizes(3) leaked_open[of g d] by (auto simp: leaked_def close_waits_def)
  qed
  moreover have "\<exists>d. sup_run ?c (Outage # map SeeClosed [0..<2 ^ n]) = Some d \<and> \<not> close_waits d"
  proof -
    let ?o = "?c\<lparr>dead := [0..<next_tr' b], sc_ses := failInflight (Some (net_err ''connection lost'')) (Close_direct (sc_ses b))\<rparr>"
    have "ds_closed (Close_direct (sc_ses b))" by (simp add: Close_direct_def dclose_tr_def Let_def split: option.split)
    then have "sup_run ?o (map SeeClosed [0..<2 ^ n]) = Some (?o\<lparr>sups := replicate (2 ^ n) Exited @ drop (2 ^ n) (sups ?o)\<rparr>)"
      using b(2) by (intro see_closed_run[of _ "next_tr' b"]) (simp_all add: settled_down_def)
    then show ?thesis using b(2) by (simp add: close_waits_def open_transports_def filter_empty_conv list_ex_iff settled_down_def)
  qed
  ultimately show ?thesis
    using run acts sizes closed outages_actions(1)[of n]
    by (intro exI[of _ "outages n"] exI[of _ ?c]) (simp add: open_transports_def del: run_steps.simps)
qed

theorem close_waits_forever_witness:
  "\<exists>as c. run_steps (\<lambda>c a. sup_do a c) (opened demo_session) (as @ [CloseSession]) = Some c
     \<and> length (filter (\<lambda>a. a = Outage) as) = 2 \<and> ds_closed (sc_ses c) \<and> close_waits c \<and> ds_closed_trs (sc_ses c) = [3]"
proof -
  have "ds_closed_trs demo_session = []"
    by (simp add: demo_session_def newSession_def validateSwitchOptions_def defaultOptions_def payloadVersion_def
        ProtoJSONSerializer_def frame_consts)
  then obtain as c where c: "run_steps (\<lambda>c a. sup_do a c) (opened demo_session) (as @ [CloseSession]) = Some c"
      "length (filter (\<lambda>a. a = Outage) as) = 2" "ds_closed_trs (sc_ses c) = [3]"
      "\<And>d. reach (\<lambda>x. x = c) silent_step d \<Longrightarrow> ds_closed (sc_ses d) \<and> close_waits d"
    using close_waits_forever[of demo_session 2] demo_callers demo_auto by fastforce
  have "reach (\<lambda>x. x = c) silent_step c" by (rule reach.reach_start) simp
  then show ?thesis using c by blast
qed

end
