(* ===== verification/NetMigrate.thy ===== *)
theory NetMigrate
  imports Transports DirectStats DirectPlan "HOL-Library.Multiset" "HOL-Library.List_Lexorder" "HOL-Library.Char_ord"
begin

text \<open>
  Moving a KCP session to another network (\<open>direct/netmigrate.go\<close>, \<open>netmigrate_switch.go\<close>,
  \<open>netmigrate_dead.go\<close>, \<open>netwatch.go\<close>): the packet connection under the KCP session, whose socket
  and flow id can be replaced while it is in use. The operations are functions on the connection's
  state; \<open>migrate\<close> and \<open>Close\<close> are also given in the pieces between their lock operations, which
  \<open>NetSwitch\<close> interleaves. Sockets are numbers; what a socket answers is an argument.
\<close>

section \<open>Limits (direct/netmigrate.go)\<close>

text \<open>An instant is in nanoseconds; \<open>None\<close> is the zero \<open>time.Time\<close>. \<open>Sub\<close> saturates.\<close>

type_synonym instant = int

definition Sub_time :: "instant \<Rightarrow> instant \<Rightarrow> duration" where
  "Sub_time t u = max (- (2 ^ 63)) (min (2 ^ 63 - 1) (t - u))"

type_synonym SwitchReason = string

definition SwitchNetworkEvent :: SwitchReason where "SwitchNetworkEvent = ''network_event''"
definition SwitchWriteError :: SwitchReason where "SwitchWriteError = ''write_error''"
definition SwitchReadTimeout :: SwitchReason where "SwitchReadTimeout = ''read_timeout''"

definition defaultSwitchRetries :: nat where "defaultSwitchRetries = 3"
definition defaultSwitchHelloTimeout :: duration where "defaultSwitchHelloTimeout = second"
definition maxReadTick :: duration where "maxReadTick = second"
definition minReadTick :: duration where "minReadTick = 10 * millisecond"

record switchLimits =
  l_Window :: duration
  l_IdleSwitch :: duration
  l_IdleDead :: duration
  l_SwallowMax :: u64
  l_RetryBase :: duration

definition validate :: "switchLimits \<Rightarrow> err option" where
  "validate l =
     (if l_Window l \<le> 0 \<or> l_IdleSwitch l \<le> 0 \<or> l_IdleDead l \<le> 0 \<or> l_RetryBase l \<le> 0
      then Some (Msg ''switch limits'')
      else if l_IdleDead l \<le> l_IdleSwitch l then Some (Msg ''idle thresholds'')
      else if l_SwallowMax l = 0 then Some (Msg ''swallow budget'')
      else None)"

definition readTick :: "switchLimits \<Rightarrow> duration" where
  "readTick l =
     (let tick = trunc_div (l_IdleDead l) 4 in
      if tick < minReadTick then minReadTick else if tick > maxReadTick then maxReadTick else tick)"

definition limits_of :: "options \<Rightarrow> switchLimits" where
  "limits_of o' = \<lparr>l_Window = d_switchWindow o', l_IdleSwitch = d_idleSwitch o', l_IdleDead = d_idleDead o',
     l_SwallowMax = of_nat (d_swallowMax o'), l_RetryBase = d_switchRetryBase o'\<rparr>"

section \<open>The hello of a new socket\<close>

text \<open>The write's error and what the read gives; \<open>Inr None\<close> is the one-byte busy reply.\<close>

definition exchangeHello :: "err option \<Rightarrow> err + bytes \<Rightarrow> (err + u64 option) option" where
  "exchangeHello wr reply =
     (case wr of
        Some x \<Rightarrow> Some (Inl (NetworkError (Wrap ''write hello'' [x])))
      | None \<Rightarrow>
          (case reply of
             Inl x \<Rightarrow>
               Some (Inl (if isTimeout x then wrap_sentinel ErrRejected
                          else NetworkError (Wrap ''read flow-id'' [x])))
           | Inr d \<Rightarrow>
               let buf = take FlowIDLen d in
               (if length buf = 1 \<and> index_at 0 buf = Some 0 then Some (Inr None)
                else if length buf \<noteq> FlowIDLen then Some (Inl (wrap_sentinel ErrRejected))
                else do { i \<leftarrow> uint64_be buf; Some (Inr (Some i)) })))"

text \<open>
  The loop of \<open>helloFlow\<close>. Each attempt comes with its write error, its reply and, after a busy
  reply, the error of an interrupted sleep. The result has the delays slept; \<open>None\<close> while there
  is no further attempt in the list.
\<close>

type_synonym hello_try = "err option \<times> (err + bytes) \<times> err option"

fun helloFlow_loop :: "nat \<Rightarrow> duration \<Rightarrow> hello_try list \<Rightarrow> (duration list \<times> (err + u64)) option" where
  "helloFlow_loop attempt delay [] = None"
| "helloFlow_loop attempt delay ((wr, reply, cancelled) # tries) =
     (case exchangeHello wr reply of
        None \<Rightarrow> None
      | Some (Inl x) \<Rightarrow> Some ([], Inl x)
      | Some (Inr (Some i)) \<Rightarrow> Some ([], Inr i)
      | Some (Inr None) \<Rightarrow>
          if defaultSwitchRetries \<le> attempt then Some ([], Inl (wrap_sentinel ErrRejected))
          else (case cancelled of
                  Some x \<Rightarrow> Some ([delay], Inl x)
                | None \<Rightarrow> map_option (\<lambda>(ds, r). (delay # ds, r)) (helloFlow_loop (Suc attempt) (wrap64 (delay * 2)) tries)))"

definition helloFlow :: "switchLimits \<Rightarrow> hello_try list \<Rightarrow> (duration list \<times> (err + u64)) option" where
  "helloFlow l tries = helloFlow_loop 0 (l_RetryBase l) tries"

text \<open>\<open>dialEndpoint\<close>: the socket's dial, then the hello; the sockets it closed are in the result.\<close>

definition dialEndpoint :: "bool \<Rightarrow> switchLimits \<Rightarrow> err + nat \<Rightarrow> hello_try list \<Rightarrow> (nat list \<times> (err + nat \<times> u64)) option" where
  "dialEndpoint hello_first l dialled tries =
     (case dialled of
        Inl x \<Rightarrow> Some ([], Inl (NetworkError (Wrap ''dial'' [x])))
      | Inr sock \<Rightarrow>
          if \<not> hello_first then Some ([], Inr (sock, 0))
          else (case helloFlow l tries of
                  None \<Rightarrow> None
                | Some (_, Inl x) \<Rightarrow> Some ([sock], Inl x)
                | Some (_, Inr i) \<Rightarrow> Some ([], Inr (sock, i))))"

section \<open>The connection\<close>

record flowEndpoint =
  ep_sock :: nat
  ep_flowID :: u64
  ep_gen :: u64

text \<open>
  \<open>fp_spawned\<close> are the migrations started with \<open>go\<close>, \<open>fp_socks_closed\<close> the sockets closed,
  \<open>fp_clock\<close> is what \<open>c.now()\<close> gives; \<open>fp_cancel\<close> says that \<open>switchCancel\<close> is set.
\<close>

record flowConn =
  fp_edgeHello :: bool
  fp_limits :: switchLimits
  fp_cur :: flowEndpoint
  fp_closed :: bool
  fp_switching :: bool
  fp_pending :: bool
  fp_pendingCause :: SwitchReason
  fp_windowStart :: "instant option"
  fp_swallowSince :: "instant option"
  fp_lastSwitchAt :: "instant option"
  fp_cancel :: bool
  fp_lastRecvNs :: instant
  fp_lastWriteNs :: instant
  fp_swallowed :: u64
  fp_dead :: "err option"
  fp_stats :: flowCounters
  fp_clock :: instant
  fp_spawned :: "SwitchReason list"
  fp_socks_closed :: "nat list"

text \<open>
  The first dial resolves the address once, for the remote address of the connection, and runs under
  \<open>context.Background()\<close>: nothing cancels the waits of its hello.
\<close>

definition uncancelled :: "hello_try list \<Rightarrow> hello_try list" where
  "uncancelled tries = map (\<lambda>(wr, reply, _). (wr, reply, None)) tries"

definition newFlowPacketConn ::
  "bool \<Rightarrow> switchLimits \<Rightarrow> flowCounters \<Rightarrow> instant \<Rightarrow> err option \<Rightarrow> err + nat \<Rightarrow> hello_try list \<Rightarrow> (err + flowConn) option" where
  "newFlowPacketConn hello_first l stats now resolved dialled tries =
     (case (validate l, resolved) of
        (Some x, _) \<Rightarrow> Some (Inl x)
      | (None, Some x) \<Rightarrow> Some (Inl (NetworkError (Wrap ''resolve'' [x])))
      | (None, None) \<Rightarrow>
          (case dialEndpoint hello_first l dialled (uncancelled tries) of
             None \<Rightarrow> None
           | Some (_, Inl x) \<Rightarrow> Some (Inl x)
           | Some (_, Inr (sock, i)) \<Rightarrow>
               Some (Inr \<lparr>fp_edgeHello = hello_first, fp_limits = l, fp_cur = \<lparr>ep_sock = sock, ep_flowID = i, ep_gen = 1\<rparr>,
                 fp_closed = False, fp_switching = False, fp_pending = False, fp_pendingCause = [],
                 fp_windowStart = None, fp_swallowSince = None, fp_lastSwitchAt = None, fp_cancel = False,
                 fp_lastRecvNs = now, fp_lastWriteNs = now, fp_swallowed = 0, fp_dead = None, fp_stats = stats,
                 fp_clock = now, fp_spawned = [], fp_socks_closed = []\<rparr>)))"

definition newKCPFlowConn ::
  "options \<Rightarrow> flowCounters \<Rightarrow> instant \<Rightarrow> err option \<Rightarrow> err + nat \<Rightarrow> hello_try list \<Rightarrow> (err + flowConn) option" where
  "newKCPFlowConn o' stats now resolved dialled tries =
     newFlowPacketConn (d_edgeHello o') (limits_of o') stats now resolved dialled tries"

definition touchRecv :: "flowConn \<Rightarrow> flowConn" where "touchRecv c = c\<lparr>fp_lastRecvNs := fp_clock c\<rparr>"
definition touchWrite :: "flowConn \<Rightarrow> flowConn" where "touchWrite c = c\<lparr>fp_lastWriteNs := fp_clock c\<rparr>"

definition close_sock :: "nat \<Rightarrow> flowConn \<Rightarrow> flowConn" where
  "close_sock k c = c\<lparr>fp_socks_closed := k # fp_socks_closed c\<rparr>"

section \<open>Giving up (direct/netmigrate_dead.go)\<close>

definition FlowDeadReason :: "err \<Rightarrow> dead_reason option" where "FlowDeadReason x = as_flow_dead x"

definition deadErr :: "flowConn \<Rightarrow> err option" where "deadErr c = fp_dead c"

definition markDead :: "dead_reason \<Rightarrow> err option \<Rightarrow> flowConn \<Rightarrow> err option \<times> flowConn" where
  "markDead reason cause c =
     (let c = (if fp_dead c = None
               then c\<lparr>fp_dead := Some (FlowDeadError reason cause), fp_stats := noteDead reason (fp_stats c)\<rparr> else c)
      in (fp_dead c, c))"

definition noteSwallowed :: "err \<Rightarrow> flowConn \<Rightarrow> flowConn" where
  "noteSwallowed x c =
     (let c = c\<lparr>fp_stats := flow_noteSwallowed (fp_stats c), fp_swallowed := fp_swallowed c + 1\<rparr>;
          c = c\<lparr>fp_swallowSince := Some (case fp_swallowSince c of None \<Rightarrow> fp_clock c | Some t \<Rightarrow> t)\<rparr>
      in if fp_swallowed c > l_SwallowMax (fp_limits c)
            \<or> Sub_time (fp_clock c) (the (fp_swallowSince c)) > wrap64 (2 * l_Window (fp_limits c))
         then snd (markDead DeadSwallow (Some x) c) else c)"

section \<open>Switching (direct/netmigrate_switch.go)\<close>

text \<open>\<open>requestSwitch\<close> behind its first test, under \<open>switchMu\<close>.\<close>

definition request_locked :: "SwitchReason \<Rightarrow> flowConn \<Rightarrow> flowConn" where
  "request_locked reason c =
     (if fp_switching c then c\<lparr>fp_pending := True, fp_pendingCause := reason\<rparr>
      else if (case fp_lastSwitchAt c of None \<Rightarrow> False
               | Some t \<Rightarrow> Sub_time (fp_clock c) t < l_RetryBase (fp_limits c)) then c
      else c\<lparr>fp_switching := True, fp_pending := True, fp_pendingCause := reason,
             fp_windowStart := Some (fp_clock c), fp_cancel := True, fp_spawned := fp_spawned c @ [reason]\<rparr>)"

definition requestSwitch :: "SwitchReason \<Rightarrow> flowConn \<Rightarrow> flowConn" where
  "requestSwitch reason c = (if fp_closed c then c else request_locked reason c)"

definition checkTimers :: "flowConn \<Rightarrow> err option \<times> flowConn" where
  "checkTimers c =
     (let idle = Sub_time (fp_clock c) (fp_lastRecvNs c) in
      if idle > l_IdleDead (fp_limits c) then markDead DeadIdle None c
      else if idle > l_IdleSwitch (fp_limits c) \<and> Sub_time (fp_clock c) (fp_lastWriteNs c) \<le> l_IdleSwitch (fp_limits c)
      then (None, requestSwitch SwitchReadTimeout c)
      else (None, c))"

text \<open>The parts of \<open>migrate\<close>: a failed dial; the write switch point under \<open>mu\<close>; closing the old socket; the rest.\<close>

definition migrate_failed :: "err \<Rightarrow> flowConn \<Rightarrow> flowConn" where
  "migrate_failed x c = c\<lparr>fp_stats := noteSwitchFailure x (fp_stats c), fp_lastSwitchAt := Some (fp_clock c)\<rparr>"

definition migrate_install :: "nat \<Rightarrow> u64 \<Rightarrow> flowConn \<Rightarrow> flowEndpoint option \<times> flowConn" where
  "migrate_install sock flowID c =
     (if fp_closed c then (None, c)
      else
        let old = fp_cur c in
        (Some old, c\<lparr>fp_cur := \<lparr>ep_sock = sock, ep_flowID = flowID, ep_gen = ep_gen old + 1\<rparr>\<rparr>))"

definition migrate_record :: "instant \<Rightarrow> flowConn \<Rightarrow> flowConn" where
  "migrate_record start c =
     (let c = (touchRecv c)\<lparr>fp_swallowed := 0, fp_swallowSince := None, fp_lastSwitchAt := Some (fp_clock c)\<rparr>
      in c\<lparr>fp_stats := noteSwitch (Sub_time (fp_clock c) start) [] (fp_stats c)\<rparr>)"

text \<open>\<open>migrate\<close> with nobody else running; \<open>took\<close> is the time the dial and the hello take.\<close>

definition migrate :: "duration \<Rightarrow> err + nat \<Rightarrow> hello_try list \<Rightarrow> flowConn \<Rightarrow> (err option \<times> flowConn) option" where
  "migrate took dialled tries c =
     (let start = fp_clock c; c = c\<lparr>fp_clock := fp_clock c + took\<rparr> in
      case dialEndpoint (fp_edgeHello c) (fp_limits c) dialled tries of
        None \<Rightarrow> None
      | Some (closed, Inl x) \<Rightarrow> Some (Some x, migrate_failed x (fold close_sock closed c))
      | Some (_, Inr (sock, i)) \<Rightarrow>
          (case migrate_install sock i c of
             (None, c) \<Rightarrow> Some (Some (Sentinel ErrClosed), close_sock sock c)
           | (Some old, c) \<Rightarrow> Some (None, migrate_record start (close_sock (ep_sock old) c))))"

text \<open>The decision of \<open>switchLoop\<close> after a migration, under \<open>switchMu\<close>: the reason of the next one.\<close>

definition loop_decide :: "err option \<Rightarrow> flowConn \<Rightarrow> SwitchReason option \<times> flowConn" where
  "loop_decide r c =
     (let c = (if r = None then c\<lparr>fp_pending := False\<rparr> else c) in
      if \<not> fp_pending c \<or> fp_closed c then (None, c)
      else (Some (fp_pendingCause c), c\<lparr>fp_pending := False\<rparr>))"

definition finishSwitch :: "flowConn \<Rightarrow> flowConn" where
  "finishSwitch c = c\<lparr>fp_switching := False, fp_cancel := False\<rparr>"

text \<open>
  \<open>switchLoop\<close> with nobody else running: what each migration meets, with the error of an interrupted
  retry sleep. The number of migrations is returned; \<open>None\<close> while it would go on.
\<close>

fun switchLoop ::
  "(duration \<times> (err + nat) \<times> hello_try list \<times> err option) list \<Rightarrow> flowConn \<Rightarrow> (nat \<times> flowConn) option" where
  "switchLoop [] c = None"
| "switchLoop ((took, dialled, tries, cancelled) # later) c =
     (case migrate took dialled tries c of
        None \<Rightarrow> None
      | Some (r, c) \<Rightarrow>
          (case loop_decide r c of
             (None, c) \<Rightarrow> Some (1, finishSwitch c)
           | (Some _, c) \<Rightarrow>
               if cancelled \<noteq> None then Some (1, finishSwitch c)
               else map_option (\<lambda>(n, c). (Suc n, c))
                 (switchLoop later (c\<lparr>fp_clock := fp_clock c + l_RetryBase (fp_limits c)\<rparr>))))"

section \<open>Reading and writing (direct/netmigrate.go)\<close>

definition in_window :: "flowConn \<Rightarrow> bool" where
  "in_window c = (case fp_windowStart c of None \<Rightarrow> False | Some t \<Rightarrow> Sub_time (fp_clock c) t \<le> l_Window (fp_limits c))"

definition onWriteError :: "err \<Rightarrow> flowConn \<Rightarrow> bool \<times> flowConn" where
  "onWriteError x c =
     (let c = requestSwitch SwitchWriteError c in
      if \<not> in_window c then (False, c) else (True, noteSwallowed x c))"

text \<open>The datagram \<open>WriteTo\<close> hands to the socket of an endpoint.\<close>

definition write_datagram :: "flowEndpoint \<Rightarrow> bytes \<Rightarrow> bytes" where
  "write_datagram ep p = (if ep_flowID ep \<noteq> 0 then WrapFlowID (ep_flowID ep) p else p)"

text \<open>\<open>WriteTo\<close> up to its socket write: an error, or the endpoint to write to; and behind it.\<close>

definition write_begin :: "flowConn \<Rightarrow> err + flowEndpoint" where
  "write_begin c =
     (case deadErr c of
        Some x \<Rightarrow> Inl x
      | None \<Rightarrow> if fp_closed c then Inl (Sentinel ErrClosed) else Inr (fp_cur c))"

definition write_end :: "nat \<Rightarrow> err option \<Rightarrow> flowConn \<Rightarrow> (err + nat) \<times> flowConn" where
  "write_end len wr c =
     (case wr of
        None \<Rightarrow> (Inr len, touchWrite c)
      | Some x \<Rightarrow>
          if fp_closed c then (Inl (Sentinel ErrClosed), c)
          else (case onWriteError x c of (False, c) \<Rightarrow> (Inl x, c) | (True, c) \<Rightarrow> (Inr len, c)))"

definition WriteTo :: "bytes \<Rightarrow> err option \<Rightarrow> flowConn \<Rightarrow> (err + nat) \<times> flowConn" where
  "WriteTo p wr c =
     (case write_begin c of Inl x \<Rightarrow> (Inl x, c) | Inr ep \<Rightarrow> write_end (length p) wr c)"

text \<open>One turn of the loop of \<open>ReadFrom\<close>, from the result of the read on a snapshot; \<open>None\<close> in the result goes on.\<close>

definition read_turn :: "nat \<Rightarrow> flowEndpoint \<Rightarrow> err + bytes \<Rightarrow> flowConn \<Rightarrow> ((err + bytes) option \<times> flowConn) option" where
  "read_turn plen ep got c =
     (case got of
        Inl x \<Rightarrow>
          if fp_closed c then Some (Some (Inl (Sentinel ErrClosed)), c)
          else if fp_cur c \<noteq> ep then Some (None, c)
          else if isTimeout x then
            (case checkTimers c of (Some d, c) \<Rightarrow> Some (Some (Inl d), c) | (None, c) \<Rightarrow> Some (None, c))
          else Some (Some (Inl x), c)
      | Inr d \<Rightarrow>
          let d = take (max plen 2048) d; c = touchRecv c in
          if fp_closed c then Some (Some (Inl (Sentinel ErrClosed)), c)
          else if ep_flowID ep = 0 then Some (Some (Inr (take plen d)), c)
          else (case StripFlowID d (ep_flowID ep) of
                  None \<Rightarrow> None
                | Some (Inl _) \<Rightarrow> Some (None, c)
                | Some (Inr payload) \<Rightarrow> Some (Some (Inr (take plen payload)), c)))"

definition read_begin :: "flowConn \<Rightarrow> err + flowEndpoint" where
  "read_begin c =
     (case deadErr c of
        Some x \<Rightarrow> Inl x
      | None \<Rightarrow> if fp_closed c then Inl (Sentinel ErrClosed) else Inr (fp_cur c))"

text \<open>
  \<open>ReadFrom\<close> among the others: what they do to the connection while each read blocks, time and the switches
  its own timer starts included, and what the read gives. The first \<open>None\<close> is a panic, the second a loop
  that is still reading.
\<close>

fun ReadFrom :: "nat \<Rightarrow> ((flowConn \<Rightarrow> flowConn) \<times> (err + bytes)) list \<Rightarrow> flowConn \<Rightarrow> ((err + bytes) option \<times> flowConn) option" where
  "ReadFrom plen [] c = Some (case read_begin c of Inl x \<Rightarrow> Some (Inl x) | Inr _ \<Rightarrow> None, c)"
| "ReadFrom plen ((others, got) # later) c =
     (case read_begin c of
        Inl x \<Rightarrow> Some (Some (Inl x), c)
      | Inr ep \<Rightarrow>
          (case read_turn plen ep got (others c) of
             None \<Rightarrow> None
           | Some (Some r, c) \<Rightarrow> Some (Some r, c)
           | Some (None, c) \<Rightarrow> ReadFrom plen later c))"

section \<open>Closing\<close>

text \<open>\<open>Close\<close> behind \<open>closeOnce\<close>: the flag, reading the endpoint, cancelling the migration, closing the socket.\<close>

definition close_flag :: "flowConn \<Rightarrow> flowConn" where "close_flag c = c\<lparr>fp_closed := True\<rparr>"

definition flow_Close :: "flowConn \<Rightarrow> flowConn" where
  "flow_Close c =
     (if fp_closed c then c
      else let c = close_flag c; ep = fp_cur c in close_sock (ep_sock ep) c)"

section \<open>Watching the addresses (direct/netwatch.go)\<close>

fun join_bar :: "string list \<Rightarrow> string" where
  "join_bar [] = []"
| "join_bar [x] = x"
| "join_bar (x # xs) = x @ ''|'' @ join_bar xs"

definition localAddrSet :: "err + string list \<Rightarrow> string" where
  "localAddrSet addrs = (case addrs of Inl _ \<Rightarrow> [] | Inr items \<Rightarrow> join_bar (sort items))"

text \<open>One tick of \<open>run\<close>: the last set, and whether a change is waiting in the channel of capacity one.\<close>

definition poll_tick :: "err + string list \<Rightarrow> string \<times> bool \<Rightarrow> string \<times> bool" where
  "poll_tick addrs st =
     (let cur = localAddrSet addrs in if cur = fst st then st else (cur, True))"

end
