(* ===== verification/NetWatchdog.thy ===== *)
theory NetWatchdog
  imports NetMigrate
begin

text \<open>
  What the packet connection of a KCP session does by itself: the retries of a busy hello, the
  detection of a silent link, the budget of swallowed writes, the retries of a failed switch, the
  watching of the local addresses.
\<close>

section \<open>Busy hellos\<close>

lemma exchangeHello_total: "\<exists>r. exchangeHello wr reply = Some r"
proof (cases "\<exists>d. wr = None \<and> reply = Inr d \<and> length (take FlowIDLen d) = FlowIDLen")
  case True
  then obtain d where d: "wr = None" "reply = Inr d" "length (take FlowIDLen d) = FlowIDLen" by blast
  then obtain v where "uint64_be (take FlowIDLen d) = Some v" using uint_be_total(3) by (metis FlowIDLen_def order_refl)
  then show ?thesis using d by (simp add: exchangeHello_def Let_def del: length_take)
qed (auto simp: exchangeHello_def Let_def split: option.split sum.split)

lemma exchangeHello_replies [simp]:
  "exchangeHello None (Inr [0]) = Some (Inr None)"
  "exchangeHello None (Inr (put_uint64 i)) = Some (Inr (Some i))"
  by (simp_all add: exchangeHello_def FlowIDLen_def)

lemma helloFlow_loop_total:
  "4 \<le> length tries + a \<Longrightarrow> a \<le> 3 \<Longrightarrow> 0 < b \<Longrightarrow> b * 2 ^ (3 - a) < 2 ^ 63 \<Longrightarrow>
     \<exists>ds r. helloFlow_loop a b tries = Some (ds, r) \<and> length ds \<le> 3 - a \<and> (\<forall>i < length ds. ds ! i = b * 2 ^ i)"
proof (induction tries arbitrary: a b)
  case (Cons one tries)
  obtain wr reply cancelled where t: "one = (wr, reply, cancelled)" by (cases one)
  obtain res where res: "exchangeHello wr reply = Some res" using exchangeHello_total by blast
  show ?case
  proof (cases "res = Inr None \<and> a < 3 \<and> cancelled = None")
    case True
    have b2: "b * 2 < 2 ^ 63" "b * 2 * 2 ^ (3 - Suc a) = b * 2 ^ (3 - a)"
    proof -
      from True have "a < 3" by blast
      then have e: "3 - a = Suc (3 - Suc a)" by arith
      then show p: "b * 2 * 2 ^ (3 - Suc a) = b * 2 ^ (3 - a)" by simp
      have "b * 2 * 1 \<le> b * 2 * 2 ^ (3 - Suc a)" using Cons.prems(3) by (intro mult_left_mono) simp_all
      then have "b * 2 \<le> b * 2 ^ (3 - a)" unfolding p by simp
      then show "b * 2 < 2 ^ 63" using Cons.prems(4) by (rule order.strict_trans1)
    qed
    then have w: "wrap64 (b * 2) = b * 2" using Cons.prems(3) by (simp add: int64_def)
    have "4 \<le> length tries + Suc a" "Suc a \<le> 3" "0 < b * 2" using Cons.prems True by simp_all
    moreover have "b * 2 * 2 ^ (3 - Suc a) < 2 ^ 63" unfolding b2(2) by (rule Cons.prems(4))
    ultimately obtain ds r where "helloFlow_loop (Suc a) (b * 2) tries = Some (ds, r)"
        "length ds \<le> 3 - Suc a" "\<forall>i < length ds. ds ! i = b * 2 * 2 ^ i"
      using Cons.IH by blast
    then show ?thesis
      using True res w t by (auto simp: defaultSwitchRetries_def nth_Cons split: nat.split)
  next
    case False
    then show ?thesis
      using res Cons.prems t by (cases res) (auto simp: defaultSwitchRetries_def split: option.split)
  qed
qed simp

text \<open>
  A busy access layer is asked at most four times. Whatever the replies, the hello of a new socket
  is over after four exchanges, with at most three sleeps that start at the base and double; three
  busy replies and a flow id give that flow id, four busy replies a refusal.
\<close>

theorem hello_backoff:
  fixes b :: duration
  defines "busy \<equiv> (None, Inr [0], None)"
  assumes "l_RetryBase l = b" and "0 < b" and "b < 2 ^ 60" and "4 \<le> length tries"
  shows "(\<exists>ds r. helloFlow l tries = Some (ds, r) \<and> length ds \<le> 3 \<and> (\<forall>i < length ds. ds ! i = b * 2 ^ i))
    \<and> helloFlow l (replicate 3 busy @ (None, Inr (put_uint64 i), None) # later) = Some ([b, b * 2, b * 4], Inr i)
    \<and> (\<exists>x. helloFlow l (replicate 4 busy @ later) = Some ([b, b * 2, b * 4], Inl x) \<and> errors_is x ErrRejected)"
proof -
  have w: "wrap64 (b * 2) = b * 2" "wrap64 (b * 2 * 2) = b * 4" "wrap64 (b * 4) = b * 4" "wrap64 (b * 8) = b * 8"
    using assms(3,4) by (simp_all add: int64_def)
  show ?thesis
    using helloFlow_loop_total[of tries 0 b] assms(2-5) w
    by (simp add: helloFlow_def busy_def numeral_3_eq_3 numeral_eq_Suc defaultSwitchRetries_def wrap_sentinel_def)
qed

section \<open>A silent link\<close>

lemma Sub_time_id [simp]: "- (2 ^ 63) \<le> t - u \<Longrightarrow> t - u < 2 ^ 63 \<Longrightarrow> Sub_time t u = t - u"
  by (simp add: Sub_time_def)

lemma requestSwitch_same [simp]:
  "fp_cur (requestSwitch r c) = fp_cur c" "fp_closed (requestSwitch r c) = fp_closed c"
  "fp_dead (requestSwitch r c) = fp_dead c" "fp_limits (requestSwitch r c) = fp_limits c"
  "fp_clock (requestSwitch r c) = fp_clock c" "fp_lastRecvNs (requestSwitch r c) = fp_lastRecvNs c"
  "fp_swallowed (requestSwitch r c) = fp_swallowed c" "fp_stats (requestSwitch r c) = fp_stats c"
  "fp_swallowSince (requestSwitch r c) = fp_swallowSince c"
  by (auto simp: requestSwitch_def request_locked_def)

lemma readTick_bounds: "minReadTick \<le> readTick l \<and> readTick l \<le> maxReadTick"
  by (simp add: readTick_def minReadTick_def maxReadTick_def Let_def)

text \<open>
  One tick of the reader's timers, from its read on the current endpoint: alive up to the idle deadline, where
  it may ask for a switch, and dead beyond it.
\<close>

lemma read_tick:
  assumes "isTimeout x" and "\<not> fp_closed c" and "fp_cur c = ep" and "fp_clock c - fp_lastRecvNs c = idle"
    and "0 \<le> idle" and "idle < 2 ^ 63"
  shows "read_turn plen ep (Inl x) c =
    (if idle > l_IdleDead (fp_limits c)
     then Some (map_option Inl (fst (markDead DeadIdle None c)), snd (markDead DeadIdle None c))
     else Some (None, if idle > l_IdleSwitch (fp_limits c) \<and> Sub_time (fp_clock c) (fp_lastWriteNs c) \<le> l_IdleSwitch (fp_limits c)
                      then requestSwitch SwitchReadTimeout c else c))"
  using assms by (auto simp: read_turn_def checkTimers_def markDead_def Let_def)

section \<open>Swallowed writes\<close>

text \<open>A sequence of writes: the time since the last one, the packet, the socket's error.\<close>

fun write_all :: "(duration \<times> bytes \<times> err option) list \<Rightarrow> flowConn \<Rightarrow> (err + nat) list \<times> flowConn" where
  "write_all [] c = ([], c)"
| "write_all ((took, p, wr) # ws) c =
     (let (r, c) = WriteTo p wr (c\<lparr>fp_clock := fp_clock c + took\<rparr>); (rs, c) = write_all ws c in (r # rs, c))"

text \<open>How many failed writes were reported as successes.\<close>

fun lies :: "(duration \<times> bytes \<times> err option) list \<Rightarrow> (err + nat) list \<Rightarrow> nat" where
  "lies ((_, _, wr) # ws) (r # rs) = (if wr \<noteq> None \<and> \<not> isl r then 1 else 0) + lies ws rs"
| "lies _ _ = 0"

lemma write_all_step:
  "WriteTo p wr (c\<lparr>fp_clock := fp_clock c + took\<rparr>) = (r, d) \<Longrightarrow>
     write_all ((took, p, wr) # ws) c = (r # fst (write_all ws d), snd (write_all ws d))"
  by (simp add: case_prod_unfold Let_def)

lemma WriteTo_dead: "fp_dead c = Some x \<Longrightarrow> WriteTo p wr c = (Inl x, c)"
  by (simp add: WriteTo_def write_begin_def deadErr_def)

lemma WriteTo_same:
  "WriteTo p wr c = (r, d) \<Longrightarrow> fp_limits d = fp_limits c \<and> fp_closed d = fp_closed c \<and> fp_cur d = fp_cur c"
  by (auto simp: WriteTo_def write_begin_def write_end_def onWriteError_def noteSwallowed_def markDead_def touchWrite_def Let_def
      split: option.splits if_splits prod.splits)

lemma write_all_dead:
  "fp_dead c = Some x \<Longrightarrow> set (fst (write_all ws c)) \<subseteq> {Inl x} \<and> fp_dead (snd (write_all ws c)) = Some x
     \<and> fp_stats (snd (write_all ws c)) = fp_stats c \<and> lies ws (fst (write_all ws c)) = 0"
proof (induction ws arbitrary: c)
  case (Cons w ws)
  obtain took p wr where w: "w = (took, p, wr)" by (cases w)
  let ?c = "c\<lparr>fp_clock := fp_clock c + took\<rparr>"
  have "WriteTo p wr ?c = (Inl x, ?c)" using Cons.prems by (intro WriteTo_dead) simp
  then show ?case using Cons.IH[of ?c] Cons.prems by (auto simp: w split: prod.split)
qed simp

text \<open>One failing write: swallowed and counted, or the connection is dead with it.\<close>

lemma WriteTo_swallow:
  assumes "fp_dead c = None" and "WriteTo p (Some x) c = (Inr n, d)"
  shows "fp_swallowed d = fp_swallowed c + 1 \<and> (fp_dead d = None \<longrightarrow> fp_swallowed d \<le> l_SwallowMax (fp_limits c))
    \<and> (fp_dead d = None \<or> fp_dead d = Some (FlowDeadError DeadSwallow (Some x)))"
  using assms
  by (auto simp: WriteTo_def write_begin_def deadErr_def write_end_def onWriteError_def noteSwallowed_def markDead_def Let_def
      split: if_splits)

lemma WriteTo_quiet:
  assumes "fp_dead c = None" and "WriteTo p wr c = (r, d)" and "wr = None \<or> isl r"
  shows "fp_swallowed d = fp_swallowed c \<and> fp_dead d = None"
  using assms
  by (auto simp: WriteTo_def write_begin_def deadErr_def write_end_def onWriteError_def touchWrite_def Let_def
      split: option.splits if_splits prod.splits)

lemma lies_bound:
  "fp_swallowed c \<le> l_SwallowMax (fp_limits c) \<Longrightarrow> l_SwallowMax (fp_limits c) \<noteq> - 1 \<Longrightarrow> fp_dead c = None \<Longrightarrow>
     lies ws (fst (write_all ws c)) + unat (fp_swallowed c) \<le> unat (l_SwallowMax (fp_limits c)) + 1"
proof (induction ws arbitrary: c)
  case (Cons w ws)
  obtain took p wr where w: "w = (took, p, wr)" by (cases w)
  let ?c = "c\<lparr>fp_clock := fp_clock c + took\<rparr>" and ?max = "l_SwallowMax (fp_limits c)"
  obtain r d where r: "WriteTo p wr ?c = (r, d)" by fastforce
  have lim: "fp_limits d = fp_limits c" using WriteTo_same[OF r] by simp
  show ?case
  proof (cases "wr = None \<or> isl r")
    case True
    then have "fp_swallowed d = fp_swallowed c" "fp_dead d = None" using WriteTo_quiet[OF _ r] Cons.prems by auto
    then show ?thesis using Cons.IH[of d] Cons.prems True r lim by (auto simp: w split: prod.split)
  next
    case False
    then obtain x n where x: "wr = Some x" "r = Inr n" by (cases r) auto
    have d: "fp_swallowed d = fp_swallowed c + 1" "fp_dead d = None \<longrightarrow> fp_swallowed d \<le> ?max"
      using WriteTo_swallow[of ?c p x n d] r x Cons.prems by auto
    have "fp_swallowed c \<noteq> - 1" using Cons.prems(1,2) by (metis antisym word_order.extremum)
    then have u: "unat (fp_swallowed c + 1) = unat (fp_swallowed c) + 1"
      by (metis add.commute add_eq_0_iff unatSuc Suc_eq_plus1_left add.commute)
    show ?thesis
    proof (cases "fp_dead d")
      case None
      then show ?thesis using Cons.IH[of d] Cons.prems d u x r lim by (auto simp: w split: prod.split)
    next
      case (Some y)
      then show ?thesis
        using write_all_dead[OF Some, of ws] Cons.prems(1) x r by (auto simp: w word_le_nat_alt split: prod.split)
    qed
  qed
qed (simp add: word_le_nat_alt)

lemma write_all_dead_reason:
  "fp_dead c = None \<Longrightarrow> fp_dead (snd (write_all ws c)) = Some y \<Longrightarrow> FlowDeadReason y = Some DeadSwallow \<and> errors_is y ErrFlowDead"
proof (induction ws arbitrary: c)
  case (Cons w ws)
  obtain took p wr where w: "w = (took, p, wr)" by (cases w)
  let ?c = "c\<lparr>fp_clock := fp_clock c + took\<rparr>"
  obtain r d where r: "WriteTo p wr ?c = (r, d)" by fastforce
  show ?case
  proof (cases "fp_dead d")
    case None
    then show ?thesis using Cons.IH[of d] Cons.prems r by (simp add: w split: prod.splits)
  next
    case (Some z)
    have "\<not> (wr = None \<or> isl r)"
    proof
      assume "wr = None \<or> isl r"
      from WriteTo_quiet[OF _ r this] Cons.prems(1) Some show False by simp
    qed
    then have "wr \<noteq> None" "\<not> isl r" by simp_all
    then obtain x n where "wr = Some x" "r = Inr n" by (cases r; cases wr) auto
    then have "z = FlowDeadError DeadSwallow (Some x)" using WriteTo_swallow[of ?c p x n d] r Cons.prems(1) Some by auto
    moreover have "y = z" using Cons.prems(2) write_all_dead[OF Some, of ws] r by (simp add: w split: prod.splits)
    ultimately show ?thesis by (simp add: FlowDeadReason_def)
  qed
qed simp

text \<open>The counters of the connection: no death is counted twice, and none is missed.\<close>

lemma WriteTo_counts:
  "WriteTo p wr c = (r, d) \<Longrightarrow>
     fc_deadRebuilds (fp_stats d) = fc_deadRebuilds (fp_stats c) + (if fp_dead c = None \<and> fp_dead d \<noteq> None then 1 else 0)
     \<and> (fp_dead c = None \<and> fp_dead d \<noteq> None \<longrightarrow> fc_lastDeadReason (fp_stats d) = Some DeadSwallow)
     \<and> (fp_dead c \<noteq> None \<longrightarrow> d = c)"
  by (auto simp: WriteTo_def write_begin_def deadErr_def write_end_def onWriteError_def requestSwitch_def request_locked_def
      noteSwallowed_def markDead_def noteDead_def flow_noteSwallowed_def touchWrite_def Let_def
      split: option.splits if_splits prod.splits)

lemma write_all_counts:
  "fp_dead c = None \<Longrightarrow>
     fc_deadRebuilds (fp_stats (snd (write_all ws c))) = fc_deadRebuilds (fp_stats c) + (if fp_dead (snd (write_all ws c)) = None then 0 else 1)
     \<and> (fp_dead (snd (write_all ws c)) \<noteq> None \<longrightarrow> fc_lastDeadReason (fp_stats (snd (write_all ws c))) = Some DeadSwallow)"
proof (induction ws arbitrary: c)
  case (Cons w ws)
  obtain took p wr where w: "w = (took, p, wr)" by (cases w)
  obtain r d where r: "WriteTo p wr (c\<lparr>fp_clock := fp_clock c + took\<rparr>) = (r, d)" by fastforce
  show ?case
  proof (cases "fp_dead d")
    case None
    then show ?thesis using Cons.IH[OF None] WriteTo_counts[OF r] Cons.prems by (simp add: w write_all_step[OF r] del: write_all.simps)
  next
    case (Some y)
    then show ?thesis using write_all_dead[OF Some, of ws] WriteTo_counts[OF r] Cons.prems by (simp add: w write_all_step[OF r] del: write_all.simps)
  qed
qed simp

text \<open>In the middle of a burst of failing writes: \<open>k\<close> have been swallowed, the window opened at \<open>t\<close>.\<close>

definition bursting :: "instant \<Rightarrow> u64 \<Rightarrow> flowConn \<Rightarrow> bool" where
  "bursting t k c \<longleftrightarrow> fp_dead c = None \<and> \<not> fp_closed c \<and> fp_switching c \<and> fp_windowStart c = Some t
     \<and> fp_swallowSince c = Some t \<and> fp_swallowed c = k \<and> t \<le> fp_clock c"

lemma bursting_write:
  assumes "bursting t k c" and "0 \<le> took" and "fp_clock c + took \<le> t + l_Window (fp_limits c)" and "l_Window (fp_limits c) < 2 ^ 62"
    and "WriteTo p (Some x) (c\<lparr>fp_clock := fp_clock c + took\<rparr>) = (r, d)"
  shows "r = Inr (length p) \<and> fp_clock d = fp_clock c + took \<and> fp_limits d = fp_limits c
    \<and> (if k + 1 > l_SwallowMax (fp_limits c) then fp_dead d = Some (FlowDeadError DeadSwallow (Some x)) else bursting t (k + 1) d)"
proof -
  have b: "fp_dead c = None" "\<not> fp_closed c" "fp_switching c" "fp_windowStart c = Some t" "fp_swallowSince c = Some t"
      "fp_swallowed c = k" "t \<le> fp_clock c" using assms(1) by (simp_all add: bursting_def)
  have s: "Sub_time (fp_clock c + took) t = fp_clock c + took - t" using assms(2-4) b(7) by (subst Sub_time_id) auto
  have "0 \<le> l_Window (fp_limits c)" using assms(2,3) b(7) by linarith
  then have w: "wrap64 (2 * l_Window (fp_limits c)) = 2 * l_Window (fp_limits c)" using assms(4) by (simp add: int64_def)
  show ?thesis
    using assms b s w
    by (auto simp: WriteTo_def write_begin_def deadErr_def write_end_def onWriteError_def requestSwitch_def request_locked_def
        in_window_def noteSwallowed_def markDead_def bursting_def Let_def)
qed

lemma burst_dies:
  "bursting t k c \<Longrightarrow> list_all (\<lambda>(took, p, wr). wr \<noteq> None \<and> 0 \<le> took) ws \<Longrightarrow>
     fp_clock c + sum_list (map fst ws) \<le> t + l_Window (fp_limits c) \<Longrightarrow> l_Window (fp_limits c) < 2 ^ 62 \<Longrightarrow>
     unat (l_SwallowMax (fp_limits c)) < unat k + length ws \<Longrightarrow> k \<le> l_SwallowMax (fp_limits c) \<Longrightarrow>
     l_SwallowMax (fp_limits c) \<noteq> - 1 \<Longrightarrow> fp_dead (snd (write_all ws c)) \<noteq> None"
proof (induction ws arbitrary: c k)
  case (Cons w ws)
  obtain took p x where w: "w = (took, p, Some x)" "0 \<le> took" using Cons.prems(2) by (cases w) auto
  obtain r d where r: "WriteTo p (Some x) (c\<lparr>fp_clock := fp_clock c + took\<rparr>) = (r, d)" by fastforce
  have "list_all (\<lambda>(took, p, wr). wr \<noteq> None \<and> 0 \<le> took) ws" using Cons.prems(2) by simp
  then have "0 \<le> sum_list (map fst ws)" by (induction ws) auto
  then have time: "fp_clock c + took \<le> t + l_Window (fp_limits c)" using Cons.prems(3) by (simp add: w)
  note d = bursting_write[OF Cons.prems(1) w(2) time Cons.prems(4) r]
  show ?case
  proof (cases "k + 1 > l_SwallowMax (fp_limits c)")
    case True
    then have "fp_dead d = Some (FlowDeadError DeadSwallow (Some x))" using d by simp
    then show ?thesis using write_all_dead[of d _ ws] by (simp add: w write_all_step[OF r] del: write_all.simps)
  next
    case False
    have "k \<noteq> - 1" using Cons.prems(6,7) by (metis antisym word_order.extremum)
    then have u: "unat (k + 1) = unat k + 1" by (metis add.commute add_eq_0_iff unatSuc Suc_eq_plus1_left)
    have "fp_dead (snd (write_all ws d)) \<noteq> None"
      using d False Cons.prems u by (intro Cons.IH[of "k + 1" d]) (simp_all add: w)
    then show ?thesis by (simp add: w write_all_step[OF r] del: write_all.simps)
  qed
qed (simp add: word_le_nat_alt)


section \<open>Failed switches\<close>

lemma dialEndpoint_total:
  assumes "4 \<le> length tries" and "0 < l_RetryBase l" and "l_RetryBase l < 2 ^ 60"
  shows "\<exists>r. dialEndpoint h l dialled tries = Some r"
  using helloFlow_loop_total[of tries 0 "l_RetryBase l"] assms
  by (auto simp: dialEndpoint_def helloFlow_def split: sum.split)

lemma fold_close_sock:
  "fp_pending (fold close_sock ks c) = fp_pending c \<and> fp_closed (fold close_sock ks c) = fp_closed c
     \<and> fp_pendingCause (fold close_sock ks c) = fp_pendingCause c \<and> fp_limits (fold close_sock ks c) = fp_limits c
     \<and> fp_stats (fold close_sock ks c) = fp_stats c \<and> fp_cur (fold close_sock ks c) = fp_cur c"
  by (induction ks arbitrary: c) (auto simp: close_sock_def)

lemma migrate_total:
  assumes "4 \<le> length tries" and "0 < l_RetryBase (fp_limits c)" and "l_RetryBase (fp_limits c) < 2 ^ 60"
    and "\<not> fp_closed c"
  shows "\<exists>r d. migrate took dialled tries c = Some (r, d) \<and> fp_pending d = fp_pending c \<and> fp_closed d = fp_closed c
     \<and> fp_limits d = fp_limits c
     \<and> fc_switchFailures (fp_stats d) = fc_switchFailures (fp_stats c) + (if r = None then 0 else 1)
     \<and> ep_gen (fp_cur d) = ep_gen (fp_cur c) + (if r = None then 1 else 0)"
proof -
  let ?c = "c\<lparr>fp_clock := fp_clock c + took\<rparr>"
  obtain ks q where q: "dialEndpoint (fp_edgeHello c) (fp_limits c) dialled tries = Some (ks, q)"
    using dialEndpoint_total[OF assms(1-3)] by (metis surj_pair)
  show ?thesis
  proof (cases q)
    case (Inl x)
    then show ?thesis
      using q fold_close_sock[of ks ?c]
      by (intro exI[of _ "Some x"] exI[of _ "migrate_failed x (fold close_sock ks ?c)"])
        (simp_all add: migrate_def migrate_failed_def noteSwitchFailure_def Let_def)
  next
    case (Inr si)
    obtain sock i where si: "si = (sock, i)" by (cases si)
    define d where "d = ?c\<lparr>fp_cur := \<lparr>ep_sock = sock, ep_flowID = i, ep_gen = ep_gen (fp_cur c) + 1\<rparr>\<rparr>"
    show ?thesis
      using q assms(4) Inr si
      by (intro exI[of _ None] exI[of _ "migrate_record (fp_clock c) (close_sock (ep_sock (fp_cur c)) d)"])
        (simp_all add: migrate_def migrate_install_def migrate_record_def touchRecv_def close_sock_def noteSwitch_def d_def Let_def)
  qed
qed

text \<open>
  A request is served by at most two migrations. The loop ends whatever the network does; a
  migration that succeeds is the last, and one that fails is followed by exactly one more,
  although nobody asked again, because the request that started the loop set the pending mark too.
  Afterwards the connection can switch again, and every failure has been counted.
\<close>

theorem failed_switch_retried:
  assumes "\<not> fp_closed c" and "\<not> fp_switching c" and "fp_lastSwitchAt c = None" and "validate (fp_limits c) = None"
    and "l_RetryBase (fp_limits c) < 2 ^ 60" and "4 \<le> length tries" and "4 \<le> length tries'"
  shows "\<exists>n d. switchLoop [(took, dialled, tries, None), (took', dialled', tries', None)] (requestSwitch r c) = Some (n, d)
    \<and> \<not> fp_switching d
    \<and> (n = 1 \<longleftrightarrow> ep_gen (fp_cur d) = ep_gen (fp_cur c) + 1 \<and> fc_switchFailures (fp_stats d) = fc_switchFailures (fp_stats c))
    \<and> (n = 1 \<or> n = 2 \<and> fc_switchFailures (fp_stats d) = fc_switchFailures (fp_stats c) + (if ep_gen (fp_cur d) = ep_gen (fp_cur c) then 2 else 1))"
proof -
  let ?c = "requestSwitch r c"
  have lim: "0 < l_RetryBase (fp_limits c)" using assms(4) by (auto simp: validate_def split: if_splits)
  have c: "\<not> fp_closed ?c" "fp_pending ?c" "fp_limits ?c = fp_limits c" "fp_cur ?c = fp_cur c" "fp_stats ?c = fp_stats c"
    using assms(1-3) by (simp_all add: requestSwitch_def request_locked_def)
  obtain r1 d1 where d1: "migrate took dialled tries ?c = Some (r1, d1)" "fp_pending d1" "\<not> fp_closed d1"
      "fp_limits d1 = fp_limits c"
      "fc_switchFailures (fp_stats d1) = fc_switchFailures (fp_stats c) + (if r1 = None then 0 else 1)"
      "ep_gen (fp_cur d1) = ep_gen (fp_cur c) + (if r1 = None then 1 else 0)"
    using migrate_total[OF assms(6), of ?c took dialled] lim assms(5) c by auto
  show ?thesis
  proof (cases r1)
    case None
    then show ?thesis using d1 by (simp add: loop_decide_def finishSwitch_def)
  next
    case (Some x)
    let ?d = "d1\<lparr>fp_pending := False, fp_clock := fp_clock d1 + l_RetryBase (fp_limits d1)\<rparr>"
    obtain r2 d2 where d2: "migrate took' dialled' tries' ?d = Some (r2, d2)" "\<not> fp_pending d2"
        "fc_switchFailures (fp_stats d2) = fc_switchFailures (fp_stats d1) + (if r2 = None then 0 else 1)"
        "ep_gen (fp_cur d2) = ep_gen (fp_cur d1) + (if r2 = None then 1 else 0)"
      using migrate_total[OF assms(7), of ?d took' dialled'] lim assms(5) d1(3,4) by auto
    have "switchLoop [(took, dialled, tries, None), (took', dialled', tries', None)] ?c = Some (2, finishSwitch (if r2 = None then d2\<lparr>fp_pending := False\<rparr> else d2))"
      using d1 d2 Some by (simp add: loop_decide_def)
    then show ?thesis using d1 d2 Some by (auto simp: finishSwitch_def add.assoc)
  qed
qed

section \<open>Watching the addresses\<close>

lemma sort_mset: "mset xs = mset ys \<Longrightarrow> sort xs = sort (ys :: string list)"
  by (rule properties_for_sort) simp_all

lemma join_bar_Cons: "join_bar (x # xs) = x @ (if xs = [] then [] else CHR ''|'' # join_bar xs)"
  by (cases xs) simp_all

lemma bar_free_append:
  assumes "CHR ''|'' \<notin> set x" and "CHR ''|'' \<notin> set y" and "x @ r = y @ q"
    and "r = [] \<or> (\<exists>t. r = CHR ''|'' # t)" and "q = [] \<or> (\<exists>t. q = CHR ''|'' # t)"
  shows "x = y \<and> r = q"
proof -
  have "takeWhile (\<lambda>k. k \<noteq> CHR ''|'') (z @ t) = z" if "CHR ''|'' \<notin> set z" "t = [] \<or> (\<exists>u. t = CHR ''|'' # u)" for z t
    using that by (induction z) auto
  then have "x = y" using assms by metis
  then show ?thesis using assms(3) by simp
qed

lemma join_bar_inject:
  "\<forall>x \<in> set xs \<union> set ys. x \<noteq> [] \<and> CHR ''|'' \<notin> set x \<Longrightarrow> join_bar xs = join_bar ys \<Longrightarrow> xs = ys"
proof (induction xs arbitrary: ys)
  case Nil
  then show ?case by (cases ys) (auto simp: join_bar_Cons)
next
  case (Cons x xs)
  then obtain y zs where ys: "ys = y # zs" by (cases ys) (auto simp: join_bar_Cons)
  have "x = y \<and> (if xs = [] then [] else CHR ''|'' # join_bar xs) = (if zs = [] then [] else CHR ''|'' # join_bar zs)"
    using Cons.prems by (intro bar_free_append) (auto simp: ys join_bar_Cons)
  then show ?case using Cons.IH[of zs] Cons.prems(1) by (auto simp: ys split: if_splits)
qed

text \<open>
  A tick of the watcher signals exactly a change of the set of addresses, with their multiplicities
  and whatever their order, and remembers the new set; a waiting signal is never lost or doubled.
\<close>

theorem address_change:
  assumes "\<forall>a \<in> set old \<union> set new. a \<noteq> [] \<and> CHR ''|'' \<notin> set a"
  shows "poll_tick (Inr new) (localAddrSet (Inr old), w)
    = (localAddrSet (Inr new), w \<or> mset new \<noteq> mset old)"
proof -
  have "localAddrSet (Inr new) = localAddrSet (Inr old) \<longleftrightarrow> sort new = sort old"
    using join_bar_inject[of "sort new" "sort old"] assms by (auto simp: localAddrSet_def)
  also have "\<dots> \<longleftrightarrow> mset new = mset old" using sort_mset by (metis mset_sort)
  finally show ?thesis by (auto simp: poll_tick_def Let_def)
qed

theorem address_change_witness:
  "poll_tick (Inr [''10.0.0.2/24'', ''::1/128'']) (localAddrSet (Inr [''::1/128'', ''10.0.0.2/24'']), False)
     = (localAddrSet (Inr [''10.0.0.2/24'', ''::1/128'']), False)"
  using address_change[of "[''::1/128'', ''10.0.0.2/24'']" "[''10.0.0.2/24'', ''::1/128'']" False] by simp

section \<open>The default connection\<close>

text \<open>A connection with the default options on socket 7, whose hello was answered with flow id 42.\<close>

definition demo_conn :: flowConn where
  "demo_conn = projr (the (newKCPFlowConn defaultOptions new_flowCounters 0 None (Inr 7) [(None, Inr (put_uint64 42), None)]))"

lemma demo_conn_eqs [simp]:
  "fp_closed demo_conn = False" "fp_dead demo_conn = None" "fp_swallowed demo_conn = 0" "fp_switching demo_conn = False"
  "fp_lastSwitchAt demo_conn = None" "fp_swallowSince demo_conn = None" "fp_limits demo_conn = limits_of defaultOptions"
  "fp_clock demo_conn = 0" "fp_lastRecvNs demo_conn = 0" "fp_stats demo_conn = new_flowCounters" "fp_windowStart demo_conn = None"
  "fp_cur demo_conn = \<lparr>ep_sock = 7, ep_flowID = 42, ep_gen = 1\<rparr>" "fp_edgeHello demo_conn = True" "fp_spawned demo_conn = []"
  "fp_socks_closed demo_conn = []" "fp_pending demo_conn = False"
  by (simp_all add: demo_conn_def newKCPFlowConn_def newFlowPacketConn_def validate_def limits_of_def defaultOptions_def
      dialEndpoint_def helloFlow_def uncancelled_def)

lemma demo_limits [simp]:
  "validate (limits_of defaultOptions) = None" "l_Window (limits_of defaultOptions) = 500 * millisecond"
  "l_SwallowMax (limits_of defaultOptions) = 256" "l_RetryBase (limits_of defaultOptions) = 200 * millisecond"
  "l_IdleDead (limits_of defaultOptions) = 15 * second" "l_IdleSwitch (limits_of defaultOptions) = 3 * second"
  "readTick (limits_of defaultOptions) = second"
  by (simp_all add: limits_of_def defaultOptions_def validate_def readTick_def minReadTick_def maxReadTick_def trunc_div_def)

theorem hello_backoff_witness:
  "helloFlow (limits_of defaultOptions) [(None, Inr [0], None), (None, Inr [0], None), (None, Inr [0], None), (None, Inr (put_uint64 9), None)]
     = Some ([200 * millisecond, 400 * millisecond, 800 * millisecond], Inr 9)"
  using hello_backoff[of "limits_of defaultOptions" "200 * millisecond" "replicate 4 (None, Inr [0], None)" 9 "[]"]
  by (simp add: numeral_3_eq_3)


theorem failed_switch_retried_witness:
  "\<exists>n d. switchLoop [(0, Inl (Msg ''down''), replicate 4 (None, Inr [0], None), None),
                     (0, Inl (Msg ''down''), replicate 4 (None, Inr [0], None), None)]
      (requestSwitch SwitchNetworkEvent demo_conn) = Some (n, d) \<and> \<not> fp_switching d"
  using failed_switch_retried[of demo_conn "replicate 4 (None, Inr [0], None)" "replicate 4 (None, Inr [0], None)"
      0 "Inl (Msg ''down'')" 0 "Inl (Msg ''down'')" SwitchNetworkEvent]
  by auto

end
