(* ===== verification/NetSwitch.thy ===== *)
theory NetSwitch
  imports NetWatchdog
begin

text \<open>
  Switching a connection to another network while it is written to, read from and closed. The
  pieces of \<open>NetMigrate\<close> between two lock operations are the steps; requests for a switch, the
  migrations they start, writers, the reader and \<open>Close\<close> interleave in every order.
\<close>

section \<open>Goroutines\<close>

text \<open>
  A migration: at the top of \<open>switchLoop\<close>, dialling, in the hello with its new socket, with its
  flow id before the write switch point, refused there because the connection is closed, past
  it with the old socket still open, before its bookkeeping, with the result of \<open>migrate\<close>, in the
  retry sleep, before \<open>finishSwitch\<close>, gone.
\<close>

datatype mig =
    MTop | MDialing instant | MHello instant nat | MReady instant nat u64 | MRefused nat
  | MOld instant nat | MRecord instant | MResult "err option" | MSleep | MFinish | MGone

text \<open>\<open>Close\<close>: not called, past the flag, with the endpoint's socket, past the cancelling, done.\<close>

datatype closer = CIdle | CFlagged | CRead nat | CCancelled nat | CDone

text \<open>
  A call of \<open>WriteTo\<close>: before its socket write, failed and inside \<open>onWriteError\<close>, past the first test
  of \<open>requestSwitch\<close>, past \<open>requestSwitch\<close>, returned.
\<close>

datatype writer =
    WIdle | WAt flowEndpoint nat | WFailed nat err | WReq nat err | WAsked nat err | WReturned "err + nat"

text \<open>\<open>requests\<close> are the other calls of \<open>requestSwitch\<close> that are past its first test.\<close>

record nconf =
  fp :: flowConn
  migs :: "mig list"
  ncloser :: closer
  requests :: "SwitchReason list"
  writers :: "nat \<Rightarrow> writer"
  reader :: "flowEndpoint option"
  opened_socks :: "nat list"

datatype nact =
    Tick duration | ReqCheck SwitchReason | ReqLock SwitchReason
  | MBegin nat | MDialErr nat err | MDialOk nat nat | MHelloErr nat err | MHelloOk nat u64 | MInstall nat | MCloseNew nat
  | MCloseOld nat | MNote nat | MDecide nat | MWake nat bool | MEnd nat
  | CloseCall | CloseRead | CloseCancel | CloseSock
  | WSnap nat nat | WOk nat | WErr nat err | WCheck nat | WReqLock nat | WFinish nat
  | RSnap | RGot nat "err + bytes"

definition mig_at :: "nat \<Rightarrow> nconf \<Rightarrow> mig" where
  "mig_at i c = (if i < length (migs c) then migs c ! i else MGone)"

definition put_mig :: "nat \<Rightarrow> mig \<Rightarrow> flowConn \<Rightarrow> nconf \<Rightarrow> nconf" where
  "put_mig i m f c = c\<lparr>fp := f, migs := (migs c)[i := m]\<rparr>"

text \<open>A state with a new connection state, and a migration for each \<open>go switchLoop\<close> on the way.\<close>

definition put_fp :: "flowConn \<Rightarrow> nconf \<Rightarrow> nconf" where
  "put_fp f c = c\<lparr>fp := f, migs := migs c @ replicate (length (fp_spawned f) - length (fp_spawned (fp c))) MTop\<rparr>"

definition put_writer :: "nat \<Rightarrow> writer \<Rightarrow> nconf \<Rightarrow> nconf" where
  "put_writer i w c = c\<lparr>writers := (writers c)(i := w)\<rparr>"

section \<open>Steps\<close>

definition mig_do :: "nact \<Rightarrow> nconf \<Rightarrow> nconf option" where
  "mig_do a c =
     (let f = fp c in
      case a of
        MBegin i \<Rightarrow> (case mig_at i c of MTop \<Rightarrow> Some (put_mig i (MDialing (fp_clock f)) f c) | _ \<Rightarrow> None)
      | MDialErr i x \<Rightarrow>
          (case mig_at i c of
             MDialing start \<Rightarrow>
               let x = NetworkError (Wrap ''dial'' [x]) in Some (put_mig i (MResult (Some x)) (migrate_failed x f) c)
           | _ \<Rightarrow> None)
      | MDialOk i k \<Rightarrow>
          (case mig_at i c of
             MDialing start \<Rightarrow>
               if k \<in> set (opened_socks c) then None
               else Some (put_mig i (if fp_edgeHello f then MHello start k else MReady start k 0) f
                            (c\<lparr>opened_socks := k # opened_socks c\<rparr>))
           | _ \<Rightarrow> None)
      | MHelloErr i x \<Rightarrow>
          (case mig_at i c of
             MHello start k \<Rightarrow> Some (put_mig i (MResult (Some x)) (migrate_failed x (close_sock k f)) c) | _ \<Rightarrow> None)
      | MHelloOk i flowID \<Rightarrow>
          (case mig_at i c of MHello start k \<Rightarrow> Some (put_mig i (MReady start k flowID) f c) | _ \<Rightarrow> None)
      | MInstall i \<Rightarrow>
          (case mig_at i c of
             MReady start k flowID \<Rightarrow>
               (case migrate_install k flowID f of
                  (None, f) \<Rightarrow> Some (put_mig i (MRefused k) f c)
                | (Some old, f) \<Rightarrow> Some (put_mig i (MOld start (ep_sock old)) f c))
           | _ \<Rightarrow> None)
      | MCloseNew i \<Rightarrow>
          (case mig_at i c of
             MRefused k \<Rightarrow> Some (put_mig i (MResult (Some (Sentinel ErrClosed))) (close_sock k f) c) | _ \<Rightarrow> None)
      | MCloseOld i \<Rightarrow>
          (case mig_at i c of MOld start k \<Rightarrow> Some (put_mig i (MRecord start) (close_sock k f) c) | _ \<Rightarrow> None)
      | MNote i \<Rightarrow>
          (case mig_at i c of MRecord start \<Rightarrow> Some (put_mig i (MResult None) (migrate_record start f) c) | _ \<Rightarrow> None)
      | MDecide i \<Rightarrow>
          (case mig_at i c of
             MResult r \<Rightarrow>
               (case loop_decide r f of
                  (None, f) \<Rightarrow> Some (put_mig i MFinish f c)
                | (Some _, f) \<Rightarrow> Some (put_mig i (if r = None then MTop else MSleep) f c))
           | _ \<Rightarrow> None)
      | MWake i cancelled \<Rightarrow>
          (case mig_at i c of
             MSleep \<Rightarrow> if cancelled \<and> \<not> fp_closed f then None
                       else Some (put_mig i (if cancelled then MFinish else MTop) f c)
           | _ \<Rightarrow> None)
      | MEnd i \<Rightarrow> (case mig_at i c of MFinish \<Rightarrow> Some (put_mig i MGone (finishSwitch f) c) | _ \<Rightarrow> None)
      | _ \<Rightarrow> None)"

fun ndo :: "nact \<Rightarrow> nconf \<Rightarrow> nconf option" where
  "ndo (Tick dt) c = (if dt < 0 then None else Some (c\<lparr>fp := (fp c)\<lparr>fp_clock := fp_clock (fp c) + dt\<rparr>\<rparr>))"
| "ndo (ReqCheck r) c = (if fp_closed (fp c) then None else Some (c\<lparr>requests := r # requests c\<rparr>))"
| "ndo (ReqLock r) c =
     (if r \<notin> set (requests c) then None
      else Some (put_fp (request_locked r (fp c)) (c\<lparr>requests := remove1 r (requests c)\<rparr>)))"
| "ndo CloseCall c =
     (case ncloser c of CIdle \<Rightarrow> Some (c\<lparr>fp := close_flag (fp c), ncloser := CFlagged\<rparr>) | _ \<Rightarrow> None)"
| "ndo CloseRead c =
     (case ncloser c of CFlagged \<Rightarrow> Some (c\<lparr>ncloser := CRead (ep_sock (fp_cur (fp c)))\<rparr>) | _ \<Rightarrow> None)"
| "ndo CloseCancel c = (case ncloser c of CRead k \<Rightarrow> Some (c\<lparr>ncloser := CCancelled k\<rparr>) | _ \<Rightarrow> None)"
| "ndo CloseSock c =
     (case ncloser c of CCancelled k \<Rightarrow> Some (c\<lparr>fp := close_sock k (fp c), ncloser := CDone\<rparr>) | _ \<Rightarrow> None)"
| "ndo (WSnap i len) c =
     (if (case writers c i of WIdle \<Rightarrow> True | WReturned _ \<Rightarrow> True | _ \<Rightarrow> False)
      then Some (put_writer i (case write_begin (fp c) of Inl x \<Rightarrow> WReturned (Inl x) | Inr ep \<Rightarrow> WAt ep len) c)
      else None)"
| "ndo (WOk i) c =
     (case writers c i of
        WAt ep len \<Rightarrow>
          if ep_sock ep \<in> set (fp_socks_closed (fp c)) then None
          else Some (put_writer i (WReturned (Inr len)) (c\<lparr>fp := touchWrite (fp c)\<rparr>))
      | _ \<Rightarrow> None)"
| "ndo (WErr i x) c =
     (case writers c i of
        WAt ep len \<Rightarrow>
          Some (put_writer i (if fp_closed (fp c) then WReturned (Inl (Sentinel ErrClosed)) else WFailed len x) c)
      | _ \<Rightarrow> None)"
| "ndo (WCheck i) c =
     (case writers c i of
        WFailed len x \<Rightarrow> Some (put_writer i (if fp_closed (fp c) then WAsked len x else WReq len x) c) | _ \<Rightarrow> None)"
| "ndo (WReqLock i) c =
     (case writers c i of
        WReq len x \<Rightarrow> Some (put_writer i (WAsked len x) (put_fp (request_locked SwitchWriteError (fp c)) c)) | _ \<Rightarrow> None)"
| "ndo (WFinish i) c =
     (case writers c i of
        WAsked len x \<Rightarrow>
          Some (if in_window (fp c) then put_writer i (WReturned (Inr len)) (c\<lparr>fp := noteSwallowed x (fp c)\<rparr>)
                else put_writer i (WReturned (Inl x)) c)
      | _ \<Rightarrow> None)"
| "ndo RSnap c =
     (case (reader c, read_begin (fp c)) of (None, Inr ep) \<Rightarrow> Some (c\<lparr>reader := Some ep\<rparr>) | _ \<Rightarrow> None)"
| "ndo (RGot plen got) c =
     (case reader c of
        None \<Rightarrow> None
      | Some ep \<Rightarrow>
          (case read_turn plen ep got (fp c) of
             None \<Rightarrow> None
           | Some (_, f) \<Rightarrow> Some (put_fp f (c\<lparr>reader := None\<rparr>))))"
| "ndo a c = mig_do a c"

inductive nstep :: "nconf \<Rightarrow> nact \<Rightarrow> nconf \<Rightarrow> bool" where
  "ndo a c = Some d \<Longrightarrow> nstep c a d"

inductive_cases nstepE: "nstep c a d"

definition nstart :: "nconf \<Rightarrow> bool" where
  "nstart c \<longleftrightarrow>
     (\<exists>h l now resolved dialled tries f. newFlowPacketConn h l new_flowCounters now resolved dialled tries = Some (Inr f)
        \<and> c = \<lparr>fp = f, migs = [], ncloser = CIdle, requests = [], writers = (\<lambda>_. WIdle), reader = None,
               opened_socks = [ep_sock (fp_cur f)]\<rparr>)"

abbreviation nreach :: "nconf \<Rightarrow> bool" where "nreach \<equiv> reach nstart nstep"

section \<open>The invariant\<close>

text \<open>Sums over the migrations, and how one migration's step changes them.\<close>

definition weigh :: "(mig \<Rightarrow> 'a::cancel_comm_monoid_add) \<Rightarrow> nconf \<Rightarrow> 'a" where
  "weigh h c = sum_list (map h (migs c))"

lemma sum_list_put: "i < length xs \<Longrightarrow> sum_list (map h (xs[i := m])) + h (xs ! i) = sum_list (map h xs) + (h m :: 'a::cancel_comm_monoid_add)"
proof (induction xs arbitrary: i)
  case (Cons x xs)
  show ?case
  proof (cases i)
    case (Suc j)
    then show ?thesis using Cons.IH[of j] Cons.prems by (simp add: add.assoc)
  qed (simp add: add.commute add.left_commute)
qed simp

lemma weigh_put_mig: "mig_at i c \<noteq> MGone \<Longrightarrow> weigh h (put_mig i m f c) + h (mig_at i c) = weigh h c + h m"
  unfolding weigh_def put_mig_def mig_at_def using sum_list_put[of i "migs c" h m] by (simp split: if_splits)

lemma weigh_same [simp]:
  "weigh h (c\<lparr>fp := f\<rparr>) = weigh h c" "weigh h (c\<lparr>requests := rs\<rparr>) = weigh h c" "weigh h (c\<lparr>ncloser := k\<rparr>) = weigh h c"
  "weigh h (c\<lparr>reader := r\<rparr>) = weigh h c" "weigh h (put_writer i w c) = weigh h c" "weigh h (c\<lparr>opened_socks := os\<rparr>) = weigh h c"
  by (simp_all add: weigh_def put_writer_def)

fun held_of :: "mig \<Rightarrow> nat multiset" where
  "held_of (MHello _ k) = {#k#}" | "held_of (MReady _ k _) = {#k#}" | "held_of (MRefused k) = {#k#}"
| "held_of (MOld _ k) = {#k#}" | "held_of _ = {#}"

fun live_of :: "mig \<Rightarrow> nat" where "live_of MGone = 0" | "live_of _ = 1"

fun recording_of :: "mig \<Rightarrow> u64" where "recording_of (MOld _ _) = 1" | "recording_of (MRecord _) = 1" | "recording_of _ = 0"

text \<open>Every socket is held by one migration, or closed once, or current; one migration runs iff \<open>switching\<close> is set.\<close>

definition socks_inv :: "nconf \<Rightarrow> bool" where
  "socks_inv c \<longleftrightarrow>
     weigh held_of c + mset (fp_socks_closed (fp c)) + (if ncloser c = CDone then {#} else {#ep_sock (fp_cur (fp c))#})
       = mset (opened_socks c) \<and> distinct (opened_socks c)"

definition closer_inv :: "nconf \<Rightarrow> bool" where
  "closer_inv c \<longleftrightarrow> (fp_closed (fp c) \<longleftrightarrow> ncloser c \<noteq> CIdle)
     \<and> (\<forall>k. ncloser c = CRead k \<or> ncloser c = CCancelled k \<longrightarrow> k = ep_sock (fp_cur (fp c)))"

definition single_inv :: "nconf \<Rightarrow> bool" where
  "single_inv c \<longleftrightarrow> weigh live_of c = (if fp_switching (fp c) then 1 else 0)"

definition gen_inv :: "nconf \<Rightarrow> bool" where
  "gen_inv c \<longleftrightarrow> ep_gen (fp_cur (fp c)) = 1 + fc_switches (fp_stats (fp c)) + weigh recording_of c"

definition switch_inv :: "nconf \<Rightarrow> bool" where
  "switch_inv c \<longleftrightarrow> socks_inv c \<and> closer_inv c \<and> single_inv c \<and> gen_inv c"

text \<open>Operations that touch neither sockets nor the switch.\<close>

definition same_conn :: "flowConn \<Rightarrow> flowConn \<Rightarrow> bool" where
  "same_conn f g \<longleftrightarrow> fp_cur g = fp_cur f \<and> fp_closed g = fp_closed f \<and> fp_switching g = fp_switching f
     \<and> fp_socks_closed g = fp_socks_closed f \<and> fc_switches (fp_stats g) = fc_switches (fp_stats f) \<and> fp_spawned g = fp_spawned f"

lemma same_conn_inv:
  assumes "switch_inv c" and "same_conn (fp c) (fp d)" and "migs d = migs c" and "ncloser d = ncloser c" and "opened_socks d = opened_socks c"
  shows "switch_inv d"
  using assms
  by (cases "ncloser c = CDone")
    (simp_all add: switch_inv_def socks_inv_def closer_inv_def single_inv_def gen_inv_def same_conn_def weigh_def)

lemma same_conn_ops [simp]:
  "same_conn f (f\<lparr>fp_clock := t\<rparr>)" "same_conn f f" "same_conn f (touchWrite f)" "same_conn f (noteSwallowed x f)"
  "same_conn f (touchRecv f)" "same_conn f (snd (markDead r y f))"
  by (simp_all add: same_conn_def touchWrite_def touchRecv_def noteSwallowed_def markDead_def Let_def flow_noteSwallowed_def noteDead_def)

text \<open>A request changes nothing, or starts one migration when none runs.\<close>

definition asked :: "flowConn \<Rightarrow> flowConn \<Rightarrow> bool" where
  "asked f g \<longleftrightarrow> same_conn f g \<or>
     (\<not> fp_switching f \<and> fp_switching g \<and> fp_cur g = fp_cur f \<and> fp_closed g = fp_closed f
      \<and> fp_socks_closed g = fp_socks_closed f \<and> fp_stats g = fp_stats f \<and> (\<exists>r. fp_spawned g = fp_spawned f @ [r]))"

lemma request_asked: "asked f (request_locked r f)" "asked f (requestSwitch r f)"
  by (auto simp: asked_def request_locked_def requestSwitch_def same_conn_def split: option.split)

lemma asked_inv:
  assumes "switch_inv c" and "asked (fp c) f" and "migs d = migs (put_fp f c)" and "fp d = f"
    and "ncloser d = ncloser c" and "opened_socks d = opened_socks c"
  shows "switch_inv d"
proof (cases "same_conn (fp c) f")
  case True
  then show ?thesis using assms by (intro same_conn_inv[OF assms(1)]) (simp_all add: put_fp_def same_conn_def)
next
  case False
  then obtain r where "fp_spawned f = fp_spawned (fp c) @ [r]" "\<not> fp_switching (fp c)" "fp_switching f" "fp_cur f = fp_cur (fp c)"
      "fp_closed f = fp_closed (fp c)" "fp_socks_closed f = fp_socks_closed (fp c)" "fp_stats f = fp_stats (fp c)"
    using assms(2) by (auto simp: asked_def)
  then show ?thesis
    using assms(1,3-6)
    by (cases "ncloser c = CDone")
      (simp_all add: switch_inv_def socks_inv_def closer_inv_def single_inv_def gen_inv_def weigh_def put_fp_def)
qed

lemma put_mig_fields [simp]:
  "fp (put_mig i m f c) = f" "ncloser (put_mig i m f c) = ncloser c" "opened_socks (put_mig i m f c) = opened_socks c"
  by (simp_all add: put_mig_def)

lemma put_mig_opened: "weigh h (put_mig i m f (c\<lparr>opened_socks := os\<rparr>)) = weigh h (put_mig i m f c)"
  by (simp add: weigh_def put_mig_def)

text \<open>
  A migration's step keeps the invariant when the sockets it holds, closes, opens and makes
  current balance, and so do the generation and the count of switches.
\<close>

lemma mig_step_inv:
  assumes inv: "switch_inv c" and m: "mig_at i c \<noteq> MGone"
    and closed: "fp_closed f = fp_closed (fp c)" "fp_cur f = fp_cur (fp c) \<or> \<not> fp_closed f"
    and switching: "fp_switching f = (m' \<noteq> MGone \<and> fp_switching (fp c))"
    and fresh: "distinct new" "set new \<inter> set (opened_socks c) = {}"
    and socks: "held_of m' + mset (fp_socks_closed f) + {#ep_sock (fp_cur f)#}
        = held_of (mig_at i c) + mset (fp_socks_closed (fp c)) + {#ep_sock (fp_cur (fp c))#} + mset new"
    and gen: "ep_gen (fp_cur f) + fc_switches (fp_stats (fp c)) + recording_of (mig_at i c)
        = ep_gen (fp_cur (fp c)) + fc_switches (fp_stats f) + recording_of m'"
  shows "switch_inv (put_mig i m' f (c\<lparr>opened_socks := new @ opened_socks c\<rparr>))"
proof -
  let ?d = "put_mig i m' f c"
  have i: "socks_inv c" "closer_inv c" "single_inv c" "gen_inv c" using inv by (simp_all add: switch_inv_def)
  have cdone: "ncloser c = CDone \<Longrightarrow> fp_cur f = fp_cur (fp c)" using i(2) closed by (auto simp: closer_inv_def)
  have "weigh held_of ?d + held_of (mig_at i c) = weigh held_of c + held_of m'" by (rule weigh_put_mig[OF m])
  then have "weigh held_of ?d + mset (fp_socks_closed f) + {#ep_sock (fp_cur f)#} + held_of (mig_at i c)
      = weigh held_of c + (held_of m' + mset (fp_socks_closed f) + {#ep_sock (fp_cur f)#})"
    by (simp add: ac_simps)
  also have "\<dots> = weigh held_of c + mset (fp_socks_closed (fp c)) + {#ep_sock (fp_cur (fp c))#} + mset new + held_of (mig_at i c)"
    unfolding socks by (simp add: ac_simps)
  finally have "weigh held_of ?d + mset (fp_socks_closed f) + {#ep_sock (fp_cur f)#}
      = weigh held_of c + mset (fp_socks_closed (fp c)) + {#ep_sock (fp_cur (fp c))#} + mset new"
    by (rule add_right_imp_eq)
  then have "socks_inv (put_mig i m' f (c\<lparr>opened_socks := new @ opened_socks c\<rparr>))"
    using i(1) cdone fresh by (cases "ncloser c = CDone") (auto simp: socks_inv_def put_mig_opened)
  moreover have "closer_inv (put_mig i m' f (c\<lparr>opened_socks := new @ opened_socks c\<rparr>))"
    using i(2) closed by (auto simp: closer_inv_def)
  moreover have "weigh live_of ?d + live_of (mig_at i c) = weigh live_of c + live_of m'" by (rule weigh_put_mig[OF m])
  then have "single_inv (put_mig i m' f (c\<lparr>opened_socks := new @ opened_socks c\<rparr>))"
    using i(3) switching m
    by (cases "mig_at i c"; cases m') (auto simp: single_inv_def put_mig_opened split: if_splits)
  moreover have "gen_inv (put_mig i m' f (c\<lparr>opened_socks := new @ opened_socks c\<rparr>))"
  proof -
    have rec: "weigh recording_of ?d + recording_of (mig_at i c) = weigh recording_of c + recording_of m'"
      by (rule weigh_put_mig[OF m])
    have "ep_gen (fp_cur f) + recording_of (mig_at i c) = 1 + fc_switches (fp_stats f) + (weigh recording_of c + recording_of m')"
      using i(4) gen by (simp add: gen_inv_def algebra_simps)
    also have "\<dots> = (1 + fc_switches (fp_stats f) + weigh recording_of ?d) + recording_of (mig_at i c)"
      unfolding rec[symmetric] by (simp only: add.assoc)
    finally have "ep_gen (fp_cur f) = 1 + fc_switches (fp_stats f) + weigh recording_of ?d" by (rule add_right_imp_eq)
    then show ?thesis by (simp add: gen_inv_def put_mig_opened)
  qed
  ultimately show ?thesis by (simp add: switch_inv_def)
qed

lemmas mig_step_none = mig_step_inv[where new = "[]", simplified]

lemma opened_same: "c\<lparr>opened_socks := opened_socks c\<rparr> = c" by simp

lemma mig_do_inv:
  assumes inv: "switch_inv c" and step: "mig_do a c = Some d"
  shows "switch_inv d"
proof (cases a)
  case (MBegin i)
  then have "mig_at i c = MTop" "d = put_mig i (MDialing (fp_clock (fp c))) (fp c) c"
    using step by (auto simp: mig_do_def Let_def split: mig.splits)
  then show ?thesis using mig_step_none[OF inv, of i "fp c" "MDialing (fp_clock (fp c))"] by simp
next
  case (MDialErr i x)
  then obtain start x' where "mig_at i c = MDialing start" "d = put_mig i (MResult (Some x')) (migrate_failed x' (fp c)) c"
    using step by (auto simp: mig_do_def Let_def split: mig.splits)
  then show ?thesis
    using mig_step_none[OF inv, of i "migrate_failed x' (fp c)" "MResult (Some x')"]
    by (simp add: migrate_failed_def noteSwitchFailure_def)
next
  case (MDialOk i k)
  then obtain start where m: "mig_at i c = MDialing start" "k \<notin> set (opened_socks c)"
      "d = put_mig i (if fp_edgeHello (fp c) then MHello start k else MReady start k 0) (fp c) (c\<lparr>opened_socks := [k] @ opened_socks c\<rparr>)"
    using step by (auto simp: mig_do_def Let_def split: mig.splits if_splits)
  then show ?thesis unfolding m(3) by (intro mig_step_inv[OF inv]) auto
next
  case (MHelloErr i x)
  then obtain start k where "mig_at i c = MHello start k" "d = put_mig i (MResult (Some x)) (migrate_failed x (close_sock k (fp c))) c"
    using step by (auto simp: mig_do_def Let_def split: mig.splits)
  then show ?thesis
    using mig_step_none[OF inv, of i "migrate_failed x (close_sock k (fp c))" "MResult (Some x)"]
    by (simp add: migrate_failed_def noteSwitchFailure_def close_sock_def)
next
  case (MHelloOk i flowID)
  then obtain start k where "mig_at i c = MHello start k" "d = put_mig i (MReady start k flowID) (fp c) c"
    using step by (auto simp: mig_do_def Let_def split: mig.splits)
  then show ?thesis using mig_step_none[OF inv, of i "fp c" "MReady start k flowID"] by simp
next
  case (MInstall i)
  then obtain start k flowID where m: "mig_at i c = MReady start k flowID"
    and d: "(fp_closed (fp c) \<and> d = put_mig i (MRefused k) (fp c) c)
      \<or> (\<not> fp_closed (fp c) \<and> d = put_mig i (MOld start (ep_sock (fp_cur (fp c)))) (snd (migrate_install k flowID (fp c))) c)"
    using step by (auto simp: mig_do_def Let_def migrate_install_def split: mig.splits if_splits)
  then show ?thesis
    using mig_step_none[OF inv, of i "fp c" "MRefused k"]
      mig_step_none[OF inv, of i "snd (migrate_install k flowID (fp c))" "MOld start (ep_sock (fp_cur (fp c)))"]
    by (auto simp: migrate_install_def Let_def)
next
  case (MCloseNew i)
  then obtain k where "mig_at i c = MRefused k" "d = put_mig i (MResult (Some (Sentinel ErrClosed))) (close_sock k (fp c)) c"
    using step by (auto simp: mig_do_def Let_def split: mig.splits)
  then show ?thesis
    using mig_step_none[OF inv, of i "close_sock k (fp c)" "MResult (Some (Sentinel ErrClosed))"] by (simp add: close_sock_def)
next
  case (MCloseOld i)
  then obtain start k where "mig_at i c = MOld start k" "d = put_mig i (MRecord start) (close_sock k (fp c)) c"
    using step by (auto simp: mig_do_def Let_def split: mig.splits)
  then show ?thesis
    using mig_step_none[OF inv, of i "close_sock k (fp c)" "MRecord start"] by (simp add: close_sock_def)
next
  case (MNote i)
  then obtain start where "mig_at i c = MRecord start" "d = put_mig i (MResult None) (migrate_record start (fp c)) c"
    using step by (auto simp: mig_do_def Let_def split: mig.splits)
  then show ?thesis
    using mig_step_none[OF inv, of i "migrate_record start (fp c)" "MResult None"]
    by (simp add: migrate_record_def touchRecv_def noteSwitch_def Let_def)
next
  case (MDecide i)
  then obtain r where r: "mig_at i c = MResult r" using step by (auto simp: mig_do_def Let_def split: mig.splits)
  let ?m = "case fst (loop_decide r (fp c)) of None \<Rightarrow> MFinish | Some _ \<Rightarrow> if r = None then MTop else MSleep"
  have "d = put_mig i ?m (snd (loop_decide r (fp c))) c"
    using step MDecide r by (cases "loop_decide r (fp c)") (auto simp: mig_do_def Let_def split: option.splits)
  then show ?thesis
    using mig_step_none[OF inv, of i "snd (loop_decide r (fp c))" ?m] r
    by (auto simp: loop_decide_def Let_def split: if_splits)
next
  case (MWake i k)
  then obtain m where "mig_at i c = MSleep" "m \<in> {MFinish, MTop}" "d = put_mig i m (fp c) c"
    using step by (auto simp: mig_do_def Let_def split: mig.splits if_splits)
  then show ?thesis using mig_step_none[OF inv, of i "fp c" m] by auto
next
  case (MEnd i)
  then have "mig_at i c = MFinish" "d = put_mig i MGone (finishSwitch (fp c)) c"
    using step by (auto simp: mig_do_def Let_def split: mig.splits)
  then show ?thesis using mig_step_none[OF inv, of i "finishSwitch (fp c)" MGone] by (simp add: finishSwitch_def)
qed (use step in \<open>simp_all add: mig_do_def Let_def\<close>)

lemma asked_same: "same_conn f g \<Longrightarrow> asked f g" by (simp add: asked_def)

lemma read_turn_asked: "read_turn plen ep got f = Some (r, g) \<Longrightarrow> asked f g"
  by (auto simp: read_turn_def checkTimers_def Let_def intro: asked_same request_asked
      split: sum.splits if_splits option.splits prod.splits)
    (metis asked_same request_asked(2) same_conn_ops snd_conv)+

lemma put_writer_fields [simp]:
  "fp (put_writer i w c) = fp c" "ncloser (put_writer i w c) = ncloser c" "opened_socks (put_writer i w c) = opened_socks c"
  "migs (put_writer i w c) = migs c"
  by (simp_all add: put_writer_def)

lemma put_fp_fields [simp]:
  "fp (put_fp f c) = f" "ncloser (put_fp f c) = ncloser c" "opened_socks (put_fp f c) = opened_socks c"
  "migs (put_fp f (c\<lparr>requests := rs\<rparr>)) = migs (put_fp f c)" "migs (put_fp f (c\<lparr>reader := r\<rparr>)) = migs (put_fp f c)"
  by (simp_all add: put_fp_def)

lemma ndo_inv:
  assumes inv: "switch_inv c" and step: "ndo a c = Some d"
  shows "switch_inv d"
proof -
  have same: "\<lbrakk>same_conn (fp c) (fp d); migs d = migs c; ncloser d = ncloser c; opened_socks d = opened_socks c\<rbrakk> \<Longrightarrow> ?thesis"
    using same_conn_inv[OF inv] by blast
  have ask: "asked (fp c) (fp d) \<Longrightarrow> migs d = migs (put_fp (fp d) c) \<Longrightarrow> ncloser d = ncloser c
      \<Longrightarrow> opened_socks d = opened_socks c \<Longrightarrow> ?thesis"
    using asked_inv[OF inv] by blast
  show ?thesis
  proof (cases a)
    case (Tick dt)
    then show ?thesis using step by (intro same) (auto split: if_splits)
  next
    case (ReqCheck r)
    then show ?thesis using step by (intro same) (auto split: if_splits)
  next
    case (ReqLock r)
    then show ?thesis using step by (intro ask) (auto intro: request_asked split: if_splits)
  next
    case CloseCall
    then show ?thesis
      using step inv
      by (auto simp: close_flag_def switch_inv_def socks_inv_def closer_inv_def single_inv_def gen_inv_def weigh_def split: closer.splits)
  next
    case CloseRead
    then show ?thesis
      using step inv
      by (auto simp: switch_inv_def socks_inv_def closer_inv_def single_inv_def gen_inv_def weigh_def split: closer.splits)
  next
    case CloseCancel
    then show ?thesis
      using step inv
      by (auto simp: switch_inv_def socks_inv_def closer_inv_def single_inv_def gen_inv_def weigh_def split: closer.splits)
  next
    case CloseSock
    then show ?thesis
      using step inv
      by (auto simp: close_sock_def switch_inv_def socks_inv_def closer_inv_def single_inv_def gen_inv_def weigh_def split: closer.splits)
  next
    case (WSnap i len)
    then show ?thesis using step by (intro same) (auto split: if_splits)
  next
    case (WOk i)
    then show ?thesis using step by (intro same) (auto split: writer.splits if_splits)
  next
    case (WErr i x)
    then show ?thesis using step by (intro same) (auto split: writer.splits if_splits)
  next
    case (WCheck i)
    then show ?thesis using step by (intro same) (auto split: writer.splits if_splits)
  next
    case (WReqLock i)
    then show ?thesis using step by (intro ask) (auto intro: request_asked split: writer.splits)
  next
    case (WFinish i)
    then show ?thesis using step by (intro same) (auto split: writer.splits if_splits)
  next
    case RSnap
    then show ?thesis using step by (intro same) (auto split: option.splits sum.splits)
  next
    case (RGot plen got)
    then show ?thesis using step by (intro ask) (auto dest: read_turn_asked split: option.splits prod.splits)
  qed (use mig_do_inv[OF inv, of a d] step in simp_all)
qed

interpretation switching: inductive_invariant nstart nstep switch_inv
proof
  fix c assume "nstart c"
  then show "switch_inv c"
    by (auto simp: nstart_def switch_inv_def socks_inv_def closer_inv_def single_inv_def gen_inv_def weigh_def
        newFlowPacketConn_def new_flowCounters_def split: option.splits sum.splits prod.splits)
next
  fix c a d assume "switch_inv c" "nstep c a d"
  then show "switch_inv d" using ndo_inv by (auto elim: nstepE)
qed

section \<open>What holds in every interleaving\<close>

lemma weigh_gone: "\<forall>m \<in> set (migs c). m = MGone \<Longrightarrow> h MGone = 0 \<Longrightarrow> weigh h c = (0 :: 'a::cancel_comm_monoid_add)"
proof -
  have "sum_list (map h ms) = 0" if "\<forall>m \<in> set ms. m = MGone" "h MGone = 0" for ms
    using that by (induction ms) auto
  then show "\<forall>m \<in> set (migs c). m = MGone \<Longrightarrow> h MGone = 0 \<Longrightarrow> weigh h c = 0" by (simp add: weigh_def)
qed

lemma weigh_live: "weigh live_of c = length (filter (\<lambda>m. m \<noteq> MGone) (migs c))"
proof -
  have l: "live_of m = (if m = MGone then 0 else 1)" for m by (cases m) auto
  have "sum_list (map live_of ms) = length (filter (\<lambda>m. m \<noteq> MGone) ms)" for ms by (induction ms) (simp_all add: l)
  then show ?thesis by (simp add: weigh_def)
qed

text \<open>
  C5: No socket leaks and none is closed twice. In every interleaving of requests, migrations, writers,
  the reader and \<open>Close\<close>, the current socket is open until \<open>Close\<close>, and when \<open>Close\<close> is done and no
  migration is left, every socket ever opened has been closed exactly once, also one a migration
  opened while \<open>Close\<close> was running.
\<close>

theorem sockets_accounted:
  assumes "nreach c"
  shows "distinct (fp_socks_closed (fp c))
    \<and> (ncloser c = CIdle \<longrightarrow> ep_sock (fp_cur (fp c)) \<notin> set (fp_socks_closed (fp c)))
    \<and> (ncloser c = CDone \<and> (\<forall>m \<in> set (migs c). m = MGone) \<longrightarrow> set (fp_socks_closed (fp c)) = set (opened_socks c))"
proof -
  let ?cur = "if ncloser c = CDone then {#} else {#ep_sock (fp_cur (fp c))#}"
  have s: "weigh held_of c + mset (fp_socks_closed (fp c)) + ?cur = mset (opened_socks c)" "distinct (opened_socks c)"
    using switching.reach_inv[OF assms] by (simp_all add: switch_inv_def socks_inv_def)
  have once: "count (weigh held_of c + mset (fp_socks_closed (fp c)) + ?cur) k \<le> 1" for k
    unfolding s(1) using s(2) by (simp add: distinct_count_atmost_1)
  have "count (mset (fp_socks_closed (fp c))) k = (if k \<in> set (fp_socks_closed (fp c)) then 1 else 0)" for k
  proof (cases "k \<in> set (fp_socks_closed (fp c))")
    case True
    then have "0 < count (mset (fp_socks_closed (fp c))) k" by simp
    moreover have "count (mset (fp_socks_closed (fp c))) k \<le> 1" using once[of k] by simp
    ultimately have "count (mset (fp_socks_closed (fp c))) k = 1" by linarith
    then show ?thesis using True by simp
  qed (simp add: count_mset_0_iff)
  then have "distinct (fp_socks_closed (fp c))" unfolding distinct_count_atmost_1 by blast
  moreover have "ep_sock (fp_cur (fp c)) \<notin> set (fp_socks_closed (fp c))" if "ncloser c = CIdle"
  proof
    assume "ep_sock (fp_cur (fp c)) \<in> set (fp_socks_closed (fp c))"
    then have "0 < count (mset (fp_socks_closed (fp c))) (ep_sock (fp_cur (fp c)))" by simp
    then show False using once[of "ep_sock (fp_cur (fp c))"] that by simp
  qed
  moreover have "set (fp_socks_closed (fp c)) = set (opened_socks c)" if "ncloser c = CDone" "\<forall>m \<in> set (migs c). m = MGone"
    using s(1) weigh_gone[OF that(2), of held_of] that(1) by (intro mset_eq_setD) simp
  ultimately show ?thesis by blast
qed

text \<open>
  At most one migration runs, exactly when \<open>switching\<close> says so; and with none running the generation
  of the current endpoint is one more than the number of successful switches.
\<close>

theorem one_migration:
  "nreach c \<Longrightarrow> length (filter (\<lambda>m. m \<noteq> MGone) (migs c)) = (if fp_switching (fp c) then 1 else 0)
     \<and> ((\<forall>m \<in> set (migs c). m = MGone) \<longrightarrow> ep_gen (fp_cur (fp c)) = 1 + fc_switches (fp_stats (fp c)))"
  using switching.reach_inv[of c] weigh_live[of c] weigh_gone[of c recording_of]
  by (auto simp: switch_inv_def single_inv_def gen_inv_def)

section \<open>Schedules\<close>

lemma nreach_run: "nstart c \<Longrightarrow> run_steps (\<lambda>c a. ndo a c) c as = Some d \<Longrightarrow> nreach d"
  by (rule reach_run_steps[where f = "\<lambda>c a. ndo a c"]) (auto intro: nstep.intros reach.reach_start)

definition demo_net :: nconf where
  "demo_net = \<lparr>fp = demo_conn, migs = [], ncloser = CIdle, requests = [], writers = (\<lambda>_. WIdle), reader = None,
     opened_socks = [7]\<rparr>"

lemma demo_net_start: "nstart demo_net"
proof -
  have "newFlowPacketConn True (limits_of defaultOptions) new_flowCounters 0 None (Inr 7) [(None, Inr (put_uint64 42), None)]
      = Some (Inr demo_conn)"
    by (simp add: demo_conn_def newKCPFlowConn_def newFlowPacketConn_def dialEndpoint_def helloFlow_def uncancelled_def)
      (simp add: defaultOptions_def)
  then show ?thesis unfolding nstart_def demo_net_def by (intro exI conjI) auto
qed

text \<open>
  A network event starts a switch whose hello takes 600 milliseconds, longer than the default window but
  within the default hello timeout; a writer took the old endpoint before.
\<close>

definition slow_switch :: "nact list" where
  "slow_switch = [WSnap 0 1, ReqCheck SwitchNetworkEvent, ReqLock SwitchNetworkEvent, MBegin 0, MDialOk 0 8,
     Tick (600 * millisecond), MHelloOk 0 43, MInstall 0, MCloseOld 0, MNote 0, MDecide 0, MEnd 0]"

lemmas run_defs = mig_do_def mig_at_def put_mig_def put_fp_def put_writer_def Let_def write_begin_def deadErr_def
  request_locked_def migrate_install_def migrate_failed_def noteSwitchFailure_def close_sock_def migrate_record_def
  touchRecv_def noteSwitch_def loop_decide_def finishSwitch_def in_window_def close_flag_def demo_net_def

text \<open>
  C31: A write on an old endpoint can fail although the switch succeeded. Whenever a writer still holds an
  endpoint older than the current one, no migration runs, the window is over and the last switch ended less
  than the retry base ago, an error of its write, say that the old socket is closed, asks for no new
  switch and goes to the caller. \<open>WriteTo\<close> looks at the window and not, as the reader does, at the endpoint:
  a read that fails on the same old endpoint goes on with the new one.
\<close>

theorem stale_write_fails:
  assumes "writers b i = WAt ep len" and "ep_gen ep < ep_gen (fp_cur (fp b))" and "\<not> fp_closed (fp b)"
    and "\<not> fp_switching (fp b)" and "\<not> in_window (fp b)" and "fp_lastSwitchAt (fp b) = Some t"
    and "Sub_time (fp_clock (fp b)) t < l_RetryBase (fp_limits (fp b))"
  shows "(\<exists>d. run_steps (\<lambda>c a. ndo a c) b [WErr i x, WCheck i, WReqLock i, WFinish i] = Some d
      \<and> writers d i = WReturned (Inl x) \<and> fp d = fp b \<and> migs d = migs b)
    \<and> read_turn plen ep (Inl x) (fp b) = Some (None, fp b)"
proof -
  have "fp_cur (fp b) \<noteq> ep" using assms(2) by auto
  then show ?thesis
    using assms by (simp add: put_writer_def put_fp_def request_locked_def read_turn_def)
qed

theorem stale_write_fails_witness:
  "\<exists>b d ep. nreach b \<and> nreach d \<and> writers b 0 = WAt ep 1 \<and> ep_sock ep \<in> set (fp_socks_closed (fp b))
     \<and> ep_sock (fp_cur (fp b)) \<notin> set (fp_socks_closed (fp b)) \<and> fc_switches (fp_stats (fp b)) = 1
     \<and> fp_limits (fp b) = limits_of defaultOptions \<and> fp_dead (fp d) = None \<and> \<not> fp_closed (fp d)
     \<and> writers d 0 = WReturned (Inl (Msg ''use of closed network connection''))"
proof -
  let ?x = "Msg ''use of closed network connection''" and ?ep = "\<lparr>ep_sock = 7, ep_flowID = 42, ep_gen = 1\<rparr>"
  obtain b where b: "run_steps (\<lambda>c a. ndo a c) demo_net slow_switch = Some b"
      "writers b 0 = WAt ?ep 1" "ep_gen (fp_cur (fp b)) = 2" "\<not> fp_closed (fp b)" "\<not> fp_switching (fp b)"
      "fp_dead (fp b) = None" "\<not> in_window (fp b)" "fp_lastSwitchAt (fp b) = Some (600 * millisecond)"
      "fp_clock (fp b) = 600 * millisecond" "fp_limits (fp b) = limits_of defaultOptions"
      "fp_socks_closed (fp b) = [7]" "ep_sock (fp_cur (fp b)) = 8" "fc_switches (fp_stats (fp b)) = 1"
    by (simp add: slow_switch_def run_defs new_flowCounters_def)
  obtain d where d: "run_steps (\<lambda>c a. ndo a c) b [WErr 0 ?x, WCheck 0, WReqLock 0, WFinish 0] = Some d"
      "writers d 0 = WReturned (Inl ?x)" "fp d = fp b"
    using stale_write_fails[of b 0 ?ep 1 "600 * millisecond" ?x] b by auto
  have "run_steps (\<lambda>c a. ndo a c) demo_net (slow_switch @ [WErr 0 ?x, WCheck 0, WReqLock 0, WFinish 0]) = Some d"
    using b(1) d(1) by (simp add: run_steps_append)
  then show ?thesis
    using nreach_run[OF demo_net_start] b d by (intro exI[of _ b] exI[of _ d] exI[of _ ?ep]) auto
qed

section \<open>A silent link\<close>

text \<open>
  Steps that neither read nor close nor complete a switch: requests, migrations up to a failure, writers and time.
\<close>

fun silent :: "nact \<Rightarrow> bool" where
  "silent RSnap = False" | "silent (RGot _ _) = False" | "silent CloseCall = False" | "silent (MInstall _) = False"
| "silent (MNote _) = False" | "silent _ = True"

fun passes :: "nact \<Rightarrow> duration" where "passes (Tick dt) = dt" | "passes _ = 0"

text \<open>What silent steps leave alone; a connection they kill has swallowed too many writes.\<close>

definition quieter :: "nconf \<Rightarrow> nconf \<Rightarrow> bool" where
  "quieter c d \<longleftrightarrow> reader d = reader c \<and> fp_cur (fp d) = fp_cur (fp c) \<and> fp_closed (fp d) = fp_closed (fp c)
     \<and> fp_limits (fp d) = fp_limits (fp c) \<and> fp_lastRecvNs (fp d) = fp_lastRecvNs (fp c) \<and> fp_clock (fp c) \<le> fp_clock (fp d)
     \<and> (fp_dead (fp d) = fp_dead (fp c) \<or> (\<exists>x. fp_dead (fp c) = None \<and> fp_dead (fp d) = Some (FlowDeadError DeadSwallow (Some x))))"

lemma request_locked_same [simp]:
  "fp_cur (request_locked r f) = fp_cur f" "fp_closed (request_locked r f) = fp_closed f" "fp_dead (request_locked r f) = fp_dead f"
  "fp_limits (request_locked r f) = fp_limits f" "fp_clock (request_locked r f) = fp_clock f"
  "fp_lastRecvNs (request_locked r f) = fp_lastRecvNs f"
  by (simp_all add: request_locked_def)

lemma silent_mig:
  assumes "mig_do a c = Some d" and "silent a"
  shows "quieter c d \<and> fp_clock (fp d) = fp_clock (fp c)"
  using assms
  by (cases a)
    (auto simp: mig_do_def put_mig_def quieter_def migrate_failed_def close_sock_def loop_decide_def finishSwitch_def Let_def
      split: mig.splits if_splits option.splits prod.splits)

lemma silent_step:
  assumes "ndo a c = Some d" and "silent a"
  shows "quieter c d \<and> fp_clock (fp d) = fp_clock (fp c) + passes a"
proof (cases "mig_do a c")
  case None
  then show ?thesis
    using assms
    by (cases a)
      (auto simp: quieter_def put_fp_def put_writer_def close_sock_def touchWrite_def noteSwallowed_def markDead_def Let_def
        split: if_splits closer.splits writer.splits option.splits sum.splits)
next
  case (Some e)
  then have "ndo a c = mig_do a c \<and> passes a = 0" by (cases a) (simp_all add: mig_do_def Let_def)
  then show ?thesis using silent_mig[of a c d] assms by simp
qed

lemma quieter_trans: "quieter c d \<Longrightarrow> quieter d e \<Longrightarrow> quieter c e" by (auto simp: quieter_def)

lemma silent_run:
  "run_steps (\<lambda>c a. ndo a c) c as = Some d \<Longrightarrow> \<forall>a \<in> set as. silent a \<Longrightarrow>
     quieter c d \<and> fp_clock (fp d) = fp_clock (fp c) + sum_list (map passes as)"
proof (induction as arbitrary: c)
  case Nil
  then show ?case by (simp add: quieter_def)
next
  case (Cons a as)
  then obtain e where e: "ndo a c = Some e" "run_steps (\<lambda>c a. ndo a c) e as = Some d" by (auto split: option.splits)
  then show ?case
    using Cons.IH[OF e(2)] Cons.prems(2) silent_step[OF e(1)] quieter_trans[of c e d] by simp
qed

text \<open>
  Turns of the reader in which nothing arrives: it takes the endpoint, others do silent steps, and the read
  ends with a time-out.
\<close>

fun idle_turns :: "nat \<Rightarrow> (nact list \<times> err) list \<Rightarrow> nact list" where
  "idle_turns plen [] = []"
| "idle_turns plen ((as, x) # rs) = RSnap # as @ RGot plen (Inl x) # idle_turns plen rs"

definition idle_turn :: "switchLimits \<Rightarrow> nact list \<times> err \<Rightarrow> bool" where
  "idle_turn l = (\<lambda>(as, x). isTimeout x \<and> list_all silent as \<and> sum_list (map passes as) \<le> readTick l)"

text \<open>Between two turns of the reader, with the last datagram at \<open>t\<close>.\<close>

definition silent_since :: "instant \<Rightarrow> switchLimits \<Rightarrow> nconf \<Rightarrow> bool" where
  "silent_since t l c \<longleftrightarrow> reader c = None \<and> \<not> fp_closed (fp c) \<and> fp_limits (fp c) = l \<and> fp_lastRecvNs (fp c) = t
     \<and> t \<le> fp_clock (fp c) \<and> fp_clock (fp c) - t \<le> l_IdleDead l + readTick l
     \<and> (fp_dead (fp c) = None \<longrightarrow> fp_clock (fp c) - t \<le> l_IdleDead l)
     \<and> (\<forall>y. fp_dead (fp c) = Some y \<longrightarrow> y = FlowDeadError DeadIdle None \<and> l_IdleDead l < fp_clock (fp c) - t
            \<or> (\<exists>x. y = FlowDeadError DeadSwallow (Some x)))"

lemma silent_turn:
  assumes s: "silent_since t l c" and t: "idle_turn l (as, x)" and T: "l_IdleDead l < 2 ^ 62"
    and run: "run_steps (\<lambda>c a. ndo a c) c (RSnap # as) = Some e"
  shows "fp_dead (fp c) = None \<and> reader e = Some (fp_cur (fp e)) \<and> fp_limits (fp e) = l \<and> \<not> fp_closed (fp e)
    \<and> fp_lastRecvNs (fp e) = t \<and> t \<le> fp_clock (fp e) \<and> fp_clock (fp e) - t \<le> l_IdleDead l + readTick l
    \<and> (fp_dead (fp e) = None \<or> (\<exists>x. fp_dead (fp e) = Some (FlowDeadError DeadSwallow (Some x))))
    \<and> read_turn plen (fp_cur (fp e)) (Inl x) (fp e) =
        (if l_IdleDead l < fp_clock (fp e) - t
         then Some (map_option Inl (fst (markDead DeadIdle None (fp e))), snd (markDead DeadIdle None (fp e)))
         else Some (None, if l_IdleSwitch l < fp_clock (fp e) - t
                             \<and> Sub_time (fp_clock (fp e)) (fp_lastWriteNs (fp e)) \<le> l_IdleSwitch l
                          then requestSwitch SwitchReadTimeout (fp e) else fp e))"
proof -
  have dead: "fp_dead (fp c) = None" "run_steps (\<lambda>c a. ndo a c) (c\<lparr>reader := Some (fp_cur (fp c))\<rparr>) as = Some e"
    using run s by (auto simp: silent_since_def read_begin_def deadErr_def split: option.splits)
  have "quieter (c\<lparr>reader := Some (fp_cur (fp c))\<rparr>) e \<and> fp_clock (fp e) = fp_clock (fp c) + sum_list (map passes as)"
    using silent_run[OF dead(2)] t by (simp add: idle_turn_def list_all_iff)
  then have e: "reader e = Some (fp_cur (fp e))" "fp_limits (fp e) = l" "\<not> fp_closed (fp e)" "fp_lastRecvNs (fp e) = t"
      "t \<le> fp_clock (fp e)" "fp_clock (fp e) - t \<le> l_IdleDead l + readTick l"
      "fp_dead (fp e) = None \<or> (\<exists>x. fp_dead (fp e) = Some (FlowDeadError DeadSwallow (Some x)))"
    using s dead(1) t by (auto simp: quieter_def silent_since_def idle_turn_def)
  have "readTick l \<le> second" using readTick_bounds[of l] by (simp add: maxReadTick_def)
  then have "fp_clock (fp e) - t < 2 ^ 63" using e(6) T by simp
  then show ?thesis
    using dead(1) e read_tick[of x "fp e" "fp_cur (fp e)" "fp_clock (fp e) - t" plen] t by (simp add: idle_turn_def)
qed

lemma silent_turns:
  "silent_since t l c \<Longrightarrow> list_all (idle_turn l) rs \<Longrightarrow> l_IdleDead l < 2 ^ 62 \<Longrightarrow>
     run_steps (\<lambda>c a. ndo a c) c (idle_turns plen rs) = Some d \<Longrightarrow> silent_since t l d"
proof (induction rs arbitrary: c)
  case (Cons r rs)
  obtain as x where r: "r = (as, x)" by (cases r)
  have "idle_turns plen (r # rs) = (RSnap # as) @ RGot plen (Inl x) # idle_turns plen rs" by (simp add: r)
  then obtain e f where e: "run_steps (\<lambda>c a. ndo a c) c (RSnap # as) = Some e" "ndo (RGot plen (Inl x)) e = Some f"
      "run_steps (\<lambda>c a. ndo a c) f (idle_turns plen rs) = Some d"
    using Cons.prems(4) by (auto simp: run_steps_append simp del: idle_turns.simps split: option.splits)
  have "idle_turn l (as, x)" using Cons.prems(2) r by simp
  note turn = silent_turn[OF Cons.prems(1) this Cons.prems(3) e(1), where plen = plen]
  have "fp f = (if l_IdleDead l < fp_clock (fp e) - t then snd (markDead DeadIdle None (fp e))
      else if l_IdleSwitch l < fp_clock (fp e) - t \<and> Sub_time (fp_clock (fp e)) (fp_lastWriteNs (fp e)) \<le> l_IdleSwitch l
        then requestSwitch SwitchReadTimeout (fp e) else fp e)" "reader f = None"
    using e(2) turn by (auto simp: put_fp_def split: if_splits)
  then have "silent_since t l f" using turn by (auto simp: silent_since_def markDead_def Let_def)
  then show ?case using Cons.IH[OF _ _ Cons.prems(3) e(3)] Cons.prems(2) by simp
qed simp


text \<open>
  A link on which one packet is written and nothing arrives: after four seconds the reader starts a switch,
  whose two migrations fail; twelve seconds later the link is dead.
\<close>

definition failing_switch :: "nact list" where
  "failing_switch = [MBegin 0, MDialErr 0 (Msg ''down''), MDecide 0, MWake 0 False, MBegin 0, MDialErr 0 (Msg ''down''),
     MDecide 0, MEnd 0, Tick second]"

definition still :: "nact list \<times> err" where "still = ([Tick second], Sentinel NetTimeout)"

definition dead_air :: "(nact list \<times> err) list" where
  "dead_air = [still, ([WSnap 0 1, WOk 0, Tick second], Sentinel NetTimeout), still, still, (failing_switch, Sentinel NetTimeout),
     still, still, still, still, still, still, still, still, still, still, still]"


definition lost_signal :: "nact list" where
  "lost_signal = [ReqCheck SwitchNetworkEvent, ReqLock SwitchNetworkEvent,
     MBegin 0, MDialErr 0 (Msg ''down''), MDecide 0, MWake 0 False, MBegin 0, MDialErr 0 (Msg ''down''), MDecide 0,
     ReqCheck SwitchNetworkEvent, ReqLock SwitchNetworkEvent, MEnd 0]"

text \<open>Steps other than a request for a switch.\<close>

fun asks :: "nact \<Rightarrow> bool" where
  "asks (ReqLock _) = True" | "asks (WReqLock _) = True" | "asks (RGot _ _) = True" | "asks _ = False"

definition unasked_step :: "nconf \<Rightarrow> nact \<Rightarrow> nconf \<Rightarrow> bool" where
  "unasked_step c a d \<longleftrightarrow> nstep c a d \<and> \<not> asks a"

definition idle_on :: "flowEndpoint \<Rightarrow> nconf \<Rightarrow> bool" where
  "idle_on ep c \<longleftrightarrow> fp_cur (fp c) = ep \<and> (\<forall>m \<in> set (migs c). m = MGone)"

lemma idle_step:
  assumes "idle_on ep c" and "unasked_step c a d"
  shows "idle_on ep d"
proof -
  have gone: "mig_at i c = MGone" for i using assms(1) by (simp add: idle_on_def mig_at_def)
  then have none: "mig_do a c = None" by (cases a) (simp_all add: mig_do_def Let_def)
  have "ndo a c = Some d" "\<not> asks a" using assms(2) by (auto simp: unasked_step_def elim: nstepE)
  then show ?thesis
    using assms(1) none
    by (cases a) (auto simp: idle_on_def close_flag_def close_sock_def touchWrite_def noteSwallowed_def markDead_def Let_def
        split: if_splits closer.splits writer.splits option.splits sum.splits)
qed

lemma idle_reach: "reach (\<lambda>x. x = c) unasked_step d \<Longrightarrow> idle_on ep c \<Longrightarrow> idle_on ep d"
  by (induction rule: reach.induct) (auto intro: idle_step)

text \<open>
  A request can be lost. \<open>switchLoop\<close> gives up after two failures and lets go of the lock before
  \<open>finishSwitch\<close> takes it again; a network event in between finds \<open>switching\<close> set and only leaves its
  mark, which nobody reads. From then on the connection stays on its old endpoint until
  something else asks, with a request marked and no migration running.
\<close>

theorem switch_request_lost:
  "\<exists>c. nreach c \<and> fp_pending (fp c) \<and> \<not> fp_switching (fp c) \<and> \<not> fp_closed (fp c)
     \<and> (\<forall>d. reach (\<lambda>x. x = c) unasked_step d \<longrightarrow> fp_cur (fp d) = fp_cur (fp c) \<and> (\<forall>m \<in> set (migs d). m = MGone))"
proof -
  have "\<exists>d. run_steps (\<lambda>c a. ndo a c) demo_net lost_signal = Some d \<and> fp_pending (fp d) \<and> \<not> fp_switching (fp d)
      \<and> \<not> fp_closed (fp d) \<and> (\<forall>m \<in> set (migs d). m = MGone)"
    by (simp add: lost_signal_def run_defs)
  then obtain d where d: "nreach d" "fp_pending (fp d)" "\<not> fp_switching (fp d)" "\<not> fp_closed (fp d)" "idle_on (fp_cur (fp d)) d"
    using nreach_run[OF demo_net_start] unfolding idle_on_def by blast
  then show ?thesis using idle_reach[of d _ "fp_cur (fp d)"] unfolding idle_on_def by blast
qed

text \<open>A schedule in which \<open>Close\<close> runs while a migration is in its hello.\<close>

definition close_race :: "nact list" where
  "close_race = [ReqCheck SwitchNetworkEvent, ReqLock SwitchNetworkEvent, MBegin 0, MDialOk 0 8, CloseCall, CloseRead,
     MHelloOk 0 43, MInstall 0, CloseCancel, CloseSock, MCloseNew 0, MDecide 0, MEnd 0]"

theorem sockets_accounted_witness:
  "\<exists>c. nreach c \<and> ncloser c = CDone \<and> set (fp_socks_closed (fp c)) = {7, 8}"
proof -
  have "\<exists>d. run_steps (\<lambda>c a. ndo a c) demo_net close_race = Some d \<and> ncloser d = CDone \<and> (\<forall>m \<in> set (migs d). m = MGone)
      \<and> set (opened_socks d) = {7, 8}"
    by (simp add: close_race_def run_defs insert_commute)
  then obtain d where d: "nreach d" "ncloser d = CDone" "\<forall>m \<in> set (migs d). m = MGone" "set (opened_socks d) = {7, 8}"
    using nreach_run[OF demo_net_start] by blast
  then show ?thesis using sockets_accounted[OF d(1)] by auto
qed

theorem one_migration_witness:
  "\<exists>c. nreach c \<and> ep_gen (fp_cur (fp c)) = 1 + fc_switches (fp_stats (fp c))"
  using one_migration[OF reach.reach_start[of nstart demo_net nstep, OF demo_net_start]]
    reach.reach_start[of nstart demo_net nstep, OF demo_net_start]
  by (intro exI[of _ demo_net]) (simp add: demo_net_def)

end
