(* ===== verification/Facade.thy ===== *)
theory Facade
  imports Teardown Notify
begin

text \<open>
  The client a program holds (\<open>client/client.go\<close>): one or two channels by role, the default
  channel, and views of single channels. A channel is a pointer in the code, so that the default
  channel, the table of roles and every view name the same object; here it is a number into a store.
\<close>

section \<open>Names\<close>

text \<open>\<open>fmt\<close>'s decimal rendering of the number of an unknown role or transport is a parameter.\<close>

definition Kind_String :: "(int \<Rightarrow> string) \<Rightarrow> Kind \<Rightarrow> string" where
  "Kind_String dec k =
     (if k = KindBusiness then ''business'' else if k = KindBattle then ''battle'' else ''kind('' @ dec k @ '')'')"

definition Transport_String :: "(int \<Rightarrow> string) \<Rightarrow> Transport \<Rightarrow> string" where
  "Transport_String dec t =
     (if t = TransportWS then ''ws'' else if t = TransportKCP then ''kcp'' else if t = TransportUDP then ''udp''
      else ''transport('' @ dec t @ '')'')"

section \<open>Clients and views\<close>

text \<open>A channel object: its state, its subscriptions, its read-exit callback.\<close>

record member =
  m_ch :: channel
  m_nt :: notify_table
  m_exit :: "nat option"

record facade =
  fa_client :: Client
  fa_store :: "nat \<Rightarrow> member"

text \<open>\<open>ChannelView\<close>: \<open>None\<close> is the nil view, whose methods are safe.\<close>

type_synonym ChannelView = "nat option"

definition on_member :: "nat \<Rightarrow> (member \<Rightarrow> 'r \<times> member) \<Rightarrow> facade \<Rightarrow> 'r \<times> facade" where
  "on_member i f c = (case f (fa_store c i) of (r, m) \<Rightarrow> (r, c\<lparr>fa_store := (fa_store c)(i := m)\<rparr>))"

definition member_invoke ::
  "env \<Rightarrow> ctx \<Rightarrow> string \<Rightarrow> nat option \<Rightarrow> bool \<Rightarrow> invokeOpts \<Rightarrow> member \<Rightarrow> invoked \<times> member" where
  "member_invoke e cx op req resp o' m =
     (case invoke e cx op req resp o' (m_ch m) of (r, ch) \<Rightarrow> (r, m\<lparr>m_ch := ch\<rparr>))"

definition member_on :: "bytes \<Rightarrow> handler option \<Rightarrow> member \<Rightarrow> off \<times> member" where
  "member_on op h m = (case on op h (m_nt m) of (off, nt) \<Rightarrow> (off, m\<lparr>m_nt := nt\<rparr>))"

definition member_onAny :: "handler option \<Rightarrow> member \<Rightarrow> off \<times> member" where
  "member_onAny h m = (case onAny h (m_nt m) of (off, nt) \<Rightarrow> (off, m\<lparr>m_nt := nt\<rparr>))"

definition onReadExit :: "nat option \<Rightarrow> member \<Rightarrow> member" where
  "onReadExit fn m = (case fn of None \<Rightarrow> m | Some f \<Rightarrow> m\<lparr>m_exit := Some f\<rparr>)"

text \<open>The methods of the client work on the default channel, which every client a dial returns has
  (\<open>client_wf\<close>); \<open>None\<close> is a client without one.\<close>

definition on_business :: "(member \<Rightarrow> 'r \<times> member) \<Rightarrow> facade \<Rightarrow> ('r \<times> facade) option" where
  "on_business f c = (case business (fa_client c) of None \<Rightarrow> None | Some (i, _) \<Rightarrow> Some (on_member i f c))"

definition Client_Invoke ::
  "env \<Rightarrow> ctx \<Rightarrow> string \<Rightarrow> nat option \<Rightarrow> bool \<Rightarrow> invokeOpts \<Rightarrow> facade \<Rightarrow> (invoked \<times> facade) option" where
  "Client_Invoke e cx op req resp o' c = on_business (member_invoke e cx op req resp o') c"

definition Client_On :: "bytes \<Rightarrow> handler option \<Rightarrow> facade \<Rightarrow> (off \<times> facade) option" where
  "Client_On op h c = on_business (member_on op h) c"

definition Client_OnAny :: "handler option \<Rightarrow> facade \<Rightarrow> (off \<times> facade) option" where
  "Client_OnAny h c = on_business (member_onAny h) c"

definition Client_OnReadExit :: "nat option \<Rightarrow> facade \<Rightarrow> (unit \<times> facade) option" where
  "Client_OnReadExit fn c = on_business (\<lambda>m. ((), onReadExit fn m)) c"

definition Client_Channel :: "Kind \<Rightarrow> facade \<Rightarrow> ChannelView" where
  "Client_Channel kind c = map_option fst (map_of (channels (fa_client c)) kind)"

definition members :: "facade \<Rightarrow> nat list" where
  "members c = map (\<lambda>(k, ch). fst ch) (channels (fa_client c))"

definition Client_state :: "facade \<Rightarrow> State" where
  "Client_state c = Client_State (map (\<lambda>i. ch_state (m_ch (fa_store c i))) (members c))"

text \<open>Go visits a map in any order; the channels are independent objects, here in the order of dialling.\<close>

definition close_member :: "member \<Rightarrow> unit \<times> member" where
  "close_member m = ((), m\<lparr>m_ch := Close (m_ch m)\<rparr>)"

definition Client_Close :: "facade \<Rightarrow> facade" where
  "Client_Close c = fold (\<lambda>i c. snd (on_member i close_member c)) (members c) c"

definition View_Invoke ::
  "env \<Rightarrow> ctx \<Rightarrow> string \<Rightarrow> nat option \<Rightarrow> bool \<Rightarrow> invokeOpts \<Rightarrow> ChannelView \<Rightarrow> facade \<Rightarrow> invoked \<times> facade" where
  "View_Invoke e cx op req resp o' v c =
     (case v of
        None \<Rightarrow> (Sent (Failed (NewNetworkError (Msg ''unknown channel''))), c)
      | Some i \<Rightarrow> on_member i (member_invoke e cx op req resp o') c)"

definition View_On :: "bytes \<Rightarrow> handler option \<Rightarrow> ChannelView \<Rightarrow> facade \<Rightarrow> off \<times> facade" where
  "View_On op h v c = (case v of None \<Rightarrow> (OffNothing, c) | Some i \<Rightarrow> on_member i (member_on op h) c)"

definition View_State :: "ChannelView \<Rightarrow> facade \<Rightarrow> State" where
  "View_State v c = (case v of None \<Rightarrow> StateDisconnected | Some i \<Rightarrow> ch_state (m_ch (fa_store c i)))"

definition View_Kind :: "ChannelView \<Rightarrow> facade \<Rightarrow> Kind" where
  "View_Kind v c = (case v of None \<Rightarrow> KindBusiness | Some i \<Rightarrow> c_kind (prm (m_ch (fa_store c i))))"

definition View_OnReadExit :: "nat option \<Rightarrow> ChannelView \<Rightarrow> facade \<Rightarrow> unit \<times> facade" where
  "View_OnReadExit fn v c = (case v of None \<Rightarrow> ((), c) | Some i \<Rightarrow> on_member i (\<lambda>m. ((), onReadExit fn m)) c)"

text \<open>The client that a dial returns.\<close>

definition new_facade :: "Client \<Rightarrow> facade" where
  "new_facade cl = \<lparr>fa_client = cl,
     fa_store = (\<lambda>i. \<lparr>m_ch = new_channel (the (map_of (map snd (channels cl)) i)), m_nt = empty_table, m_exit = None\<rparr>)\<rparr>"

section \<open>One object behind every name\<close>

lemma on_member_fields [simp]:
  "fa_client (snd (on_member i f c)) = fa_client c"
  "fa_store (snd (on_member i f c)) j = (if j = i then snd (f (fa_store c i)) else fa_store c j)"
  "fst (on_member i f c) = fst (f (fa_store c i))"
  by (simp_all add: on_member_def split: prod.split)

lemma snd_close_member: "snd (close_member m) = m\<lparr>m_ch := Close (m_ch m)\<rparr>" by (simp add: close_member_def)

lemma close_store:
  "distinct is \<Longrightarrow> fa_client (fold (\<lambda>i c. snd (on_member i close_member c)) is c) = fa_client c
   \<and> fa_store (fold (\<lambda>i c. snd (on_member i close_member c)) is c) j
     = (if j \<in> set is then (fa_store c j)\<lparr>m_ch := Close (m_ch (fa_store c j))\<rparr> else fa_store c j)"
proof (induction "is" arbitrary: c)
  case (Cons i js)
  let ?d = "snd (on_member i close_member c)"
  show ?case using Cons.IH[of ?d] Cons.prems by (auto simp: snd_close_member)
qed simp

lemma members_wf: "client_wf n (fa_client c) \<Longrightarrow> members c = [0..<n]"
  by (simp add: members_def client_wf_def)

lemma Client_Close_store:
  assumes "client_wf n (fa_client c)"
  shows "fa_client (Client_Close c) = fa_client c"
    and "fa_store (Client_Close c) j = (if j < n then (fa_store c j)\<lparr>m_ch := Close (m_ch (fa_store c j))\<rparr> else fa_store c j)"
  using close_store[of "[0..<n]" c j] members_wf[OF assms] by (simp_all add: Client_Close_def)

section \<open>A client is its channels\<close>

text \<open>
  What a program does with a client: calls on it or on a view, closing it; \<open>Inside\<close> is anything that the
  goroutines of one channel do meanwhile, an \<open>off\<close> returned earlier included.
\<close>

datatype mop =
    MInvoke env ctx string "nat option" bool invokeOpts | MOn bytes "handler option" | MOnAny "handler option" | MReadExit "nat option"

datatype mres = RInvoked invoked | ROff off | RDone

datatype fact = OnClient mop | OnView ChannelView mop | OnClose | Inside nat "member \<Rightarrow> member"

fun client_do :: "mop \<Rightarrow> facade \<Rightarrow> (mres \<times> facade) option" where
  "client_do (MInvoke e cx op req resp o') c = map_option (map_prod RInvoked id) (Client_Invoke e cx op req resp o' c)"
| "client_do (MOn op h) c = map_option (map_prod ROff id) (Client_On op h c)"
| "client_do (MOnAny h) c = map_option (map_prod ROff id) (Client_OnAny h c)"
| "client_do (MReadExit fn) c = map_option (map_prod (\<lambda>_. RDone) id) (Client_OnReadExit fn c)"

text \<open>A view has no \<open>OnAny\<close>.\<close>

fun view_do :: "mop \<Rightarrow> ChannelView \<Rightarrow> facade \<Rightarrow> (mres \<times> facade) option" where
  "view_do (MInvoke e cx op req resp o') v c = Some (map_prod RInvoked id (View_Invoke e cx op req resp o' v c))"
| "view_do (MOn op h) v c = Some (map_prod ROff id (View_On op h v c))"
| "view_do (MOnAny h) v c = None"
| "view_do (MReadExit fn) v c = Some (map_prod (\<lambda>_. RDone) id (View_OnReadExit fn v c))"

fun facade_do :: "fact \<Rightarrow> facade \<Rightarrow> (mres \<times> facade) option" where
  "facade_do (OnClient m) c = client_do m c"
| "facade_do (OnView v m) c = view_do m v c"
| "facade_do OnClose c = Some (RDone, Client_Close c)"
| "facade_do (Inside i f) c = Some (RDone, snd (on_member i (\<lambda>m. ((), f m)) c))"

fun facade_run :: "fact list \<Rightarrow> facade \<Rightarrow> (mres list \<times> facade) option" where
  "facade_run [] c = Some ([], c)"
| "facade_run (a # as) c =
     (case facade_do a c of
        None \<Rightarrow> None
      | Some (r, c) \<Rightarrow> map_option (\<lambda>(rs, c). (r # rs, c)) (facade_run as c))"

text \<open>The same on one channel by itself: which actions reach it, and what they do there.\<close>

fun reaches :: "Client \<Rightarrow> nat \<Rightarrow> fact \<Rightarrow> bool" where
  "reaches cl i (OnClient m) \<longleftrightarrow> map_option fst (map_of (channels cl) KindBusiness) = Some i"
| "reaches cl i (OnView v m) \<longleftrightarrow> v = Some i"
| "reaches cl i OnClose \<longleftrightarrow> i < length (channels cl)"
| "reaches cl i (Inside j f) \<longleftrightarrow> i = j"

fun member_do :: "mop \<Rightarrow> member \<Rightarrow> mres \<times> member" where
  "member_do (MInvoke e cx op req resp o') m = map_prod RInvoked id (member_invoke e cx op req resp o' m)"
| "member_do (MOn op h) m = map_prod ROff id (member_on op h m)"
| "member_do (MOnAny h) m = map_prod ROff id (member_onAny h m)"
| "member_do (MReadExit fn) m = (RDone, onReadExit fn m)"

fun member_act :: "fact \<Rightarrow> member \<Rightarrow> mres \<times> member" where
  "member_act (OnClient m) x = member_do m x"
| "member_act (OnView v m) x = member_do m x"
| "member_act OnClose x = (RDone, snd (close_member x))"
| "member_act (Inside i f) x = (RDone, f x)"

fun member_run :: "fact list \<Rightarrow> member \<Rightarrow> mres list \<times> member" where
  "member_run [] m = ([], m)"
| "member_run (a # as) m = (case member_act a m of (r, m) \<Rightarrow> case member_run as m of (rs, m) \<Rightarrow> (r # rs, m))"

text \<open>Actions the package offers on a client with these channels.\<close>

fun offered :: "fact \<Rightarrow> bool" where "offered (OnView v (MOnAny h)) = False" | "offered _ = True"

lemma facade_do_act:
  assumes wf: "client_wf n (fa_client c)" and b: "business (fa_client c) \<noteq> None" and o: "offered a"
  obtains r d where "facade_do a c = Some (r, d)" and "fa_client d = fa_client c"
    and "\<And>i. fa_store d i = (if reaches (fa_client c) i a then snd (member_act a (fa_store c i)) else fa_store c i)"
    and "\<And>i. reaches (fa_client c) i a \<Longrightarrow> r = fst (member_act a (fa_store c i))"
proof -
  obtain j p where j: "business (fa_client c) = Some (j, p)" "map_of (channels (fa_client c)) KindBusiness = Some (j, p)"
    using b wf by (auto simp: client_wf_def)
  have len: "length (channels (fa_client c)) = n"
    using wf unfolding client_wf_def by (metis diff_zero length_map length_upt)
  have "\<exists>r d. facade_do a c = Some (r, d) \<and> fa_client d = fa_client c
    \<and> (\<forall>i. fa_store d i = (if reaches (fa_client c) i a then snd (member_act a (fa_store c i)) else fa_store c i))
    \<and> (\<forall>i. reaches (fa_client c) i a \<longrightarrow> r = fst (member_act a (fa_store c i)))"
  proof (cases a)
    case (OnClient m)
    then show ?thesis
      using j by (cases m) (auto simp: Client_Invoke_def Client_On_def Client_OnAny_def Client_OnReadExit_def on_business_def
          map_prod_def case_prod_unfold)
  next
    case (OnView v m)
    then show ?thesis
      using o by (cases m; cases v) (auto simp: View_Invoke_def View_On_def View_OnReadExit_def map_prod_def case_prod_unfold)
  next
    case OnClose
    then show ?thesis using Client_Close_store[OF wf] len by (simp add: snd_close_member)
  qed simp
  then show thesis using that by blast
qed

lemma facade_run_members:
  "client_wf n (fa_client c) \<Longrightarrow> business (fa_client c) \<noteq> None \<Longrightarrow> list_all offered acts \<Longrightarrow>
     \<exists>rs d. facade_run acts c = Some (rs, d) \<and> length rs = length acts \<and> fa_client d = fa_client c
       \<and> (\<forall>i. member_run (filter (reaches (fa_client c) i) acts) (fa_store c i)
              = (map snd (filter (\<lambda>(a, r). reaches (fa_client c) i a) (zip acts rs)), fa_store d i))"
proof (induction acts arbitrary: c)
  case (Cons a acts)
  have "offered a" using Cons.prems(3) by simp
  then obtain r e where e: "facade_do a c = Some (r, e)" "fa_client e = fa_client c"
      "\<And>i. fa_store e i = (if reaches (fa_client c) i a then snd (member_act a (fa_store c i)) else fa_store c i)"
      "\<And>i. reaches (fa_client c) i a \<Longrightarrow> r = fst (member_act a (fa_store c i))"
    using facade_do_act[OF Cons.prems(1,2)] by blast
  obtain rs d where d: "facade_run acts e = Some (rs, d)" "length rs = length acts" "fa_client d = fa_client c"
      "\<And>i. member_run (filter (reaches (fa_client c) i) acts) (fa_store e i)
              = (map snd (filter (\<lambda>(a, r). reaches (fa_client c) i a) (zip acts rs)), fa_store d i)"
    using Cons.IH[of e] Cons.prems e(2) by auto
  have "member_run (filter (reaches (fa_client c) i) (a # acts)) (fa_store c i)
      = (map snd (filter (\<lambda>(a, r). reaches (fa_client c) i a) (zip (a # acts) (r # rs))), fa_store d i)" for i
    using e(3,4)[of i] d(4)[of i] by (cases "reaches (fa_client c) i a") (simp_all add: case_prod_unfold)
  then show ?case using e(1) d(1-3) by (intro exI[of _ "r # rs"] exI[of _ d]) simp
qed simp

lemma worst_state: "StateDisconnected \<in> set ss \<Longrightarrow> Client_State ss = StateDisconnected"
proof -
  have "s \<le> StateDisconnected" for s by (cases s) (simp_all add: less_eq_State_def stateSeverity_def)
  then show "StateDisconnected \<in> set ss \<Longrightarrow> ?thesis" unfolding Client_State_Max by (intro Max_eqI) auto
qed

text \<open>
  C34: A client is its channels. However calls on the client, calls on views, \<open>Close\<close> and what goes on inside
  the channels follow each other, each channel's state and the results of the actions that reach it are
  those of the channel by itself under these actions alone: calls on the client and on the business view reach the
  same channel, calls on another view another, \<open>Close\<close> all. A role the client does not have refuses requests with a
  network error and changes nothing. Closing the client settles every channel that was open: no request in flight,
  none queued, each unclaimed one told once that the channel is closed, and with one such channel the client is
  disconnected; a channel that had ended before is left as it was, and closing again changes nothing.
\<close>

theorem client_of_channels:
  assumes wf: "client_wf n (fa_client c)" "business (fa_client c) \<noteq> None" and acts: "list_all offered acts"
    and chs: "\<forall>i < n. \<not> ch_closed (m_ch (fa_store c i)) \<longrightarrow>
        ch_wf (m_ch (fa_store c i)) \<and> distinct (map q_id (queue (m_ch (fa_store c i))))"
  shows "(\<exists>rs d. facade_run acts c = Some (rs, d) \<and> length rs = length acts \<and> fa_client d = fa_client c
       \<and> (\<forall>i. member_run (filter (reaches (fa_client c) i) acts) (fa_store c i)
              = (map snd (filter (\<lambda>(a, r). reaches (fa_client c) i a) (zip acts rs)), fa_store d i)))
    \<and> (map_of (channels (fa_client c)) kind = None \<longrightarrow>
        View_Invoke e cx op req resp o' (Client_Channel kind c) c = (Sent (Failed (NetworkError (Msg ''unknown channel''))), c))
    \<and> (let d = Client_Close c in
        (\<forall>i < n. let ch = m_ch (fa_store c i); ch' = m_ch (fa_store d i) in
           if ch_closed ch then ch' = ch
           else inflight ch' = [] \<and> queue ch' = [] \<and> ch_closed ch' \<and> ch_state ch' = StateDisconnected
             \<and> mail ch' = mail ch @ map (\<lambda>(k, m). (m, err_result err_closed)) (inflight ch)
             \<and> q_results ch' = q_results ch @ map (\<lambda>q. (q_id q, Some err_closed)) (filter (q_unclaimed ch) (queue ch)))
        \<and> ((\<exists>i < n. \<not> ch_closed (m_ch (fa_store c i))) \<longrightarrow> Client_state d = StateDisconnected)
        \<and> Client_Close d = d)"
proof -
  let ?d = "Client_Close c"
  have settled: "let ch = m_ch (fa_store c i); ch' = m_ch (fa_store ?d i) in Close ch' = ch' \<and>
      (if ch_closed ch then ch' = ch
       else inflight ch' = [] \<and> queue ch' = [] \<and> ch_closed ch' \<and> ch_state ch' = StateDisconnected
         \<and> mail ch' = mail ch @ map (\<lambda>(k, m). (m, err_result err_closed)) (inflight ch)
         \<and> q_results ch' = q_results ch @ map (\<lambda>q. (q_id q, Some err_closed)) (filter (q_unclaimed ch) (queue ch)))" if "i < n" for i
    using close_settles_everything[of "m_ch (fa_store c i)"] chs that Client_Close_store(2)[OF wf(1), of i]
    by (auto simp: Let_def Close_def)
  have cl: "fa_client ?d = fa_client c" by (rule Client_Close_store(1)[OF wf(1)])
  have state: "Client_state ?d = StateDisconnected" if "i < n" "\<not> ch_closed (m_ch (fa_store c i))" for i
    unfolding Client_state_def
    using settled[OF that(1)] that members_wf[of n ?d] wf(1) cl by (intro worst_state) (force simp: Let_def)
  have "fa_store (Client_Close ?d) j = fa_store ?d j" for j
    using Client_Close_store(2)[of n ?d j] settled[of j] wf(1) cl by (simp add: Let_def)
  then have "Client_Close ?d = ?d"
    using Client_Close_store(1)[of n ?d] wf(1) cl by (intro facade.equality) (auto simp: fun_eq_iff)
  moreover have "View_Invoke e cx op req resp o' (Client_Channel kind c) c = (Sent (Failed (NetworkError (Msg ''unknown channel''))), c)"
    if "map_of (channels (fa_client c)) kind = None"
    using that by (simp add: View_Invoke_def Client_Channel_def)
  moreover have "\<forall>i < n. let ch = m_ch (fa_store c i); ch' = m_ch (fa_store ?d i) in
      if ch_closed ch then ch' = ch
      else inflight ch' = [] \<and> queue ch' = [] \<and> ch_closed ch' \<and> ch_state ch' = StateDisconnected
        \<and> mail ch' = mail ch @ map (\<lambda>(k, m). (m, err_result err_closed)) (inflight ch)
        \<and> q_results ch' = q_results ch @ map (\<lambda>q. (q_id q, Some err_closed)) (filter (q_unclaimed ch) (queue ch))"
    using settled unfolding Let_def by blast
  moreover note facade_run_members[OF wf acts]
  ultimately show ?thesis using state unfolding Let_def by blast
qed

text \<open>Two channels, as a dual dial leaves them, each with a request in flight.\<close>

definition busy_channel :: "Kind \<Rightarrow> channel" where
  "busy_channel k = live_channel\<lparr>prm := idle_params\<lparr>c_kind := k\<rparr>, inflight := [((1, 1), 0)], next_box := 1\<rparr>"

definition dual_facade :: facade where
  "dual_facade =
     \<lparr>fa_client = \<lparr>channels = [(KindBusiness, 0, idle_params\<lparr>c_kind := KindBusiness\<rparr>),
          (KindBattle, 1, idle_params\<lparr>c_kind := KindBattle\<rparr>)],
        business = Some (0, idle_params\<lparr>c_kind := KindBusiness\<rparr>)\<rparr>,
      fa_store = (\<lambda>i. \<lparr>m_ch = busy_channel (if i = 0 then KindBusiness else KindBattle), m_nt = empty_table, m_exit = None\<rparr>)\<rparr>"

lemma dual_facade_wf:
  "client_wf 2 (fa_client dual_facade)" "business (fa_client dual_facade) \<noteq> None"
  "\<forall>i < 2. \<not> ch_closed (m_ch (fa_store dual_facade i)) \<longrightarrow>
     ch_wf (m_ch (fa_store dual_facade i)) \<and> distinct (map q_id (queue (m_ch (fa_store dual_facade i))))"
  by (simp_all add: dual_facade_def busy_channel_def live_channel_def setConn_def new_channel_def client_wf_def
      ch_wf_def upt_rec KindBusiness_def KindBattle_def)

text \<open>
  A read-exit callback on the client, one on the battle view, then the battle channel ends by itself and the
  program closes the client.
\<close>

definition dual_use :: "fact list" where
  "dual_use = [OnClient (MReadExit (Some 5)), OnView (Some 1) (MReadExit (Some 6)), Inside 1 (\<lambda>m. m\<lparr>m_ch := (m_ch m)\<lparr>ch_closed := True\<rparr>\<rparr>),
     OnClose]"

theorem client_of_channels_witness:
  "(\<exists>rs d. facade_run dual_use dual_facade = Some (rs, d) \<and> m_exit (fa_store d 0) = Some 5 \<and> m_exit (fa_store d 1) = Some 6
      \<and> inflight (m_ch (fa_store d 1)) \<noteq> [])
     \<and> inflight (m_ch (fa_store dual_facade 1)) \<noteq> []
     \<and> inflight (m_ch (fa_store (Client_Close dual_facade) 1)) = []
     \<and> Client_state (Client_Close dual_facade) = StateDisconnected"
proof -
  have o: "list_all offered dual_use" by (simp add: dual_use_def)
  note c = client_of_channels[OF dual_facade_wf(1,2) o dual_facade_wf(3)]
  obtain rs d where d: "facade_run dual_use dual_facade = Some (rs, d)"
      "\<And>i. fa_store d i = snd (member_run (filter (reaches (fa_client dual_facade) i) dual_use) (fa_store dual_facade i))"
    using c by (metis snd_conv)
  have "m_exit (fa_store d 0) = Some 5" "m_exit (fa_store d 1) = Some 6" "inflight (m_ch (fa_store d 1)) \<noteq> []"
    unfolding d(2) by (simp_all add: dual_use_def dual_facade_def busy_channel_def onReadExit_def snd_close_member Close_def
        KindBusiness_def KindBattle_def Let_def)
  moreover have "inflight (m_ch (fa_store dual_facade 1)) \<noteq> []" "\<not> ch_closed (m_ch (fa_store dual_facade 1))"
    by (simp_all add: dual_facade_def busy_channel_def live_channel_def setConn_def new_channel_def)
  moreover have "inflight (m_ch (fa_store (Client_Close dual_facade) 1)) = []" "Client_state (Client_Close dual_facade) = StateDisconnected"
  proof -
    have two: "1 < (2 :: nat)" by simp
    then show "inflight (m_ch (fa_store (Client_Close dual_facade) 1)) = []" using c calculation(5) unfolding Let_def by metis
    show "Client_state (Client_Close dual_facade) = StateDisconnected" using c calculation(5) two unfolding Let_def by blast
  qed
  ultimately show ?thesis using d(1) by blast
qed

end
