(* ===== verification/DirectDial.thy ===== *)
theory DirectDial
  imports DirectInvoke NetWatchdog
begin

text \<open>
  Dialling the access layer (\<open>direct/transport.go\<close>, the URL part of \<open>direct/hello.go\<close>): which socket is
  opened, what is said first on it, what a failure is called and which sockets it leaves. The
  answers of the network are in a record; a socket is a number. What is written on a socket
  (\<open>EncodeHello\<close> in \<open>Edge\<close>) is not part of the result.
\<close>

section \<open>URLs as net/url writes them\<close>

definition hex_digits :: string where "hex_digits = ''0123456789ABCDEF''"

definition percent :: "char \<Rightarrow> string" where
  "percent c = [CHR ''%'', hex_digits ! (of_char c div 16), hex_digits ! (of_char c mod 16)]"

definition unreserved :: string where "unreserved = base_alphabet @ ''-_.~''"

text \<open>The characters left alone in a host, a path and a query value, beside the unreserved ones.\<close>

definition host_marks :: string where "host_marks = ''!$&()*+,;=:[]<>'' @ [CHR 0x27, CHR 0x22]"
definition path_marks :: string where "path_marks = ''$&+,/:;=@''"

definition escape :: "string \<Rightarrow> string \<Rightarrow> string" where
  "escape marks s = concat (map (\<lambda>c. if c \<in> set (unreserved @ marks) then [c] else percent c) s)"

definition QueryEscape :: "string \<Rightarrow> string" where
  "QueryEscape s = concat (map (\<lambda>c. if c = CHR 0x20 then ''+'' else escape [] [c]) s)"

section \<open>Upgrade addresses (direct/hello.go)\<close>

definition wsURL :: "string \<Rightarrow> string \<Rightarrow> string \<Rightarrow> err + string" where
  "wsURL addr path ticket =
     (if addr = [] then Inl (wrap_sentinel ErrNotifyNoEndpoint)
      else
        let path = (if path = [] then ''/'' else path);
            path = (if take 1 path \<noteq> ''/'' then ''/'' @ path else path);
            query = (if ticket \<noteq> [] then ''?ticket='' @ QueryEscape ticket else [])
        in Inr (''ws://'' @ escape host_marks addr @ escape path_marks path @ query))"

definition EdgeWSURL :: "string \<Rightarrow> bytes \<Rightarrow> string \<Rightarrow> err + string" where
  "EdgeWSURL addr ticket path = wsURL addr path (TicketSlot ticket)"

definition wsTarget :: "string \<Rightarrow> bytes \<Rightarrow> options \<Rightarrow> err + string" where
  "wsTarget addr ticket o' =
     (if \<not> d_edgeHello o' then wsURL addr (d_path o') [] else EdgeWSURL addr ticket (d_path o'))"

text \<open>How the access layer finds the ticket: behind the first question mark.\<close>

definition url_ticket :: "string \<Rightarrow> bytes option" where
  "url_ticket u =
     (case dropWhile (\<lambda>c. c \<noteq> CHR ''?'') u of
        [] \<Rightarrow> None
      | q # query \<Rightarrow> if take 7 query = ''ticket='' then raw_decode url_alphabet (drop 7 query) else None)"

section \<open>Dialling (direct/transport.go)\<close>

text \<open>What the network answers: the TCP dial, the upgrade, the UDP address and dial, the hello, the KCP session.\<close>

record net_answers =
  w_tcp :: "err + nat"
  w_upgrade :: "(bool \<times> err) option"
  w_resolve :: "err option"
  w_udp :: "err + nat"
  w_hello :: "err option \<times> (err + bytes)"
  w_tries :: "hello_try list"
  w_kcp :: "err option"

datatype conn = WsConn nat | KcpConn flowConn | UdpConn nat u64

fun conn_sock :: "conn \<Rightarrow> nat" where
  "conn_sock (WsConn k) = k"
| "conn_sock (KcpConn c) = ep_sock (fp_cur c)"
| "conn_sock (UdpConn k i) = k"

text \<open>The result, the sockets opened, the sockets closed.\<close>

type_synonym dialled = "(err + conn) \<times> nat list \<times> nat list"

definition dialWS :: "net_answers \<Rightarrow> string \<Rightarrow> bytes \<Rightarrow> options \<Rightarrow> dialled" where
  "dialWS w addr ticket o' =
     (case wsTarget addr ticket o' of
        Inl x \<Rightarrow> (Inl x, [], [])
      | Inr target \<Rightarrow>
          (case w_tcp w of
             Inl x \<Rightarrow> (Inl (NetworkError (Wrap ''dial'' [x])), [], [])
           | Inr tcp \<Rightarrow>
               (case w_upgrade w of
                  Some (resp, x) \<Rightarrow> (Inl (classifyWSHandshake resp x), [tcp], [tcp])
                | None \<Rightarrow> (Inr (WsConn tcp), [tcp], []))))"

definition dialDatagram :: "net_answers \<Rightarrow> options \<Rightarrow> ((err + nat \<times> u64) \<times> nat list \<times> nat list) option" where
  "dialDatagram w o' =
     (case w_resolve w of
        Some x \<Rightarrow> Some (Inl (NetworkError (Wrap ''resolve'' [x])), [], [])
      | None \<Rightarrow>
          (case w_udp w of
             Inl x \<Rightarrow> Some (Inl (NetworkError (Wrap ''dial'' [x])), [], [])
           | Inr k \<Rightarrow>
               if \<not> d_edgeHello o' then Some (Inr (k, 0), [k], [])
               else
                 (case edgeHello (fst (w_hello w)) (snd (w_hello w)) of
                    None \<Rightarrow> None
                  | Some (Inl x) \<Rightarrow> Some (Inl x, [k], [k])
                  | Some (Inr flowID) \<Rightarrow> Some (Inr (k, flowID), [k], []))))"

definition dialUDP_direct :: "net_answers \<Rightarrow> options \<Rightarrow> dialled option" where
  "dialUDP_direct w o' =
     map_option (\<lambda>(r, ks). (map_sum id (\<lambda>(k, flowID). UdpConn k flowID) r, ks)) (dialDatagram w o')"

text \<open>
  \<open>newKCPFlowConn\<close> dials inside; its sockets are those of \<open>dialEndpoint\<close>, which runs when the
  limits are valid and the address resolves.
\<close>

definition flow_socks :: "net_answers \<Rightarrow> options \<Rightarrow> nat list \<times> nat list" where
  "flow_socks w o' =
     (if validate (limits_of o') \<noteq> None \<or> w_resolve w \<noteq> None then ([], [])
      else (case w_udp w of Inl _ \<Rightarrow> [] | Inr k \<Rightarrow> [k],
            case dialEndpoint (d_edgeHello o') (limits_of o') (w_udp w) (uncancelled (w_tries w)) of None \<Rightarrow> [] | Some (cs, _) \<Rightarrow> cs))"

text \<open>Closing a KCP connection: the session, then its packet connection, which never fails to close.\<close>

definition kcpConn_Close :: "err option \<Rightarrow> flowConn \<Rightarrow> err option \<times> flowConn" where
  "kcpConn_Close sess_err pc =
     (let (cerr, pc) = (None, flow_Close pc) in (case sess_err of None \<Rightarrow> cerr | Some x \<Rightarrow> Some x, pc))"

definition dialKCP :: "net_answers \<Rightarrow> flowCounters \<Rightarrow> instant \<Rightarrow> options \<Rightarrow> dialled option" where
  "dialKCP w stats now o' =
     (case newKCPFlowConn o' stats now (w_resolve w) (w_udp w) (w_tries w) of
        None \<Rightarrow> None
      | Some (Inl x) \<Rightarrow> Some (Inl x, flow_socks w o')
      | Some (Inr pc) \<Rightarrow>
          (case w_kcp w of
             Some x \<Rightarrow> Some (Inl (NetworkError (Wrap ''kcp session'' [x])), fst (flow_socks w o'),
                             snd (flow_socks w o') @ fp_socks_closed (flow_Close pc))
           | None \<Rightarrow> Some (Inr (KcpConn pc), flow_socks w o')))"

definition dial_direct :: "net_answers \<Rightarrow> flowCounters \<Rightarrow> instant \<Rightarrow> DTransport \<Rightarrow> string \<Rightarrow> bytes \<Rightarrow> options \<Rightarrow> dialled option" where
  "dial_direct w stats now kind addr ticket o' =
     (if kind = DTransportWS then Some (dialWS w addr ticket o')
      else if kind = DTransportKCP then dialKCP w stats now o'
      else if kind = DTransportUDP then dialUDP_direct w o'
      else Some (Inl (wrap_sentinel ErrTransportUnknown), [], []))"

section \<open>What a dial leaves\<close>

lemma percent_plain: "CHR ''?'' \<notin> set (percent c)"
proof -
  have d: "CHR ''?'' \<notin> set hex_digits" by (simp add: hex_digits_def)
  have "of_char c < (256::nat)" by simp
  then have "hex_digits ! (of_char c div 16) \<in> set hex_digits" "hex_digits ! (of_char c mod 16) \<in> set hex_digits"
    by (intro nth_mem; simp add: hex_digits_def less_mult_imp_div_less)+
  then show ?thesis using d by (auto simp: percent_def)
qed

lemma escape_plain: "CHR ''?'' \<notin> set marks \<Longrightarrow> CHR ''?'' \<notin> set (escape marks s)"
  using percent_plain by (auto simp: escape_def unreserved_def base_alphabet_def)

lemma escape_id: "set s \<subseteq> set (unreserved @ marks) \<Longrightarrow> escape marks s = s"
  by (induction s) (simp_all add: escape_def)

lemma QueryEscape_slot: "QueryEscape (RawURLEncode t) = RawURLEncode t"
proof -
  have u: "c \<in> set unreserved \<and> c \<noteq> CHR 0x20" if "c \<in> set (RawURLEncode t)" for c
    using raw_encode_chars[OF good_alphabets(1), of c t] that
    by (auto simp: RawURLEncode_def unreserved_def url_alphabet_def base_alphabet_def)
  have "QueryEscape s = s" if "\<forall>c \<in> set s. c \<in> set unreserved \<and> c \<noteq> CHR 0x20" for s
    using that by (induction s) (simp_all add: QueryEscape_def escape_id)
  then show ?thesis using u by blast
qed

lemma url_carries_ticket:
  assumes "addr \<noteq> []" and "ticket \<noteq> []"
  obtains u where "EdgeWSURL addr ticket path = Inr u" and "url_ticket u = Some ticket"
proof -
  obtain pre where pre: "EdgeWSURL addr ticket path = Inr (pre @ ''?ticket='' @ RawURLEncode ticket)" "CHR ''?'' \<notin> set pre"
  proof (rule that)
    let ?p = "if path = [] then ''/'' else path"
    let ?q = "if take 1 ?p \<noteq> ''/'' then ''/'' @ ?p else ?p"
    show "EdgeWSURL addr ticket path = Inr ((''ws://'' @ escape host_marks addr @ escape path_marks ?q) @ ''?ticket='' @ RawURLEncode ticket)"
      using assms by (simp add: EdgeWSURL_def wsURL_def TicketSlot_def QueryEscape_slot RawURLEncode_Nil Let_def)
    show "CHR ''?'' \<notin> set (''ws://'' @ escape host_marks addr @ escape path_marks ?q)"
      using escape_plain[of host_marks addr] escape_plain[of path_marks ?q]
      by (simp add: host_marks_def path_marks_def)
  qed
  have "url_ticket (pre @ ''?ticket='' @ RawURLEncode ticket) = Some ticket"
    using pre(2) raw_decode_encode[OF good_alphabets(1), of ticket]
    by (subst url_ticket_def, subst dropWhile_append2) (auto simp: RawURLEncode_def)
  then show thesis using that pre(1) by blast
qed

text \<open>With a connection: its socket is the one opened, and is open. With an error: all that was opened is closed.\<close>

fun leaves_no_socket :: "(err \<Rightarrow> bool) \<Rightarrow> dialled \<Rightarrow> bool" where
  "leaves_no_socket P (Inl x, os, cs) = (cs = os \<and> P x)"
| "leaves_no_socket P (Inr c, os, cs) = (os = [conn_sock c] \<and> cs = [])"

lemma leaves_no_socket_mono: "leaves_no_socket P d \<Longrightarrow> (\<And>x. P x \<Longrightarrow> Q x) \<Longrightarrow> leaves_no_socket Q d"
  by (cases "(P, d)" rule: leaves_no_socket.cases) auto

lemma flow_id_total: "min (length d) FlowIDLen = FlowIDLen \<Longrightarrow> \<exists>v. uint64_be (take FlowIDLen d) = Some v"
  using uint_be_total(3)[of "take FlowIDLen d"] by (simp add: FlowIDLen_def)

lemma edgeHello_total:
  obtains r where "edgeHello wr reply = Some r" "\<And>x. r = Inl x \<Longrightarrow> retryable x \<or> x = wrap_sentinel ErrRejected"
  using flow_id_total[of "projr reply"]
  by (cases wr; cases reply) (fastforce simp: edgeHello_def retryable_def Let_def split: if_splits)+

definition interruptions :: "hello_try list \<Rightarrow> err set" where
  "interruptions tries = {x. \<exists>wr reply. (wr, reply, Some x) \<in> set tries}"

lemma helloFlow_loop_class:
  assumes "4 \<le> a + length tries" and "a \<le> 3"
  shows "\<exists>ds r. helloFlow_loop a b tries = Some (ds, r)
     \<and> (\<forall>x. r = Inl x \<longrightarrow> retryable x \<or> x = wrap_sentinel ErrRejected \<or> x \<in> interruptions tries)"
  using assms
proof (induction tries arbitrary: a b)
  case (Cons t tries)
  obtain wr reply cancelled where t: "t = (wr, reply, cancelled)" by (cases t) auto
  obtain e where e: "exchangeHello wr reply = Some e"
    "\<And>x. e = Inl x \<Longrightarrow> retryable x \<or> x = wrap_sentinel ErrRejected"
    using flow_id_total[of "projr reply"]
    by (cases wr; cases reply) (fastforce simp: exchangeHello_def retryable_def Let_def split: if_splits)+
  have later: "interruptions tries \<subseteq> interruptions (t # tries)" by (auto simp: interruptions_def)
  have own: "cancelled = Some x \<Longrightarrow> x \<in> interruptions (t # tries)" for x by (auto simp: interruptions_def t)
  show ?case
  proof (cases e)
    case (Inr v)
    show ?thesis
    proof (cases v)
      case None
      show ?thesis
      proof (cases "defaultSwitchRetries \<le> a \<or> cancelled \<noteq> None")
        case False
        then obtain ds r where "helloFlow_loop (Suc a) (wrap64 (b * 2)) tries = Some (ds, r)"
          "\<forall>x. r = Inl x \<longrightarrow> retryable x \<or> x = wrap_sentinel ErrRejected \<or> x \<in> interruptions tries"
          using Cons.IH[of "Suc a" "wrap64 (b * 2)"] Cons.prems by (auto simp: defaultSwitchRetries_def)
        then show ?thesis using False e(1) Inr None later by (auto simp: t)
      qed (use e(1) Inr None own in \<open>auto simp: t split: option.split\<close>)
    qed (use e(1) Inr in \<open>simp add: t\<close>)
  qed (use e in \<open>auto simp: t\<close>)
qed simp

lemma dialKCP_outcome:
  assumes "4 \<le> length (w_tries w)"
  obtains d where "dialKCP w stats now o' = Some d"
    and "leaves_no_socket (\<lambda>x. retryable x \<or> x = wrap_sentinel ErrRejected \<or> validate (limits_of o') = Some x) d"
proof -
  have "4 \<le> length (uncancelled (w_tries w))" "interruptions (uncancelled (w_tries w)) = {}"
    using assms by (auto simp: uncancelled_def interruptions_def)
  then obtain ds q where q: "helloFlow (limits_of o') (uncancelled (w_tries w)) = Some (ds, q)"
    "\<And>x. q = Inl x \<Longrightarrow> retryable x \<or> x = wrap_sentinel ErrRejected"
    using helloFlow_loop_class[of 0 "uncancelled (w_tries w)" "l_RetryBase (limits_of o')"] unfolding helloFlow_def by auto
  show thesis
  proof (rule that)
    show "dialKCP w stats now o' = Some (the (dialKCP w stats now o'))"
      using q(1) by (auto simp: dialKCP_def newKCPFlowConn_def newFlowPacketConn_def dialEndpoint_def
          split: option.split sum.split)
    show "leaves_no_socket (\<lambda>x. retryable x \<or> x = wrap_sentinel ErrRejected \<or> validate (limits_of o') = Some x) (the (dialKCP w stats now o'))"
      using q by (auto simp: dialKCP_def newKCPFlowConn_def newFlowPacketConn_def dialEndpoint_def flow_socks_def
          flow_Close_def close_flag_def close_sock_def Let_def retryable_def split: option.split sum.split)
  qed
qed

text \<open>
  C40: A dial of the access layer leaves no socket behind. Whatever the network answers, to resolving the
  address, the dial, the upgrade, each hello or the KCP session, dialling over any transport returns: with a
  connection that owns the one socket opened, or with an error and every socket it opened closed again. The
  error is a network error or a timeout, which the reconnect retries, or says that the access layer
  refused, but for three the network has no part in: a transport that does not exist, an empty
  address, and invalid limits. Through the access layer the upgrade address carries the ticket.
\<close>

theorem dial_leaves_no_socket:
  assumes "4 \<le> length (w_tries w)"
  shows "(\<exists>d. dial_direct w stats now kind addr ticket o' = Some d \<and>
      leaves_no_socket (\<lambda>x. retryable x \<or> x = wrap_sentinel ErrRejected
        \<or> kind \<notin> {DTransportWS, DTransportKCP, DTransportUDP} \<and> x = wrap_sentinel ErrTransportUnknown
        \<or> kind = DTransportWS \<and> addr = [] \<and> x = wrap_sentinel ErrNotifyNoEndpoint
        \<or> kind = DTransportKCP \<and> validate (limits_of o') = Some x) d)
    \<and> (d_edgeHello o' \<and> addr \<noteq> [] \<and> ticket \<noteq> [] \<longrightarrow>
        (\<exists>u. wsTarget addr ticket o' = Inr u \<and> url_ticket u = Some ticket))"
    (is "(\<exists>d. _ = Some d \<and> leaves_no_socket ?P d) \<and> _")
proof -
  have ws: "leaves_no_socket (\<lambda>x. retryable x \<or> x = wrap_sentinel ErrRejected
      \<or> addr = [] \<and> x = wrap_sentinel ErrNotifyNoEndpoint) (dialWS w addr ticket o')"
    by (auto simp: dialWS_def wsTarget_def EdgeWSURL_def wsURL_def classifyWSHandshake_def retryable_def Let_def
        split: sum.split option.split)
  obtain h where h: "edgeHello (fst (w_hello w)) (snd (w_hello w)) = Some h"
    "\<And>x. h = Inl x \<Longrightarrow> retryable x \<or> x = wrap_sentinel ErrRejected"
    by (rule edgeHello_total[of "fst (w_hello w)" "snd (w_hello w)"]) blast
  have udp: "\<exists>d. dialUDP_direct w o' = Some d \<and> leaves_no_socket (\<lambda>x. retryable x \<or> x = wrap_sentinel ErrRejected) d"
    using h by (auto simp: dialUDP_direct_def dialDatagram_def retryable_def split: sum.split option.split)
  obtain k where kcp: "dialKCP w stats now o' = Some k"
    "leaves_no_socket (\<lambda>x. retryable x \<or> x = wrap_sentinel ErrRejected \<or> validate (limits_of o') = Some x) k"
    by (rule dialKCP_outcome[OF assms])
  show ?thesis
  proof (intro conjI impI)
    show "\<exists>u. wsTarget addr ticket o' = Inr u \<and> url_ticket u = Some ticket"
      if "d_edgeHello o' \<and> addr \<noteq> [] \<and> ticket \<noteq> []"
      using that url_carries_ticket[of addr ticket "d_path o'"] by (auto simp: wsTarget_def)
    consider "kind = DTransportWS" | "kind = DTransportKCP" | "kind = DTransportUDP"
      | "kind \<notin> {DTransportWS, DTransportKCP, DTransportUDP}" by blast
    then show "\<exists>d. dial_direct w stats now kind addr ticket o' = Some d \<and> leaves_no_socket ?P d"
    proof cases
      case 1
      then show ?thesis using ws by (auto simp: dial_direct_def elim: leaves_no_socket_mono)
    next
      case 2
      then show ?thesis using kcp by (auto simp: dial_direct_def dtransport_consts elim: leaves_no_socket_mono)
    next
      case 3
      then show ?thesis using udp by (auto simp: dial_direct_def dtransport_consts elim: leaves_no_socket_mono)
    next
      case 4
      then show ?thesis by (simp add: dial_direct_def)
    qed
  qed
qed

definition refusing_net :: net_answers where
  "refusing_net = \<lparr>w_tcp = Inr 1, w_upgrade = Some (True, Msg ''bad handshake''), w_resolve = None, w_udp = Inr 2,
     w_hello = (None, Inl (Sentinel NetTimeout)), w_tries = replicate 4 (None, Inr [0], None), w_kcp = None\<rparr>"

theorem dial_leaves_no_socket_witness:
  "\<exists>x os. dial_direct refusing_net new_flowCounters 0 DTransportKCP ''e:1'' [1] defaultOptions = Some (Inl x, os, os)
     \<and> length os = 1 \<and> url_ticket (projr (wsTarget ''e:1'' [1] defaultOptions)) = Some [1]"
proof -
  have "\<exists>x. dial_direct refusing_net new_flowCounters 0 DTransportKCP ''e:1'' [1] defaultOptions = Some (Inl x, [2], [2])"
  proof -
    have "replicate 4 t = [t, t, t, t]" for t :: hello_try by (simp add: numeral_eq_Suc)
    moreover have "validate (limits_of defaultOptions) = None"
      by (simp add: validate_def limits_of_def defaultOptions_def)
    ultimately show ?thesis
      by (simp add: dial_direct_def dtransport_consts dialKCP_def newKCPFlowConn_def newFlowPacketConn_def dialEndpoint_def
          flow_socks_def helloFlow_def uncancelled_def exchangeHello_def defaultSwitchRetries_def index_at_def
          defaultOptions_def refusing_net_def FlowIDLen_def)
  qed
  moreover have "4 \<le> length (w_tries refusing_net)" "d_edgeHello defaultOptions"
    by (simp_all add: refusing_net_def defaultOptions_def)
  ultimately show ?thesis
    using dial_leaves_no_socket[of refusing_net new_flowCounters 0 DTransportKCP "''e:1''" "[1]" defaultOptions] by auto
qed

end
