(* ===== verification/StreamTransports.thy ===== *)
theory StreamTransports
  imports Invoke Transports
begin

text \<open>
  The stream transports of the client, TCP and KCP (\<open>client/transport.go\<close>,
  \<open>client/transport_kcp.go\<close>, \<open>internal/kcpcfg\<close>), and the dial of every transport. Frames
  go through \<open>Read\<close> and \<open>Write\<close> of \<open>FrameCodec\<close>: a TCP connection takes the gathered write of a
  frame, a KCP session takes header and body as two messages, each of which it queues whole or not
  at all.
\<close>

section \<open>KCP parameters (internal/kcpcfg)\<close>

definition kcpWriteTimeout :: duration where "kcpWriteTimeout = 10 * second"

text \<open>What \<open>Apply\<close> sets on a session.\<close>

record kcp_session =
  k_nodelay :: "int \<times> int \<times> int \<times> int"
  k_windows :: "int \<times> int"
  k_mtu :: int
  k_ackNoDelay :: bool
  k_writeDelay :: bool

definition kcp_Apply :: "kcp_session \<Rightarrow> kcp_session" where
  "kcp_Apply s = s\<lparr>k_nodelay := (0, 40, 0, 0), k_windows := (128, 128), k_mtu := 1400,
     k_ackNoDelay := True, k_writeDelay := False\<rparr>"

section \<open>Frames over a stream\<close>

definition tcp_ReadFrame :: "reader \<Rightarrow> int \<Rightarrow> ((err + header \<times> bytes) \<times> reader) option" where
  "tcp_ReadFrame r maxBodySize = Read r maxBodySize"

definition tcp_WriteFrame :: "writer \<Rightarrow> header \<Rightarrow> bytes \<Rightarrow> int \<Rightarrow> (err option \<times> writer) option" where
  "tcp_WriteFrame w h body maxBodySize = Write (w\<lparr>gathers := True\<rparr>) h body maxBodySize"

definition kcp_ReadFrame :: "reader \<Rightarrow> int \<Rightarrow> ((err + header \<times> bytes) \<times> reader) option" where
  "kcp_ReadFrame r maxBodySize = Read r maxBodySize"

text \<open>The write deadline set before each frame ends a blocked write with an error, an outcome of the writer.\<close>

definition kcp_WriteFrame :: "writer \<Rightarrow> header \<Rightarrow> bytes \<Rightarrow> int \<Rightarrow> (err option \<times> writer) option" where
  "kcp_WriteFrame w h body maxBodySize = Write (w\<lparr>gathers := False\<rparr>) h body maxBodySize"

section \<open>Dialling (client/transport.go, transport_ws.go, transport_kcp.go, transport_udp.go)\<close>

datatype channelTransport = TcpTransport nat | WsTransport nat int | KcpTransport nat | UdpTransport nat

text \<open>
  The answers of the network to one dial: the context's error when the dial begins, what the
  library gives for an address, and the context's error if it ends a KCP dial before its session
  is there. A WebSocket failure says whether a response came.
\<close>

record client_net =
  n_ctx :: "err option"
  n_tcp :: "string \<Rightarrow> err + nat"
  n_ws :: "string \<Rightarrow> (bool \<times> err) + nat"
  n_kcp :: "string \<Rightarrow> err + nat"
  n_cancelled :: "err option"
  n_resolve :: "string \<Rightarrow> err option"
  n_udp :: "string \<Rightarrow> err + nat"

definition dialTCP :: "client_net \<Rightarrow> string \<Rightarrow> err + channelTransport" where
  "dialTCP w addr = (case n_tcp w addr of Inl x \<Rightarrow> Inl x | Inr k \<Rightarrow> Inr (TcpTransport k))"

definition dialWS_client :: "client_net \<Rightarrow> string \<Rightarrow> string \<Rightarrow> int \<Rightarrow> err + channelTransport" where
  "dialWS_client w addr path maxBodySize =
     (case n_ws w (normalizeWSURL addr path) of
        Inl (resp, x) \<Rightarrow> Inl (if resp then Wrap ''websocket handshake'' [x] else x)
      | Inr k \<Rightarrow> Inr (WsTransport k (ws_read_limit maxBodySize)))"

definition dialKCP_client :: "client_net \<Rightarrow> string \<Rightarrow> err + channelTransport" where
  "dialKCP_client w addr =
     (case n_ctx w of
        Some x \<Rightarrow> Inl x
      | None \<Rightarrow>
          (case n_cancelled w of
             Some x \<Rightarrow> Inl x
           | None \<Rightarrow> (case n_kcp w addr of Inl x \<Rightarrow> Inl x | Inr k \<Rightarrow> Inr (KcpTransport k))))"

definition dialUDP_client :: "client_net \<Rightarrow> string \<Rightarrow> err + channelTransport" where
  "dialUDP_client w addr =
     (case n_ctx w of
        Some x \<Rightarrow> Inl x
      | None \<Rightarrow>
          (case n_resolve w addr of
             Some x \<Rightarrow> Inl x
           | None \<Rightarrow> (case n_udp w addr of Inl x \<Rightarrow> Inl x | Inr k \<Rightarrow> Inr (UdpTransport k))))"

definition dialTransport :: "client_net \<Rightarrow> Transport \<Rightarrow> string \<Rightarrow> string \<Rightarrow> int \<Rightarrow> err + channelTransport" where
  "dialTransport w tr addr path maxBodySize =
     (if tr = TransportTCP then dialTCP w addr
      else if tr = TransportWS then dialWS_client w addr path maxBodySize
      else if tr = TransportKCP then dialKCP_client w addr
      else if tr = TransportUDP then dialUDP_client w addr
      else Inl (Msg ''unsupported transport''))"

text \<open>
  The read limit of a WebSocket connection is exact: every message that decodes is within it, and a
  longer one does not decode.
\<close>

lemma ws_limit_exact:
  assumes "maxb \<le> MaxBodySize"
  shows "DecodeMessage d maxb = Some (Inr (h, body)) \<Longrightarrow> int (length d) \<le> ws_read_limit maxb"
proof -
  assume d: "DecodeMessage d maxb = Some (Inr (h, body))"
  obtain g where chk: "CheckHeader g maxb = None" and len: "length d = 16 + unat (gLength g)"
    using d by (rule_tac DecodeMessage_spec[of d maxb]) auto
  have "int (unat (gLength g)) \<le> NormalizeMaxBodySize maxb" by (rule CheckHeader_bound[OF chk])
  then show ?thesis using assms len
    by (auto simp: ws_read_limit_def NormalizeMaxBodySize_def HeaderSize_def split: if_splits)
qed

section \<open>A write that times out half way\<close>

lemma invokeOnce_send_connection:
  "invokeOnce_send e op req rid ch = (r, ch') \<Longrightarrow>
     genPtr ch' = genPtr ch \<and> closed_trs ch' = closed_trs ch \<and> ch_state ch' = ch_state ch \<and> ch_closed ch' = ch_closed ch"
  by (auto simp: invokeOnce_send_def nextSeq_def Let_def split: if_splits option.splits sum.splits prod.splits)

lemma Write_header_only:
  assumes "sendable h body maxb" and "body \<noteq> []" and "outcomes w = [None, Some x]"
  shows "\<exists>w'. kcp_WriteFrame w h body maxb = Some (Some x, w') \<and> outcomes w' = []
    \<and> written w' = written w @ [take HeaderSize (frame_bytes (h, body))]"
proof -
  have limit: "\<not> int (length body) > (if maxb \<le> 0 then MaxBodySize else maxb)"
    using assms(1) by (auto simp: sendable_def NormalizeMaxBodySize_def)
  let ?h = "(if hMagic h = 0 then h\<lparr>hMagic := Magic\<rparr> else h)"
  let ?h2 = "(if hVersion ?h = 0 then ?h\<lparr>hVersion := Version\<rparr> else ?h)"
  have hdr: "toGen (?h2\<lparr>hLength := of_nat (length body)\<rparr>) = toGen (on_wire h body)"
    by (auto simp: on_wire_def toGen_def fromGen_def with_defaults_def Let_def)
  show ?thesis
    unfolding kcp_WriteFrame_def Write_def Let_def hdr PutHeader_replicate[of HeaderSize, unfolded HeaderSize_def, simplified]
    using limit assms(2,3)
    by (auto simp: HeaderSize_def PutHeader_replicate writevBuffers_def write_call_def frame_bytes_def)
qed

text \<open>
  C21: A write that times out between header and body puts a KCP connection out of step. The request
  fails with a network error and the channel goes on with the same connection, open and connected;
  the header stays in the stream. After the next request, whose write succeeds and waits for its
  reply, the server reads a frame that has the first request's header, with the sequence number of a
  request already reported as failed, and whose body is cut from the second request's frame; what
  follows is the rest of that frame, in the middle.
\<close>

theorem timed_out_write_desyncs:
  assumes "sendable h1 b1 maxb" and "b1 \<noteq> []" and "sendable h2 b2 maxb"
    and "length b1 \<le> length (frame_bytes (h2, b2))"
    and "invokeOnce_send e op req rid ch = (Failed x, ch')"
  shows "(\<exists>w1 w2. kcp_WriteFrame \<lparr>gathers = False, written = [], outcomes = [None, Some y]\<rparr> h1 b1 maxb = Some (Some y, w1)
      \<and> kcp_WriteFrame w1 h2 b2 maxb = Some (None, w2)
      \<and> kcp_ReadFrame \<lparr>pending = concat (written w2), fault = f\<rparr> maxb
          = Some (Inr (on_wire h1 b1, take (length b1) (frame_bytes (h2, b2))),
                  \<lparr>pending = drop (length b1) (frame_bytes (h2, b2)), fault = f\<rparr>))
    \<and> genPtr ch' = genPtr ch \<and> closed_trs ch' = closed_trs ch \<and> ch_state ch' = ch_state ch"
proof -
  let ?f1 = "frame_bytes (h1, b1)" and ?f2 = "frame_bytes (h2, b2)"
  obtain w1 where w1: "kcp_WriteFrame \<lparr>gathers = False, written = [], outcomes = [None, Some y]\<rparr> h1 b1 maxb = Some (Some y, w1)"
    "outcomes w1 = []" "written w1 = [take HeaderSize ?f1]"
    using Write_header_only[OF assms(1,2), of "\<lparr>gathers = False, written = [], outcomes = [None, Some y]\<rparr>" y] by auto
  obtain ws where w2: "kcp_WriteFrame w1 h2 b2 maxb = Some (None, w1\<lparr>gathers := False, written := written w1 @ ws\<rparr>)"
    "concat ws = ?f2"
    using Write_eq[of b2 maxb "w1\<lparr>gathers := False\<rparr>" h2] assms(3) w1(2) by (auto simp: sendable_def kcp_WriteFrame_def)
  let ?b = "take (length b1) ?f2"
  have "length ?b = length b1" using assms(4) by simp
  then have ow: "on_wire h1 ?b = on_wire h1 b1" unfolding on_wire_def by presburger
  have "frame_bytes (h1, ?b) = header_bytes (toGen (on_wire h1 b1)) @ ?b"
    using ow by (simp only: frame_bytes_def fst_conv snd_conv)
  also have "\<dots> = take HeaderSize ?f1 @ ?b" by (simp add: frame_bytes_def HeaderSize_def)
  finally have "frame_bytes (h1, ?b) = take HeaderSize ?f1 @ ?b" .
  moreover have "sendable h1 ?b maxb" using assms(1,4) ow by (simp add: sendable_def)
  ultimately have "Read (\<lparr>pending = [], fault = f\<rparr>\<lparr>pending := (take HeaderSize ?f1 @ ?b) @ drop (length b1) ?f2\<rparr>) maxb
      = Some (Inr (on_wire h1 b1, ?b), \<lparr>pending = [], fault = f\<rparr>\<lparr>pending := drop (length b1) ?f2\<rparr>)"
    using Read_frame_bytes[of h1 ?b maxb] ow by metis
  then have "kcp_ReadFrame \<lparr>pending = concat (written w1 @ ws), fault = f\<rparr> maxb
      = Some (Inr (on_wire h1 b1, ?b), \<lparr>pending = drop (length b1) ?f2, fault = f\<rparr>)"
    by (simp add: kcp_ReadFrame_def w1(3) w2(2))
  then show ?thesis
    using w1(1) w2(1) invokeOnce_send_connection[OF assms(5)] by auto
qed

text \<open>Two requests with a one-byte body each; the channel is one whose write fails.\<close>

definition broken_env :: env where "broken_env = quiet_env\<lparr>e_write := (\<lambda>_ _ _. Some (Sentinel NetTimeout))\<rparr>"

definition tiny_header :: "u32 \<Rightarrow> header" where
  "tiny_header n = \<lparr>hMagic = 0, hVersion = 0, hType = MsgTypeRequest, hFlags = 0, hSeq = n, hLength = 0\<rparr>"

lemma broken_send: "\<exists>x ch'. invokeOnce_send broken_env ''/a'' None [] live_channel = (Failed x, ch')"
  using live_channel_wf(1)
proof (cases rule: invokeOnce_send_cases[of live_channel broken_env "''/a''" None "[]"])
  case (waiting g s hdr body ch')
  have "False" if "invokeOnce_send broken_env ''/a'' None [] live_channel = (Waiting k m, c)" for k m c
    using that
    by (auto simp: invokeOnce_send_def broken_env_def Let_def split: if_splits option.splits sum.splits prod.splits)
  then show ?thesis using waiting by blast
qed blast

theorem timed_out_write_desyncs_witness:
  "\<exists>w1 w2 b rest. kcp_WriteFrame \<lparr>gathers = False, written = [], outcomes = [None, Some (Sentinel NetTimeout)]\<rparr> (tiny_header 1) [7] 64
       = Some (Some (Sentinel NetTimeout), w1)
     \<and> kcp_WriteFrame w1 (tiny_header 2) [8] 64 = Some (None, w2)
     \<and> kcp_ReadFrame \<lparr>pending = concat (written w2), fault = Sentinel EOF\<rparr> 64
         = Some (Inr (on_wire (tiny_header 1) [7], b), rest) \<and> length (pending rest) = 16"
proof -
  have s: "sendable (tiny_header n) [k] 64" if "n \<noteq> 0" for n k
    using that by (simp add: tiny_header_def sendable_def on_wire_def with_defaults_def toGen_def fromGen_def CheckHeader_def
        frame_consts NormalizeMaxBodySize_def IsPayloadVersion_def Let_def)
  have l: "length (frame_bytes (tiny_header 2, [8])) = 17" by (simp add: frame_bytes_def)
  obtain x ch' where "invokeOnce_send broken_env ''/a'' None [] live_channel = (Failed x, ch')" using broken_send by blast
  from timed_out_write_desyncs[OF s[of 1 7] _ s[of 2 8] _ this, of "Sentinel NetTimeout" "Sentinel EOF"] l
  obtain w1 w2 where "kcp_WriteFrame \<lparr>gathers = False, written = [], outcomes = [None, Some (Sentinel NetTimeout)]\<rparr> (tiny_header 1) [7] 64
       = Some (Some (Sentinel NetTimeout), w1)"
    "kcp_WriteFrame w1 (tiny_header 2) [8] 64 = Some (None, w2)"
    "kcp_ReadFrame \<lparr>pending = concat (written w2), fault = Sentinel EOF\<rparr> 64
      = Some (Inr (on_wire (tiny_header 1) [7], take 1 (frame_bytes (tiny_header 2, [8]))),
          \<lparr>pending = drop 1 (frame_bytes (tiny_header 2, [8])), fault = Sentinel EOF\<rparr>)" by auto
  moreover have "length (pending \<lparr>pending = drop 1 (frame_bytes (tiny_header 2, [8])), fault = Sentinel EOF\<rparr>) = 16"
    using l by simp
  ultimately show ?thesis by blast
qed

end
