(* ===== verification/Calls.thy ===== *)
theory Calls
  imports StreamTransports
begin

text \<open>
  A call over the wire: what a channel sends (\<open>Channel\<close>) put through each transport
  (\<open>StreamTransports\<close>, \<open>Transports\<close>), the server's parser (\<open>Body\<close>), its reply (\<open>Reply\<close>) put through the
  same transport, and the read loop that hands it to the caller (\<open>Invoke\<close>).
\<close>

section \<open>One frame over a transport\<close>

abbreviation fresh_writer :: writer where "fresh_writer \<equiv> \<lparr>gathers = False, written = [], outcomes = []\<rparr>"

definition over_stream ::
  "(err option \<times> writer) option \<Rightarrow> (reader \<Rightarrow> ((err + header \<times> bytes) \<times> reader) option)
     \<Rightarrow> (err + header \<times> bytes) option" where
  "over_stream wr rd =
     do { (x, w) \<leftarrow> wr;
          (case x of
             Some y \<Rightarrow> Some (Inl y)
           | None \<Rightarrow> do { (f, r) \<leftarrow> rd \<lparr>pending = concat (written w), fault = Sentinel EOF\<rparr>; Some f }) }"

definition over_message ::
  "(err + bytes) option \<Rightarrow> (bytes \<Rightarrow> (err + header \<times> bytes) option) \<Rightarrow> (err + header \<times> bytes) option" where
  "over_message wr rd = do { d \<leftarrow> wr; (case d of Inl x \<Rightarrow> Some (Inl x) | Inr m \<Rightarrow> rd m) }"

text \<open>What the other end reads of a frame written on a fresh connection.\<close>

fun over :: "channelTransport \<Rightarrow> int \<Rightarrow> header \<times> bytes \<Rightarrow> (err + header \<times> bytes) option" where
  "over (TcpTransport _) maxb (h, b) = over_stream (tcp_WriteFrame fresh_writer h b maxb) (\<lambda>r. tcp_ReadFrame r maxb)"
| "over (KcpTransport _) maxb (h, b) = over_stream (kcp_WriteFrame fresh_writer h b maxb) (\<lambda>r. kcp_ReadFrame r maxb)"
| "over (WsTransport _ _) maxb f = over_message (ws_WriteFrame maxb f) (\<lambda>m. ws_ReadFrame maxb (Inr m))"
| "over (UdpTransport _) maxb f =
     over_message (udp_WriteFrame maxb f)
       (\<lambda>m. case udp_ReadFrame maxb [Inr m] of Returned r _ \<Rightarrow> Some r | _ \<Rightarrow> None)"

definition fits :: "channelTransport \<Rightarrow> int \<Rightarrow> bytes \<Rightarrow> bool" where
  "fits tr maxb body \<longleftrightarrow> int (length body) \<le> NormalizeMaxBodySize maxb \<and> length body < 2 ^ 32
     \<and> (case tr of UdpTransport _ \<Rightarrow> length body + HeaderSize \<le> udpMaxDatagramSize | _ \<Rightarrow> True)"

lemma over_stream_frame:
  assumes "sendable h b maxb"
  shows "over_stream (Write (fresh_writer\<lparr>gathers := g\<rparr>) h b maxb) (\<lambda>r. Read r maxb) = Some (Inr (on_wire h b, b))"
proof -
  obtain ws where "Write (fresh_writer\<lparr>gathers := g\<rparr>) h b maxb = Some (None, fresh_writer\<lparr>gathers := g, written := ws\<rparr>)"
    "concat ws = frame_bytes (h, b)"
    using Write_eq[of b maxb "fresh_writer\<lparr>gathers := g\<rparr>" h] assms by (auto simp: sendable_def)
  then show ?thesis
    using Read_frame_bytes[OF assms, where r = "\<lparr>pending = [], fault = Sentinel EOF\<rparr>" and rest = "[]"] by (simp add: over_stream_def)
qed

lemma over_frame:
  assumes "sendable h b maxb" and "fits tr maxb b"
  shows "over tr maxb (h, b) = Some (Inr (on_wire h b, b))"
proof (cases tr)
  case TcpTransport
  then show ?thesis using over_stream_frame[OF assms(1)] by (simp add: tcp_WriteFrame_def tcp_ReadFrame_def)
next
  case KcpTransport
  then show ?thesis using over_stream_frame[OF assms(1)] by (simp add: kcp_WriteFrame_def kcp_ReadFrame_def)
next
  case WsTransport
  then show ?thesis using ws.carried[where h = h and body = b and maxb = maxb] assms(1) by (auto simp: over_message_def)
next
  case UdpTransport
  then have "udp_carries maxb (h, b)" using assms by (simp add: udp_carries_def fits_def)
  then obtain d where "udp_WriteFrame maxb (h, b) = Some (Inr d)"
    "udp_ReadFrame maxb [Inr d] = Returned (Inr (on_wire h b, b)) []"
    using udp.delivers[of maxb h b "\<lambda>_. True" "[]" "[]"] unfolding udp_ReadFrame_eq by auto
  then show ?thesis using UdpTransport by (simp add: over_message_def)
qed

section \<open>Requests and replies are sendable\<close>

lemma reserved_free: "body_flags s r AND reservedFlags = 0"
  by (simp add: body_flags_def reservedFlags_def FlagSession_def FlagRequestID_def)

lemma fits_sendable:
  assumes "fits tr maxb body" and "hMagic h = 0" and "hSeq h \<noteq> 0" and "IsPayloadVersion (hVersion h)"
    and "hType h = MsgTypeRequest \<or> hType h = MsgTypeResponse" and "hFlags h AND reservedFlags = 0"
  shows "sendable h body maxb"
proof -
  have "unat (of_nat (length body) :: u32) = length body"
    using assms(1) by (intro unat_of_nat_small) (simp add: fits_def)
  then have "uint (of_nat (length body) :: u32) \<le> NormalizeMaxBodySize maxb"
    using assms(1) by (metis fits_def of_nat_unat uint_nat)
  moreover have "hVersion h \<noteq> 0" using assms(4) by (auto simp: IsPayloadVersion_def PayloadVersions_def frame_consts)
  ultimately show ?thesis
    using assms by (auto simp: sendable_def on_wire_def with_defaults_def toGen_def fromGen_def CheckHeader_def
        fits_def Let_def Header_Check_def)
qed

text \<open>The head of the server's reply: the request's version and sequence number.\<close>

definition answer :: "header \<Rightarrow> header" where
  "answer q = \<lparr>hMagic = 0, hVersion = hVersion q, hType = MsgTypeResponse, hFlags = 0, hSeq = hSeq q, hLength = 0\<rparr>"

lemma answer_sendable:
  assumes "fits tr maxb body" and "hSeq q \<noteq> 0" and "IsPayloadVersion (hVersion q)"
  shows "sendable (answer q) body maxb"
  using assms by (intro fits_sendable) (simp_all add: answer_def)

lemma request_magic:
  assumes "buildRequestFrame e p op payload rid = Some (Inr (hdr, body))"
  shows "hMagic hdr = 0"
proof -
  let ?b = "BuildRequestBodyFull (bytes_of_string op) (bytes_of_string (request_token e p)) (bytes_of_string rid) payload"
  consider "?b = None" | x where "?b = Some (Inl x)" | b where "?b = Some (Inr b)"
    by (metis not_None_eq sum.exhaust)
  then show ?thesis by cases (use assms in \<open>auto simp: buildRequestFrame_def Let_def split: if_split_asm\<close>)
qed

text \<open>The frame a waiting request has sent, as the other end reads it.\<close>

lemma sent_request:
  assumes "ch_wf ch" and "invokeOnce_send e op req rid ch = (Waiting key m, ch1)"
    and "IsPayloadVersion (c_ver (prm ch))" and "sent ch1 = sent ch @ [(k, hdr, body)]" and "fits tr maxb body"
  shows "over tr maxb (hdr, body) = Some (Inr (on_wire hdr body, body))"
    and "hType hdr = MsgTypeRequest" and "hVersion hdr = c_ver (prm ch)" and "hSeq hdr = snd key" and "snd key \<noteq> 0"
    and "ParseRequestBodyFull body (hFlags hdr) = Some (Inr (bytes_of_string op,
           bytes_of_string (request_token e (prm ch)), bytes_of_string rid, projr (marshalRequest e req)))"
proof -
  have "\<exists>h0. buildRequestFrame e (prm ch) op (projr (marshalRequest e req)) rid = Some (Inr (h0, body))
    \<and> hdr = h0\<lparr>hSeq := snd key\<rparr> \<and> snd key = fst (nextSeq ch)"
    using assms(1)
  proof (cases rule: invokeOnce_send_cases[of ch e op req rid])
    case (waiting g s h0 b ch')
    then show ?thesis using assms(2,4) by auto
  qed (use assms(2) in simp)
  then obtain h0 where b: "buildRequestFrame e (prm ch) op (projr (marshalRequest e req)) rid = Some (Inr (h0, body))"
    "hdr = h0\<lparr>hSeq := snd key\<rparr>" "snd key = fst (nextSeq ch)" by blast
  have "unat (snd key) \<noteq> 0" using nextSeq_unat[of ch] b(3) by simp
  then show z: "snd key \<noteq> 0" by auto
  have h: "hType hdr = MsgTypeRequest \<and> hVersion hdr = c_ver (prm ch)
      \<and> ParseRequestBodyFull body (hFlags hdr) = Some (Inr (bytes_of_string op,
           bytes_of_string (request_token e (prm ch)), bytes_of_string rid, projr (marshalRequest e req)))
      \<and> hFlags hdr AND reservedFlags = 0"
  proof (cases rule: buildRequestFrame_cases[of e "prm ch" op "projr (marshalRequest e req)" rid])
    case (ok h1 b1)
    then show ?thesis using b by (auto simp: reserved_free)
  qed (use b in simp)
  then show "hType hdr = MsgTypeRequest" "hVersion hdr = c_ver (prm ch)"
    "ParseRequestBodyFull body (hFlags hdr) = Some (Inr (bytes_of_string op,
           bytes_of_string (request_token e (prm ch)), bytes_of_string rid, projr (marshalRequest e req)))" by blast+
  show s: "hSeq hdr = snd key" using b(2) by simp
  have "sendable hdr body maxb"
    using assms(3,5) h z s request_magic[OF b(1)] b(2) by (intro fits_sendable[of tr]) simp_all
  then show "over tr maxb (hdr, body) = Some (Inr (on_wire hdr body, body))" using over_frame assms(5) by blast
qed

lemma on_wire_keeps:
  "hVersion h \<noteq> 0 \<Longrightarrow> hType (on_wire h b) = hType h \<and> hFlags (on_wire h b) = hFlags h \<and> hSeq (on_wire h b) = hSeq h
     \<and> hVersion (on_wire h b) = hVersion h"
  by (simp add: on_wire_def with_defaults_def toGen_def fromGen_def Let_def)

lemma payload_version_pos: "IsPayloadVersion v \<Longrightarrow> v \<noteq> 0"
  by (auto simp: IsPayloadVersion_def PayloadVersions_def frame_consts)

text \<open>
  C9: A call over the wire, over every transport. The server reads the frame of a waiting request as a
  request frame whose body parses, under the flags it read, to the caller's operation, the session
  token, the request id and the marshalled payload. Whatever reply it sends back under the version and
  sequence number it read, the client reads that frame, and after any pushes and well-formed replies of the same version to other
  requests the caller gets exactly the result in it: its data through the serializer, or its status as
  a business error, however the wait ends.
\<close>

theorem call_over_the_wire:
  assumes "ch_wf ch" and "mail_ok ch" and "genPtr ch = Some g" and "IsPayloadVersion (c_ver (prm ch))"
    and "invokeOnce_send e op req rid ch = (Waiting key m, ch1)"
    and "sent ch1 = sent ch @ [(k, hdr, body)]" and "fits tr maxb body"
    and "fits tr maxb reply" and "DecodeReply reply = Some (Inr (dat, st))"
    and "\<forall>rd \<in> set noise. harmless (c_ver (prm ch)) (snd key) rd"
  shows "\<exists>q a ch'. over tr maxb (hdr, body) = Some (Inr (q, body)) \<and> hType q = MsgTypeRequest
    \<and> ParseRequestBodyFull body (hFlags q) = Some (Inr (bytes_of_string op, bytes_of_string (request_token e (prm ch)),
         bytes_of_string rid, projr (marshalRequest e req)))
    \<and> over tr maxb (answer q, reply) = Some (Inr a)
    \<and> invokeOnce e op req resp rid (noise @ Inr a # rest) f ch = Some (resultToError e (result_of dat st) resp, ch')"
proof -
  note s = sent_request[OF assms(1,5,4,6,7)]
  let ?q = "on_wire hdr body"
  have q: "hType ?q = MsgTypeRequest" "hFlags ?q = hFlags hdr" "hSeq ?q = snd key" "hVersion ?q = c_ver (prm ch)"
    using on_wire_keeps[of hdr body] s(2-4) payload_version_pos[OF assms(4)] by simp_all
  let ?a = "on_wire (answer ?q) reply"
  have a: "hType ?a = MsgTypeResponse" "hSeq ?a = snd key" "hVersion ?a = c_ver (prm ch)"
    using on_wire_keeps[of "answer ?q" reply] q payload_version_pos[OF assms(4)] by (simp_all add: answer_def)
  have "over tr maxb (answer ?q, reply) = Some (Inr (?a, reply))"
    using over_frame answer_sendable[OF assms(8), of ?q] assms(4,8) s(5) q by simp
  moreover obtain ch' where "invokeOnce e op req resp rid (noise @ Inr (?a, reply) # rest) f ch
      = Some (resultToError e (result_of dat st) resp, ch')"
    using response_decides[OF assms(1-3,5,10) a(1,3,2) assms(9)] by blast
  ultimately show ?thesis using s(1,6) q(1,2) by auto
qed

text \<open>A request without payload on an idle channel, whose reply has one byte of data.\<close>

definition tiny_request :: header where
  "tiny_request = \<lparr>hMagic = 0, hVersion = 1, hType = MsgTypeRequest, hFlags = 0, hSeq = 1, hLength = 0\<rparr>"

lemma live_send:
  "\<exists>ch1. invokeOnce_send quiet_env ''/a'' None [] live_channel = (Waiting (1, 1) 0, ch1)
     \<and> sent ch1 = sent live_channel @ [(0, tiny_request, [0, 2, 47, 97])]"
proof -
  have "buildRequestFrame quiet_env (prm live_channel) ''/a'' [] [] = Some (Inr (tiny_request\<lparr>hSeq := 0\<rparr>, [0, 2, 47, 97]))"
    by code_simp
  then show ?thesis
    by (simp add: invokeOnce_send_def live_channel_wf marshalRequest_def live_channel_def setConn_def
        new_channel_def nextSeq_def quiet_env_def tiny_request_def Let_def)
qed

theorem call_over_the_wire_witness:
  "\<exists>q a ch'. over (KcpTransport 0) 64 (tiny_request, [0, 2, 47, 97]) = Some (Inr (q, [0, 2, 47, 97]))
     \<and> over (KcpTransport 0) 64 (answer q, [0, 0, 0, 0, 1, 5]) = Some (Inr a)
     \<and> invokeOnce quiet_env ''/a'' None True [] [Inr a] TimesOut live_channel = Some (None, ch')"
proof -
  obtain ch1 where s: "invokeOnce_send quiet_env ''/a'' None [] live_channel = (Waiting (1, 1) 0, ch1)"
    "sent ch1 = sent live_channel @ [(0, tiny_request, [0, 2, 47, 97])]" using live_send by blast
  have v: "IsPayloadVersion (c_ver (prm live_channel))" by code_simp
  have d: "DecodeReply [0, 0, 0, 0, 1, 5] = Some (Inr ([5], None))"
    using reply_data_encoded[of "[5]" "[0]" 1 "[]" None] by (simp add: DecodeReply_eq put_uint32_def)
  have f: "fits (KcpTransport 0) 64 [0, 2, 47, 97]" "fits (KcpTransport 0) 64 [0, 0, 0, 0, 1, 5]"
    by (simp_all add: fits_def NormalizeMaxBodySize_def MaxBodySize_def)
  have r: "resultToError quiet_env (result_of [5] None) True = None" by (simp add: resultToError_def result_of_def quiet_env_def)
  show ?thesis
    using call_over_the_wire[OF live_channel_wf v s f d, of "[]" True "[]" TimesOut] r by auto
qed

end
