(* ===== verification/Redial.thy ===== *)
theory Redial
  imports ClientOptions
begin

text \<open>
  What redialling does with connections: the supervisor of a channel (\<open>supervisor\<close>,
  \<open>reconnectFrom\<close>, \<open>settleGeneration\<close> in \<open>client/channel.go\<close>), the cancellable dial
  (\<open>rebindDialCtx\<close>, and \<open>dialKCP\<close> in \<open>client/transport_kcp.go\<close> with its background goroutines), the
  read loop and heartbeat of a generation as far as they close its transport, and \<open>Close\<close>, as
  one step system. A transport is a number.
\<close>

section \<open>Configurations\<close>

text \<open>
  The goroutine of a KCP dial: running, its result in the channel of capacity one, or its result
  taken. The supervisor sleeps before a dial, is about to dial, is inside a dial of the library, waits
  for the dial goroutine, holds what the dial returned, runs the hook, watches its generation, or has returned.
  A dial over TCP or WebSocket (\<open>DialContext\<close>) heeds its context all the time; over KCP the context is tested first and
  then waited for beside the goroutine; over UDP it is tested first only, and \<open>net.ResolveUDPAddr\<close> does not know it.
\<close>

datatype dial_kind = DialStream | DialKcp | DialUdp
datatype dial_go = DRun | DSent "nat option" | DOver
datatype sup_at = SSleep | SDial | SLib | is_wait: SWait nat | SGot nat | SSettle | SWatch | SGone

text \<open>
  \<open>rc_auto\<close>: \<open>WithAutoReconnect\<close>. \<open>rc_kind\<close>: the channel's transport. \<open>rc_alive\<close>: the read loop of the current generation runs. \<open>rc_ctx\<close>: the context of the current
  dial is cancelled. \<open>rc_left\<close>: the dials whose caller returned on the context and left a
  goroutine to sweep up. \<open>rc_past\<close>: the transports of replaced generations. \<open>rc_hung\<close>: those whose
  read loop ended by itself.
\<close>

record rconf =
  rc_auto :: bool
  rc_kind :: dial_kind
  rc_closed :: bool
  rc_gen :: nat
  rc_alive :: bool
  rc_ctx :: bool
  rc_sup :: sup_at
  rc_dials :: "nat \<Rightarrow> dial_go"
  rc_next :: nat
  rc_left :: "nat list"
  rc_past :: "nat list"
  rc_hung :: "nat list"
  rc_opened :: "nat list"
  rc_shut :: "nat list"

definition rstart :: "rconf \<Rightarrow> bool" where
  "rstart c \<longleftrightarrow> (\<exists>k auto kind. c = \<lparr>rc_auto = auto, rc_kind = kind, rc_closed = False, rc_gen = k, rc_alive = True, rc_ctx = False, rc_sup = SWatch, rc_dials = (\<lambda>_. DOver), rc_next = 0,
     rc_left = [], rc_past = [], rc_hung = [], rc_opened = [k], rc_shut = []\<rparr>)"

section \<open>Steps\<close>

text \<open>
  The network answers with \<open>HangUp\<close> (a read error), \<open>LibOk\<close> and \<open>LibErr\<close> (a dial over TCP,
  WebSocket or UDP) and \<open>DialOk\<close> and \<open>DialErr\<close> (a dial goroutine over KCP); \<open>LibCtx\<close> is a library dial that
  returns on its context; the heartbeat of the
  current generation or of a replaced one closes its own transport. All others are
  the supervisor, the goroutine of \<open>rebindDialCtx\<close>, the sweeping goroutine, and \<open>Close\<close>.
\<close>

datatype ract =
    HangUp | LibOk nat | LibErr | LibCtx | DialOk nat nat | DialErr nat | Beat | StaleBeat nat
  | SeeDone | SeeClose | Wake | SleepClosed | CancelCtx | DialCheck | TakeResult | TakeCtx | Sweep nat
  | Install | HookOk | HookFails | CloseCall

fun network :: "ract \<Rightarrow> bool" where
  "network HangUp = True" | "network (LibOk _) = True" | "network LibErr = True" | "network (DialOk _ _) = True" | "network (DialErr _) = True" | "network _ = False"

definition shut :: "nat \<Rightarrow> rconf \<Rightarrow> rconf" where "shut k c = c\<lparr>rc_shut := k # rc_shut c\<rparr>"

definition put_dial :: "nat \<Rightarrow> dial_go \<Rightarrow> rconf \<Rightarrow> rconf" where
  "put_dial i d c = c\<lparr>rc_dials := (rc_dials c)(i := d)\<rparr>"

text \<open>What \<open>reconnectFrom\<close> does under \<open>lifecycleMu\<close> with the connection it dialled.\<close>

definition install :: "nat \<Rightarrow> rconf \<Rightarrow> rconf" where
  "install k c =
     (if rc_closed c then (shut k c)\<lparr>rc_sup := SGone\<rparr>
      else c\<lparr>rc_past := rc_gen c # rc_past c, rc_gen := k, rc_alive := True, rc_sup := SSettle\<rparr>)"

fun redial_do :: "ract \<Rightarrow> rconf \<Rightarrow> rconf option" where
  "redial_do HangUp c = (if rc_alive c then Some (c\<lparr>rc_alive := False, rc_hung := rc_gen c # rc_hung c\<rparr>) else None)"
| "redial_do Beat c = (if rc_alive c then Some ((shut (rc_gen c) c)\<lparr>rc_alive := False\<rparr>) else None)"
| "redial_do (StaleBeat k) c = (if k \<in> set (rc_past c) then Some (shut k c) else None)"
| "redial_do SeeDone c =
     (if rc_sup c = SWatch \<and> \<not> rc_alive c then Some (c\<lparr>rc_sup := (if rc_closed c \<or> \<not> rc_auto c then SGone else SSleep)\<rparr>) else None)"
| "redial_do SeeClose c = (if rc_sup c = SWatch \<and> rc_closed c then Some (c\<lparr>rc_sup := SGone\<rparr>) else None)"
| "redial_do Wake c = (if rc_sup c = SSleep then Some (c\<lparr>rc_sup := SDial, rc_ctx := False\<rparr>) else None)"
| "redial_do SleepClosed c = (if rc_sup c = SSleep \<and> rc_closed c then Some (c\<lparr>rc_sup := SGone\<rparr>) else None)"
| "redial_do CancelCtx c =
     (if rc_closed c \<and> (rc_sup c = SDial \<or> rc_sup c = SLib \<or> is_wait (rc_sup c)) then Some (c\<lparr>rc_ctx := True\<rparr>) else None)"
| "redial_do (LibOk k) c =
     (if rc_sup c = SLib \<and> k \<notin> set (rc_opened c) then Some (c\<lparr>rc_opened := k # rc_opened c, rc_sup := SGot k\<rparr>) else None)"
| "redial_do LibErr c = (if rc_sup c = SLib then Some (c\<lparr>rc_sup := SSleep\<rparr>) else None)"
| "redial_do LibCtx c =
     (if rc_sup c = SLib \<and> rc_kind c = DialStream \<and> rc_ctx c then Some (c\<lparr>rc_sup := SSleep\<rparr>) else None)"
| "redial_do DialCheck c =
     (if rc_sup c \<noteq> SDial then None
      else if rc_kind c = DialStream then Some (c\<lparr>rc_sup := SLib\<rparr>)
      else if rc_ctx c then Some (c\<lparr>rc_sup := SSleep\<rparr>)
      else if rc_kind c = DialUdp then Some (c\<lparr>rc_sup := SLib\<rparr>)
      else Some (c\<lparr>rc_sup := SWait (rc_next c), rc_dials := (rc_dials c)(rc_next c := DRun), rc_next := Suc (rc_next c)\<rparr>))"
| "redial_do (DialOk i k) c =
     (if rc_dials c i = DRun \<and> k \<notin> set (rc_opened c)
      then Some (put_dial i (DSent (Some k)) (c\<lparr>rc_opened := k # rc_opened c\<rparr>)) else None)"
| "redial_do (DialErr i) c = (if rc_dials c i = DRun then Some (put_dial i (DSent None) c) else None)"
| "redial_do TakeResult c =
     (case rc_sup c of
        SWait i \<Rightarrow>
          (case rc_dials c i of
             DSent r \<Rightarrow> Some ((put_dial i DOver c)\<lparr>rc_sup := (case r of None \<Rightarrow> SSleep | Some k \<Rightarrow> SGot k)\<rparr>)
           | _ \<Rightarrow> None)
      | _ \<Rightarrow> None)"
| "redial_do TakeCtx c =
     (case rc_sup c of
        SWait i \<Rightarrow> if rc_ctx c then Some (c\<lparr>rc_left := i # rc_left c, rc_sup := SSleep\<rparr>) else None
      | _ \<Rightarrow> None)"
| "redial_do (Sweep i) c =
     (if i \<in> set (rc_left c)
      then (case rc_dials c i of
              DSent r \<Rightarrow> Some (let c = put_dial i DOver c in case r of None \<Rightarrow> c | Some k \<Rightarrow> shut k c)
            | _ \<Rightarrow> None)
      else None)"
| "redial_do Install c = (case rc_sup c of SGot k \<Rightarrow> Some (install k c) | _ \<Rightarrow> None)"
| "redial_do HookOk c =
     (if rc_sup c = SSettle then Some (c\<lparr>rc_sup := (if rc_closed c then SGone else SWatch)\<rparr>) else None)"
| "redial_do HookFails c = (if rc_sup c = SSettle then Some ((shut (rc_gen c) c)\<lparr>rc_sup := SSleep\<rparr>) else None)"
| "redial_do CloseCall c = (if rc_closed c then None else Some ((shut (rc_gen c) c)\<lparr>rc_closed := True\<rparr>))"

inductive redial_step :: "rconf \<Rightarrow> ract \<Rightarrow> rconf \<Rightarrow> bool" where
  "redial_do a c = Some d \<Longrightarrow> redial_step c a d"

inductive_cases redial_stepE: "redial_step c a d"

abbreviation redial_reach :: "rconf \<Rightarrow> bool" where
  "redial_reach \<equiv> reach rstart redial_step"

section \<open>Every transport is accounted for\<close>

text \<open>Held: on its way from a dial to the supervisor, or to the sweeper.\<close>

definition buffered :: "(nat \<Rightarrow> dial_go) \<Rightarrow> nat \<Rightarrow> bool" where
  "buffered f k \<longleftrightarrow> (\<exists>i. f i = DSent (Some k))"

definition held :: "rconf \<Rightarrow> nat \<Rightarrow> bool" where
  "held c k \<longleftrightarrow> rc_sup c = SGot k \<or> buffered (rc_dials c) k"

lemma buffered_upd:
  "f i \<noteq> DSent (Some k) \<Longrightarrow> buffered (f(i := x)) k \<longleftrightarrow> x = DSent (Some k) \<or> buffered f k"
  by (auto simp: buffered_def)

definition placed_inv :: "rconf \<Rightarrow> bool" where
  "placed_inv c \<longleftrightarrow> rc_gen c \<in> set (rc_opened c) \<and> set (rc_past c) \<subseteq> set (rc_opened c) \<and> set (rc_shut c) \<subseteq> set (rc_opened c)
     \<and> (\<forall>k \<in> set (rc_opened c). k \<in> set (rc_shut c) \<or> k = rc_gen c \<or> k \<in> set (rc_past c) \<or> held c k)"

definition fresh_inv :: "rconf \<Rightarrow> bool" where
  "fresh_inv c \<longleftrightarrow> (\<forall>k. held c k \<longrightarrow> k \<in> set (rc_opened c) \<and> k \<notin> set (rc_shut c) \<and> k \<noteq> rc_gen c \<and> k \<notin> set (rc_past c))
     \<and> (\<forall>k. rc_sup c = SGot k \<longrightarrow> \<not> buffered (rc_dials c) k)"

definition single_inv :: "rconf \<Rightarrow> bool" where
  "single_inv c \<longleftrightarrow> (\<forall>k i. rc_dials c i = DSent (Some k) \<longrightarrow> k \<in> set (rc_opened c))
     \<and> (\<forall>k i j. rc_dials c i = DSent (Some k) \<and> rc_dials c j = DSent (Some k) \<longrightarrow> i = j)"

fun redials :: "sup_at \<Rightarrow> bool" where
  "redials SSleep = True" | "redials SDial = True" | "redials SLib = True" | "redials (SWait _) = True" | "redials (SGot _) = True" | "redials _ = False"

definition ended_inv :: "rconf \<Rightarrow> bool" where
  "ended_inv c \<longleftrightarrow> set (rc_past c) \<subseteq> set (rc_shut c) \<union> set (rc_hung c)
     \<and> (\<not> rc_alive c \<or> redials (rc_sup c) \<longrightarrow> rc_gen c \<in> set (rc_shut c) \<union> set (rc_hung c))
     \<and> (rc_closed c \<longrightarrow> rc_gen c \<in> set (rc_shut c))"

definition dials_inv :: "rconf \<Rightarrow> bool" where
  "dials_inv c \<longleftrightarrow> (\<forall>i. rc_sup c = SWait i \<longrightarrow> i < rc_next c \<and> i \<notin> set (rc_left c))
     \<and> (\<forall>i \<in> set (rc_left c). i < rc_next c)
     \<and> (\<forall>i. rc_dials c i \<noteq> DOver \<longrightarrow> i \<in> set (rc_left c) \<or> rc_sup c = SWait i)"

definition redial_inv :: "rconf \<Rightarrow> bool" where
  "redial_inv c \<longleftrightarrow> placed_inv c \<and> fresh_inv c \<and> single_inv c \<and> ended_inv c \<and> dials_inv c"

lemma redial_start: "rstart c \<Longrightarrow> redial_inv c"
  unfolding rstart_def
  by (elim exE) (simp add: redial_inv_def placed_inv_def fresh_inv_def single_inv_def ended_inv_def dials_inv_def held_def buffered_def)

text \<open>One step, by what it needs and what it leaves.\<close>

lemma redial_doE:
  assumes "redial_do a c = Some d"
  obtains (hang) "a = HangUp" "rc_alive c" "d = c\<lparr>rc_alive := False, rc_hung := rc_gen c # rc_hung c\<rparr>"
  | (beat) "a = Beat" "rc_alive c" "d = c\<lparr>rc_shut := rc_gen c # rc_shut c, rc_alive := False\<rparr>"
  | (stale) k where "a = StaleBeat k" "k \<in> set (rc_past c)" "d = c\<lparr>rc_shut := k # rc_shut c\<rparr>"
  | (done_retry) "a = SeeDone" "rc_sup c = SWatch" "\<not> rc_alive c" "d = c\<lparr>rc_sup := SSleep\<rparr>"
  | (gone) s where "rc_sup c = s" "s = SWatch \<or> s = SSleep \<or> s = SSettle" "d = c\<lparr>rc_sup := SGone\<rparr>"
  | (wake) "a = Wake" "rc_sup c = SSleep" "d = c\<lparr>rc_sup := SDial, rc_ctx := False\<rparr>"
  | (cancel) "a = CancelCtx" "rc_closed c" "d = c\<lparr>rc_ctx := True\<rparr>"
  | (lib_ok) k where "a = LibOk k" "rc_sup c = SLib" "k \<notin> set (rc_opened c)"
      "d = c\<lparr>rc_opened := k # rc_opened c, rc_sup := SGot k\<rparr>"
  | (no_dial) "rc_sup c = SDial \<or> rc_sup c = SLib" "d = c\<lparr>rc_sup := SSleep\<rparr>"
  | (lib_dial) "rc_sup c = SDial" "d = c\<lparr>rc_sup := SLib\<rparr>"
  | (dial) "a = DialCheck" "rc_sup c = SDial" "d = c\<lparr>rc_sup := SWait (rc_next c), rc_dials := (rc_dials c)(rc_next c := DRun), rc_next := Suc (rc_next c)\<rparr>"
  | (dial_ok) i k where "a = DialOk i k" "rc_dials c i = DRun" "k \<notin> set (rc_opened c)"
      "d = c\<lparr>rc_opened := k # rc_opened c, rc_dials := (rc_dials c)(i := DSent (Some k))\<rparr>"
  | (dial_err) i where "a = DialErr i" "rc_dials c i = DRun" "d = c\<lparr>rc_dials := (rc_dials c)(i := DSent None)\<rparr>"
  | (take_none) i where "rc_sup c = SWait i" "rc_dials c i = DSent None" "d = c\<lparr>rc_dials := (rc_dials c)(i := DOver), rc_sup := SSleep\<rparr>"
  | (take_some) i k where "rc_sup c = SWait i" "rc_dials c i = DSent (Some k)" "d = c\<lparr>rc_dials := (rc_dials c)(i := DOver), rc_sup := SGot k\<rparr>"
  | (leave) i where "rc_sup c = SWait i" "rc_ctx c" "d = c\<lparr>rc_left := i # rc_left c, rc_sup := SSleep\<rparr>"
  | (sweep_none) i where "i \<in> set (rc_left c)" "rc_dials c i = DSent None" "d = c\<lparr>rc_dials := (rc_dials c)(i := DOver)\<rparr>"
  | (sweep_some) i k where "i \<in> set (rc_left c)" "rc_dials c i = DSent (Some k)"
      "d = c\<lparr>rc_dials := (rc_dials c)(i := DOver), rc_shut := k # rc_shut c\<rparr>"
  | (too_late) k where "rc_sup c = SGot k" "rc_closed c" "d = c\<lparr>rc_shut := k # rc_shut c, rc_sup := SGone\<rparr>"
  | (install) k where "rc_sup c = SGot k" "\<not> rc_closed c"
      "d = c\<lparr>rc_past := rc_gen c # rc_past c, rc_gen := k, rc_alive := True, rc_sup := SSettle\<rparr>"
  | (hook_ok) "rc_sup c = SSettle" "d = c\<lparr>rc_sup := SWatch\<rparr>"
  | (hook_fails) "rc_sup c = SSettle" "d = c\<lparr>rc_shut := rc_gen c # rc_shut c, rc_sup := SSleep\<rparr>"
  | (close) "a = CloseCall" "\<not> rc_closed c" "d = c\<lparr>rc_shut := rc_gen c # rc_shut c, rc_closed := True\<rparr>"
  using assms
proof (cases a)
  case SeeDone
  then show ?thesis using assms done_retry gone by (auto split: if_splits)
next
  case SeeClose
  then show ?thesis using assms gone by (auto split: if_splits)
next
  case SleepClosed
  then show ?thesis using assms gone by (auto split: if_splits)
next
  case LibErr
  then show ?thesis using assms no_dial by (auto split: if_splits)
next
  case LibCtx
  then show ?thesis using assms no_dial by (auto split: if_splits)
next
  case DialCheck
  then show ?thesis using assms no_dial lib_dial dial by (auto split: if_splits)
next
  case TakeResult
  then show ?thesis using assms take_none take_some by (auto simp: put_dial_def split: sup_at.splits dial_go.splits option.splits)
next
  case TakeCtx
  then show ?thesis using assms leave by (auto split: sup_at.splits if_splits)
next
  case (Sweep i)
  then show ?thesis using assms sweep_none sweep_some
    by (auto simp: shut_def put_dial_def Let_def split: dial_go.splits option.splits if_splits)
next
  case Install
  then show ?thesis using assms too_late install by (auto simp: install_def shut_def split: sup_at.splits if_splits)
next
  case HookOk
  then show ?thesis using assms gone hook_ok by (auto split: if_splits)
next
  case HangUp
  then show ?thesis using assms by (intro hang) (auto split: if_splits)
next
  case (LibOk k)
  then show ?thesis using assms by (intro lib_ok) (auto split: if_splits)
next
  case (DialOk i k)
  then show ?thesis using assms by (intro dial_ok) (auto simp: put_dial_def split: if_splits)
next
  case (DialErr i)
  then show ?thesis using assms by (intro dial_err) (auto simp: put_dial_def split: if_splits)
next
  case Beat
  then show ?thesis using assms by (intro beat) (auto simp: shut_def split: if_splits)
next
  case (StaleBeat k)
  then show ?thesis using assms by (intro stale) (auto simp: shut_def split: if_splits)
next
  case Wake
  then show ?thesis using assms by (intro wake) (auto split: if_splits)
next
  case CancelCtx
  then show ?thesis using assms by (intro cancel) (auto split: if_splits)
next
  case HookFails
  then show ?thesis using assms by (intro hook_fails) (auto simp: shut_def split: if_splits)
next
  case CloseCall
  then show ?thesis using assms by (intro close) (auto simp: shut_def split: if_splits)
qed

lemma dials_step:
  assumes "dials_inv c" and "redial_do a c = Some d"
  shows "dials_inv d"
  using assms(2)
proof (cases rule: redial_doE)
  case dial
  then show ?thesis using assms(1) by (auto simp: dials_inv_def less_Suc_eq)
qed (use assms(1) in \<open>auto simp: dials_inv_def split: if_splits\<close>)

lemma ended_step:
  assumes "ended_inv c" and "redial_do a c = Some d"
  shows "ended_inv d"
  using assms(2) by (cases rule: redial_doE) (use assms(1) in \<open>auto simp: ended_inv_def\<close>)

lemma single_step:
  assumes "single_inv c" and "redial_do a c = Some d"
  shows "single_inv d"
  using assms(2) by (cases rule: redial_doE) (use assms(1) in \<open>auto simp: single_inv_def split: if_splits\<close>)

lemma idle_dial: "dials_inv c \<Longrightarrow> rc_dials c (rc_next c) = DOver"
  unfolding dials_inv_def by (metis less_irrefl)

text \<open>Taking a result out of its channel.\<close>

lemma buffered_take:
  assumes "single_inv c" and "rc_dials c i = DSent (Some k)"
  shows "buffered ((rc_dials c)(i := DOver)) j \<longleftrightarrow> j \<noteq> k \<and> buffered (rc_dials c) j"
proof -
  have "l = i" if "rc_dials c l = DSent (Some k)" for l using assms that unfolding single_inv_def by blast
  then show ?thesis using assms(2) unfolding buffered_def fun_upd_apply by (metis dial_go.distinct(5) dial_go.inject option.inject)
qed

lemmas held_simps = held_def buffered_upd

lemma fresh_step:
  assumes "placed_inv c" and "dials_inv c" and "single_inv c" and "fresh_inv c" and "redial_do a c = Some d"
  shows "fresh_inv d"
  using assms(5)
proof (cases rule: redial_doE)
  case dial
  then show ?thesis using assms(4) idle_dial[OF assms(2)] by (simp add: fresh_inv_def held_simps)
next
  case (dial_ok i k)
  then have "\<not> held c k" using assms(4) by (auto simp: fresh_inv_def)
  then show ?thesis using dial_ok assms(1,4) by (auto simp: placed_inv_def fresh_inv_def held_simps)
next
  case (take_some i k)
  have "buffered (rc_dials c) k" using take_some(2) by (auto simp: buffered_def)
  then show ?thesis using take_some assms(4) buffered_take[OF assms(3) take_some(2)] by (auto simp: fresh_inv_def held_def)
next
  case (sweep_some i k)
  have "buffered (rc_dials c) k" using sweep_some(2) by (auto simp: buffered_def)
  then show ?thesis using sweep_some assms(4) buffered_take[OF assms(3) sweep_some(2)] by (auto simp: fresh_inv_def held_def)
next
  case (lib_ok k)
  then have "\<not> held c k" using assms(4) by (auto simp: fresh_inv_def)
  then show ?thesis using lib_ok assms(1,4) by (auto simp: placed_inv_def fresh_inv_def held_simps)
next
  case (too_late k)
  then show ?thesis using assms(4) by (auto simp: fresh_inv_def held_def)
next
  case (install k)
  then show ?thesis using assms(4) by (auto simp: fresh_inv_def held_def)
qed (use assms(1,4) in \<open>simp_all add: placed_inv_def fresh_inv_def held_simps, blast?\<close>)

lemma placed_step:
  assumes "placed_inv c" and "dials_inv c" and "single_inv c" and "redial_do a c = Some d" and "fresh_inv c"
  shows "placed_inv d"
  using assms(4)
proof (cases rule: redial_doE)
  case dial
  then show ?thesis using assms(1) idle_dial[OF assms(2)] by (simp add: placed_inv_def held_simps)
next
  case (take_some i k)
  then show ?thesis using assms(1) buffered_take[OF assms(3) take_some(2)] by (auto simp: placed_inv_def held_def)
next
  case (sweep_some i k)
  then show ?thesis
    using assms(1,3) buffered_take[OF assms(3) sweep_some(2)] by (auto simp: placed_inv_def held_def single_inv_def)
next
  case (too_late k)
  then show ?thesis using assms(1,5) by (auto simp: placed_inv_def fresh_inv_def held_def)
next
  case (install k)
  then show ?thesis using assms(1,5) by (auto simp: placed_inv_def fresh_inv_def held_def)
qed (use assms(1) in \<open>auto simp: placed_inv_def held_simps\<close>)

interpretation redialling: inductive_invariant rstart redial_step redial_inv
proof
  show "rstart c \<Longrightarrow> redial_inv c" for c by (rule redial_start)
  show "redial_inv d" if "redial_inv c" "redial_step c a d" for c a d
    using that dials_step ended_step single_step fresh_step placed_step unfolding redial_inv_def by (elim redial_stepE) blast
qed

section \<open>Close and the dial\<close>

text \<open>The steps by which the supervisor of a closed channel returns; none is an answer of the network.\<close>

definition leave_path :: "rconf \<Rightarrow> ract list" where
  "leave_path c =
     (case rc_sup c of
        SSleep \<Rightarrow> [SleepClosed] | SDial \<Rightarrow> [CancelCtx, DialCheck] @ (if rc_kind c = DialStream then [LibCtx] else []) @ [SleepClosed]
      | SLib \<Rightarrow> [CancelCtx, LibCtx, SleepClosed] | SWait _ \<Rightarrow> [CancelCtx, TakeCtx, SleepClosed]
      | SGot _ \<Rightarrow> [Install] | SSettle \<Rightarrow> [HookFails, SleepClosed] | SWatch \<Rightarrow> [SeeClose] | SGone \<Rightarrow> [])"

text \<open>Inside a UDP dial, which is resolving the address or on its way there.\<close>

definition in_udp_dial :: "rconf \<Rightarrow> bool" where "in_udp_dial c \<longleftrightarrow> rc_sup c = SLib \<and> rc_kind c = DialUdp"

lemma kinds_step: "redial_do a c = Some d \<Longrightarrow> rc_kind d = rc_kind c"
  by (erule redial_doE) auto

lemma kcp_step: "redial_do a c = Some d \<Longrightarrow> rc_kind c = DialKcp \<Longrightarrow> rc_sup c \<noteq> SLib \<Longrightarrow> rc_sup d \<noteq> SLib"
  by (cases a) (auto simp: shut_def put_dial_def install_def Let_def split: if_splits sup_at.splits dial_go.splits option.splits)

interpretation kcp_dials: inductive_invariant rstart redial_step "\<lambda>c. rc_kind c = DialKcp \<longrightarrow> rc_sup c \<noteq> SLib"
proof
  show "rstart c \<Longrightarrow> rc_kind c = DialKcp \<longrightarrow> rc_sup c \<noteq> SLib" for c by (auto simp: rstart_def)
  show "rc_kind d = DialKcp \<longrightarrow> rc_sup d \<noteq> SLib" if "rc_kind c = DialKcp \<longrightarrow> rc_sup c \<noteq> SLib" "redial_step c a d" for c a d
    using that kinds_step kcp_step by (elim redial_stepE) simp
qed

lemma leave_path_runs:
  assumes "rc_closed c" and "\<not> in_udp_dial c" and "rc_kind c = DialKcp \<longrightarrow> rc_sup c \<noteq> SLib"
  shows "\<exists>d. run_steps (\<lambda>c a. redial_do a c) c (leave_path c) = Some d \<and> rc_sup d = SGone"
  using assms by (cases "rc_sup c"; cases "rc_kind c") (simp_all add: leave_path_def in_udp_dial_def install_def shut_def)

lemma leave_path_quiet: "length (leave_path c) \<le> 4 \<and> list_all (\<lambda>a. \<not> network a) (leave_path c)"
  by (cases "rc_sup c") (simp_all add: leave_path_def)

lemma udp_step: "redial_do a c = Some d \<Longrightarrow> \<not> network a \<Longrightarrow> in_udp_dial c \<Longrightarrow> in_udp_dial d"
  by (cases a) (auto simp: in_udp_dial_def shut_def put_dial_def Let_def split: if_splits sup_at.splits dial_go.splits option.splits)

lemma udp_waits:
  "run_steps (\<lambda>c a. redial_do a c) c as = Some d \<Longrightarrow> list_all (\<lambda>a. \<not> network a) as \<Longrightarrow> in_udp_dial c \<Longrightarrow> in_udp_dial d"
  by (induction as arbitrary: c) (auto split: option.splits dest: udp_step)

text \<open>Whatever the network then answers, the supervisor returns with the next step.\<close>

lemma udp_answers:
  assumes "rc_closed c" and "in_udp_dial c"
  shows "(\<exists>d. run_steps (\<lambda>c a. redial_do a c) c [LibErr, SleepClosed] = Some d \<and> rc_sup d = SGone)
    \<and> (k \<notin> set (rc_opened c) \<longrightarrow>
         (\<exists>d. run_steps (\<lambda>c a. redial_do a c) c [LibOk k, Install] = Some d \<and> rc_sup d = SGone \<and> k \<in> set (rc_shut d)))"
  using assms by (simp add: in_udp_dial_def install_def shut_def)

text \<open>Everything has come to its end: the channel closed, its supervisor gone, every dial result taken.\<close>

definition finished :: "rconf \<Rightarrow> bool" where
  "finished c \<longleftrightarrow> rc_closed c \<and> rc_sup c = SGone \<and> (\<forall>i. rc_dials c i = DOver)"


section \<open>Hung-up connections\<close>

definition redial_first :: rconf where
  "redial_first = \<lparr>rc_auto = True, rc_kind = DialStream, rc_closed = False, rc_gen = 0, rc_alive = True, rc_ctx = False, rc_sup = SWatch,
     rc_dials = (\<lambda>_. DOver), rc_next = 0, rc_left = [], rc_past = [], rc_hung = [], rc_opened = [0], rc_shut = []\<rparr>"

text \<open>The peer hangs up, and the channel redials with success.\<close>

definition hang_ups :: "nat \<Rightarrow> ract list" where
  "hang_ups n = concat (map (\<lambda>i. [HangUp, SeeDone, Wake, DialCheck, LibOk (Suc i), Install, HookOk]) [0..<n])"

definition after_hang_ups :: "nat \<Rightarrow> rconf" where
  "after_hang_ups n = redial_first\<lparr>rc_gen := n, rc_past := rev [0..<n], rc_hung := rev [0..<n], rc_opened := rev [0..<Suc n]\<rparr>"

lemma hang_ups_run: "run_steps (\<lambda>c a. redial_do a c) redial_first (hang_ups n) = Some (after_hang_ups n)"
proof (induction n)
  case (Suc n)
  have "hang_ups (Suc n) = hang_ups n @ [HangUp, SeeDone, Wake, DialCheck, LibOk (Suc n), Install, HookOk]"
    by (simp add: hang_ups_def)
  then show ?case by (simp add: run_steps_append Suc) (simp add: after_hang_ups_def redial_first_def install_def)
qed (simp add: hang_ups_def after_hang_ups_def redial_first_def)

text \<open>
  C20: A connection the peer hung up is never closed. The read loop that ends on a read error
  closes the generation's signal and not its transport, and the supervisor replaces the generation:
  for every n there is a run with n hang-ups, each followed by a redial that succeeds, after which
  the channel is closed, everything has ended, and n connections are open.
\<close>

theorem hang_ups_leak:
  "\<exists>as c. run_steps (\<lambda>c a. redial_do a c) redial_first as = Some c \<and> finished c
     \<and> length (filter (\<lambda>a. a = HangUp) as) = n \<and> card (set (rc_opened c) - set (rc_shut c)) = n"
proof -
  let ?c = "(after_hang_ups n)\<lparr>rc_shut := [n], rc_closed := True, rc_sup := SGone\<rparr>"
  have "run_steps (\<lambda>c a. redial_do a c) redial_first (hang_ups n @ [CloseCall, SeeClose]) = Some ?c"
    by (simp add: run_steps_append hang_ups_run) (simp add: after_hang_ups_def redial_first_def shut_def)
  moreover have "length (filter (\<lambda>a. a = HangUp) (hang_ups n @ [CloseCall, SeeClose])) = n"
    by (induction n) (simp_all add: hang_ups_def)
  moreover have "finished ?c" by (simp add: finished_def after_hang_ups_def redial_first_def)
  moreover have "set (rc_opened ?c) - set (rc_shut ?c) = {0..<n}" by (auto simp: after_hang_ups_def)
  ultimately show ?thesis by (intro exI[of _ "hang_ups n @ [CloseCall, SeeClose]"] exI[of _ ?c]) simp
qed

text \<open>A schedule in which \<open>Close\<close> comes while a KCP dial is under way, and the session it opens is swept up.\<close>

definition close_in_dial :: "ract list" where
  "close_in_dial = [Beat, SeeDone, Wake, DialCheck, CloseCall, CancelCtx, TakeCtx, SleepClosed, DialOk 0 1, Sweep 0]"

text \<open>A schedule in which \<open>Close\<close> comes while a UDP dial resolves its address.\<close>

definition close_in_lookup :: "ract list" where
  "close_in_lookup = [Beat, SeeDone, Wake, DialCheck, CloseCall, CancelCtx]"


end
