(* ===== verification/SessionMessages.thy ===== *)
theory SessionMessages
  imports ClientSession "HOL-Library.Multiset"
begin

text \<open>
  The session's own requests on protobuf messages (\<open>client/session_message.go\<close>): looking up an
  operation's message types in the global registry, and setting fields by their agreed names through
  a message's descriptor. A message is its type, its descriptor and its string fields; the registry
  is a record of lookups. This instantiates the message parameter of \<open>ClientSession\<close>.
\<close>

section \<open>Descriptors, messages, registry\<close>

datatype field_kind = StringKind | OtherKind

record field_desc =
  fd_name :: string
  fd_json :: string
  fd_kind :: field_kind
  fd_list :: bool
  fd_map :: bool

record proto_message =
  pm_type :: string
  pm_fields :: "field_desc list"
  pm_strings :: "string \<Rightarrow> string"

text \<open>What a name of \<open>GlobalFiles\<close> stands for: a service with the input and output type of each method, or something else.\<close>

datatype descriptor = ServiceDescriptor "(string \<times> string \<times> string) list" | OtherDescriptor

record registry =
  rg_files :: "string \<Rightarrow> descriptor option"
  rg_types :: "string \<Rightarrow> field_desc list option"

definition new_message :: "registry \<Rightarrow> string \<Rightarrow> proto_message option" where
  "new_message reg ty =
     map_option (\<lambda>ds. \<lparr>pm_type = ty, pm_fields = ds, pm_strings = (\<lambda>_. [])\<rparr>) (rg_types reg ty)"

definition messageForOp :: "registry \<Rightarrow> string \<Rightarrow> bool \<Rightarrow> proto_message option" where
  "messageForOp reg op output =
     (case splitSessionOp op of
        None \<Rightarrow> None
      | Some (service, meth) \<Rightarrow>
          (case rg_files reg service of
             Some (ServiceDescriptor ms) \<Rightarrow>
               (case map_of ms meth of
                  None \<Rightarrow> None
                | Some (inp, outp) \<Rightarrow> new_message reg (if output then outp else inp))
           | _ \<Rightarrow> None))"

section \<open>Setting fields\<close>

definition sessionField :: "field_desc list \<Rightarrow> string \<Rightarrow> field_desc option" where
  "sessionField ds name =
     (case find (\<lambda>d. fd_name d = name) ds of
        Some d \<Rightarrow> Some d
      | None \<Rightarrow> find (\<lambda>d. fd_json d = jsonNameOf name) ds)"

definition set_field :: "string \<times> string \<Rightarrow> proto_message \<Rightarrow> proto_message" where
  "set_field f m =
     (case sessionField (pm_fields m) (fst f) of
        None \<Rightarrow> m
      | Some d \<Rightarrow>
          if fd_kind d \<noteq> StringKind \<or> fd_list d \<or> fd_map d then m
          else m\<lparr>pm_strings := (pm_strings m)(fd_name d := snd f)\<rparr>)"

text \<open>Go visits the map of fields in any order; the list is that order.\<close>

definition setSessionFields :: "proto_message \<Rightarrow> (string \<times> string) list \<Rightarrow> proto_message" where
  "setSessionFields m fs = fold set_field fs m"

text \<open>The environment of a session over a registry; \<open>invoke\<close> is the client's.\<close>

definition proto_env ::
  "registry \<Rightarrow> (nat \<Rightarrow> string \<Rightarrow> proto_message request \<Rightarrow> err + proto_message) \<Rightarrow> proto_message session_env" where
  "proto_env reg call =
     \<lparr>se_registered = (\<lambda>service meth output.
        case rg_files reg service of
          Some (ServiceDescriptor ms) \<Rightarrow>
            (case map_of ms meth of
               None \<Rightarrow> False
             | Some (inp, outp) \<Rightarrow> rg_types reg (if output then outp else inp) \<noteq> None)
        | _ \<Rightarrow> False),
      se_message = (\<lambda>op fs. setSessionFields (the (messageForOp reg op False)) fs),
      se_set = setSessionFields, se_invoke = call\<rparr>"

lemma proto_env_registered: "sessionMessageForOp (proto_env reg call) op output \<longleftrightarrow> messageForOp reg op output \<noteq> None"
  by (auto simp: sessionMessageForOp_def messageForOp_def proto_env_def new_message_def split: option.splits descriptor.splits)

section \<open>Which field a name sets\<close>

definition target :: "field_desc list \<Rightarrow> string \<Rightarrow> string option" where
  "target ds name =
     (case sessionField ds name of
        None \<Rightarrow> None
      | Some d \<Rightarrow> if fd_kind d \<noteq> StringKind \<or> fd_list d \<or> fd_map d then None else Some (fd_name d))"

lemma set_field_eq:
  "set_field f m = (case target (pm_fields m) (fst f) of
     None \<Rightarrow> m | Some n \<Rightarrow> m\<lparr>pm_strings := (pm_strings m)(n := snd f)\<rparr>)"
  by (auto simp: set_field_def target_def split: option.split)

lemma set_field_desc [simp]: "pm_fields (set_field f m) = pm_fields m" "pm_type (set_field f m) = pm_type m"
  by (simp_all add: set_field_eq split: option.split)

lemma setSessionFields_desc [simp]:
  "pm_fields (setSessionFields m fs) = pm_fields m" "pm_type (setSessionFields m fs) = pm_type m"
  unfolding setSessionFields_def by (induction fs arbitrary: m) simp_all

text \<open>Names that lead to different fields.\<close>

definition separate :: "field_desc list \<Rightarrow> string set \<Rightarrow> bool" where
  "separate ds S \<longleftrightarrow> (\<forall>a \<in> S. \<forall>b \<in> S. target ds a = target ds b \<longrightarrow> target ds a = None \<or> a = b)"

definition apart :: "field_desc list \<Rightarrow> string list \<Rightarrow> bool" where
  "apart ds names \<longleftrightarrow> distinct names \<and> separate ds (set names)"

lemma apart_Cons:
  assumes "apart ds (a # names)"
  shows "apart ds names" and "b \<in> set names \<Longrightarrow> target ds a = Some n \<Longrightarrow> target ds b \<noteq> Some n"
proof -
  have s: "a \<notin> set names" "distinct names" "separate ds (insert a (set names))"
    using assms by (simp_all add: apart_def)
  show "apart ds names" using s(2,3) by (simp add: apart_def separate_def)
  show "target ds b \<noteq> Some n" if "b \<in> set names" "target ds a = Some n"
  proof
    assume "target ds b = Some n"
    then have "a = b" using s(3) that unfolding separate_def by (metis insertI1 insertI2 option.distinct(1))
    then show False using s(1) that(1) by simp
  qed
qed

lemma setSessionFields_strings:
  "apart (pm_fields m) (map fst fs) \<Longrightarrow> pm_strings (setSessionFields m fs) n =
    (case find (\<lambda>f. target (pm_fields m) (fst f) = Some n) fs of None \<Rightarrow> pm_strings m n | Some f \<Rightarrow> snd f)"
proof (induction fs arbitrary: m)
  case (Cons f fs)
  let ?d = "pm_fields m" and ?t = "target (pm_fields m)"
  have IH: "pm_strings (setSessionFields (set_field f m) fs) n =
    (case find (\<lambda>f. ?t (fst f) = Some n) fs of None \<Rightarrow> pm_strings (set_field f m) n | Some f \<Rightarrow> snd f)"
    using Cons.IH[of "set_field f m"] apart_Cons(1)[of _ "fst f"] Cons.prems by simp
  have step: "setSessionFields m (f # fs) = setSessionFields (set_field f m) fs" by (simp add: setSessionFields_def)
  show ?case
  proof (cases "?t (fst f) = Some n")
    case True
    then have "?t (fst g) \<noteq> Some n" if "g \<in> set fs" for g
      using apart_Cons(2)[of ?d "fst f" "map fst fs" "fst g" n] Cons.prems that by simp
    then have "find (\<lambda>f. ?t (fst f) = Some n) fs = None" unfolding find_None_iff by blast
    moreover have "pm_strings (set_field f m) n = snd f" using True by (simp add: set_field_eq)
    ultimately show ?thesis using True unfolding step IH by simp
  next
    case False
    then have "pm_strings (set_field f m) n = pm_strings m n" by (auto simp: set_field_eq split: option.split)
    then show ?thesis using False unfolding step IH by (simp split: option.split)
  qed
qed (simp add: setSessionFields_def)

text \<open>Go may visit the fields in any order.\<close>

lemma setSessionFields_order:
  assumes "apart (pm_fields m) (map fst fs)" and "mset fs' = mset fs"
  shows "setSessionFields m fs' = setSessionFields m fs"
proof -
  let ?t = "target (pm_fields m)"
  have "mset (map fst fs') = mset (map fst fs)" using assms(2) by simp
  then have "distinct (map fst fs') = distinct (map fst fs)" "set (map fst fs') = set (map fst fs)"
    by (rule mset_eq_imp_distinct_iff, rule mset_eq_setD)
  then have a': "apart (pm_fields m) (map fst fs')" using assms(1) by (simp add: apart_def)
  have sets: "set fs' = set fs" using assms(2) by (rule mset_eq_setD)
  have "pm_strings (setSessionFields m fs') n = pm_strings (setSessionFields m fs) n" for n
  proof (cases "\<exists>f \<in> set fs. ?t (fst f) = Some n")
    case False
    then have "find (\<lambda>f. ?t (fst f) = Some n) fs = None" "find (\<lambda>f. ?t (fst f) = Some n) fs' = None"
      using sets by (auto simp: find_None_iff)
    then show ?thesis unfolding setSessionFields_strings[OF assms(1)] setSessionFields_strings[OF a'] by simp
  next
    case True
    then obtain f where f: "f \<in> set fs" "?t (fst f) = Some n" by blast
    have one: "g = f" if "g \<in> set fs" "?t (fst g) = Some n" for g
    proof -
      have "separate (pm_fields m) (fst ` set fs)" using assms(1) by (simp add: apart_def)
      then have "fst g = fst f" using f that unfolding separate_def by (metis imageI option.distinct(1))
      moreover have "inj_on fst (set fs)" using assms(1) by (simp add: apart_def distinct_map)
      ultimately show ?thesis using f(1) that(1) by (simp add: inj_on_def)
    qed
    have "find (\<lambda>f. ?t (fst f) = Some n) xs = Some f" if "set xs = set fs" for xs
    proof (cases "find (\<lambda>f. ?t (fst f) = Some n) xs")
      case None
      then have "\<not> (\<exists>x. x \<in> set xs \<and> ?t (fst x) = Some n)" by (simp add: find_None_iff)
      then show ?thesis using f that by blast
    next
      case (Some g)
      then have "g \<in> set xs" "?t (fst g) = Some n" by (auto simp: find_Some_iff)
      then show ?thesis using one that Some by simp
    qed
    then have "find (\<lambda>f. ?t (fst f) = Some n) fs' = find (\<lambda>f. ?t (fst f) = Some n) fs" using sets by simp
    then show ?thesis unfolding setSessionFields_strings[OF assms(1)] setSessionFields_strings[OF a'] by simp
  qed
  then show ?thesis by (intro proto_message.equality) (auto simp: fun_eq_iff)
qed

section \<open>The agreed names\<close>

text \<open>A descriptor as \<open>protoc\<close> makes it: names differ, and the JSON name is the one derived from the name.\<close>

definition conformant :: "field_desc list \<Rightarrow> bool" where
  "conformant ds \<longleftrightarrow> distinct (map fd_name ds) \<and> list_all (\<lambda>d. fd_json d = jsonNameOf (fd_name d)) ds"

lemma sessionField_json:
  assumes "conformant ds" and "sessionField ds name = Some d"
  shows "d \<in> set ds \<and> jsonNameOf (fd_name d) = jsonNameOf name"
  using assms by (auto simp: sessionField_def conformant_def list_all_iff find_Some_iff split: option.splits)

lemma target_json: "conformant ds \<Longrightarrow> target ds name = Some n \<Longrightarrow> jsonNameOf n = jsonNameOf name"
  using sessionField_json by (auto simp: target_def split: option.splits if_splits)

lemma agreed_names_json:
  "jsonNameOf sessionFieldToken = ''token''" "jsonNameOf sessionFieldPlayerID = ''playerId''"
  "jsonNameOf sessionFieldClientVersion = ''clientVersion''"
  by code_simp+

lemma agreed_apart:
  assumes "conformant ds"
  shows "apart ds [sessionFieldToken, sessionFieldPlayerID, sessionFieldClientVersion]"
proof -
  have t: "target ds a = None" if "target ds a = target ds b" "jsonNameOf a \<noteq> jsonNameOf b" for a b
  proof (rule ccontr)
    assume "target ds a \<noteq> None"
    then obtain n where "target ds a = Some n" by blast
    with that show False using target_json[OF assms, of a n] target_json[OF assms, of b n] by simp
  qed
  let ?S = "[sessionFieldToken, sessionFieldPlayerID, sessionFieldClientVersion]"
  have "target ds a = None \<or> a = b" if "a \<in> set ?S" "b \<in> set ?S" "target ds a = target ds b" for a b
  proof (cases "a = b")
    case False
    then have "jsonNameOf a \<noteq> jsonNameOf b" using that(1,2) by (elim set_ConsD[elim_format] disjE) (simp_all add: agreed_names_json)
    then show ?thesis using t[OF that(3)] by blast
  qed (rule disjI2)
  moreover have "distinct ?S" by (simp add: field_consts)
  ultimately show ?thesis by (simp add: apart_def separate_def)
qed

section \<open>What the session sends\<close>

abbreviation resume_fields :: "string \<Rightarrow> string \<Rightarrow> (string \<times> string) list" where
  "resume_fields token playerID \<equiv>
     [(sessionFieldToken, token), (sessionFieldPlayerID, playerID), (sessionFieldClientVersion, ClientVersion)]"

lemma resume_strings:
  assumes "conformant (pm_fields m)"
  shows "pm_strings (setSessionFields m (resume_fields token playerID)) n =
    (if target (pm_fields m) sessionFieldToken = Some n then token
     else if target (pm_fields m) sessionFieldPlayerID = Some n then playerID
     else if target (pm_fields m) sessionFieldClientVersion = Some n then ClientVersion
     else pm_strings m n)"
  using setSessionFields_strings[of m "resume_fields token playerID" n] agreed_apart[OF assms] by simp

lemma invokes:
  assumes "ready s = Inr p" and "messageForOp reg op True \<noteq> None"
  shows "\<exists>r. invokeSession (proto_env reg call) op req s = (r, [(op, req)])"
  using assms by (auto simp: invokeSession_def session_invoke_def proto_env_registered ready_Inr)

lemma restoreWith_sends:
  assumes "ready s = Inr p" and "messageForOp reg (op_resume (sp_Ops p)) True \<noteq> None"
  shows "snd (snd (restoreWith (proto_env reg call) token playerID s)) =
    [(op_resume (sp_Ops p), newSessionRequest (proto_env reg call) (op_resume (sp_Ops p)) (resume_fields token playerID))]"
proof -
  let ?e = "proto_env reg call" and ?op = "op_resume (sp_Ops p)"
  obtain r where "invokeSession ?e ?op (newSessionRequest ?e ?op (resume_fields token playerID)) s =
      (r, [(?op, newSessionRequest ?e ?op (resume_fields token playerID))])"
    using invokes[OF assms] by blast
  then show ?thesis using assms(1) by (simp add: restoreWith_def Let_def split: sum.split)
qed

text \<open>
  A request to resume with a token and a player. Of a registered input type it is a fresh message, in which
  the fields found by the agreed names have the token, the player and the client version and no
  other field is touched, in whatever order Go visits the three; else it is the map with the JSON names.
\<close>

definition resumes_with :: "registry \<Rightarrow> string \<Rightarrow> string \<Rightarrow> string \<Rightarrow> proto_message request \<Rightarrow> bool" where
  "resumes_with reg op token playerID req \<longleftrightarrow>
     (case messageForOp reg op False of
        None \<Rightarrow> req = MapRequest [(''token'', token), (''playerId'', playerID), (''clientVersion'', ClientVersion)]
      | Some m0 \<Rightarrow> \<exists>m. req = MsgRequest m \<and> pm_type m = pm_type m0 \<and>
          (conformant (pm_fields m0) \<longrightarrow>
            (\<forall>n. pm_strings m n =
              (if target (pm_fields m0) sessionFieldToken = Some n then token
               else if target (pm_fields m0) sessionFieldPlayerID = Some n then playerID
               else if target (pm_fields m0) sessionFieldClientVersion = Some n then ClientVersion
               else pm_strings m0 n))
            \<and> (\<forall>fs. mset fs = mset (resume_fields token playerID) \<longrightarrow> setSessionFields m0 fs = m)))"

lemma newSessionRequest_resumes:
  "resumes_with reg op token playerID (newSessionRequest (proto_env reg call) op (resume_fields token playerID))"
proof -
  have "newSessionRequest (proto_env reg call) op (resume_fields token playerID) =
    (case messageForOp reg op False of
       None \<Rightarrow> MapRequest [(''token'', token), (''playerId'', playerID), (''clientVersion'', ClientVersion)]
     | Some m0 \<Rightarrow> MsgRequest (setSessionFields m0 (resume_fields token playerID)))"
    using proto_env_registered[of reg call op False]
    by (auto simp: newSessionRequest_def agreed_names_json proto_env_def split: option.split)
  then show ?thesis
    using resume_strings setSessionFields_order agreed_apart by (auto simp: resumes_with_def split: option.split)
qed

lemma applyClientVersion_only:
  "\<exists>m. applyClientVersion (proto_env reg call) (MsgRequest m1) = MsgRequest m \<and>
     (case target (pm_fields m1) sessionFieldClientVersion of
        None \<Rightarrow> m = m1 | Some n \<Rightarrow> m = m1\<lparr>pm_strings := (pm_strings m1)(n := ClientVersion)\<rparr>)"
  by (auto simp: applyClientVersion_def proto_env_def setSessionFields_def set_field_eq split: option.split)

lemma newSessionRequest_empty:
  "newSessionRequest (proto_env reg call) op [] = (case messageForOp reg op False of None \<Rightarrow> NilRequest | Some m0 \<Rightarrow> MsgRequest m0)"
  using proto_env_registered[of reg call op False]
  by (auto simp: newSessionRequest_def proto_env_def setSessionFields_def split: option.split)


text \<open>A registry whose resume request has the player under its JSON name only, and no version field.\<close>

definition string_field :: "string \<Rightarrow> field_desc" where
  "string_field n = \<lparr>fd_name = n, fd_json = jsonNameOf n, fd_kind = StringKind, fd_list = False, fd_map = False\<rparr>"

definition demo_registry :: registry where
  "demo_registry =
     \<lparr>rg_files = [''g.S'' \<mapsto> ServiceDescriptor
        [(''Resume'', ''g.ResumeReq'', ''g.Reply''), (''Login'', ''g.ResumeReq'', ''g.Reply''),
         (''Register'', ''g.ResumeReq'', ''g.Reply''), (''Heartbeat'', ''g.ResumeReq'', ''g.Reply'')]],
      rg_types = [''g.ResumeReq'' \<mapsto> [string_field ''token'', string_field ''playerId''], ''g.Reply'' \<mapsto> []]\<rparr>"

definition demo_manager :: "proto_message Session" where
  "demo_manager = (new_session 1 (Some \<lparr>sp_Ops = demo_ops, sp_Token = (\<lambda>m. pm_strings m ''token''),
     sp_PlayerID = (\<lambda>m. pm_strings m ''player_id''), sp_Kicked = \<lambda>_. None\<rparr>))\<lparr>ss_cli := Some 0, ss_token := ''t0'', ss_playerID := ''p0''\<rparr>"


end
