(* ===== verification/NetWatch.thy ===== *)
theory NetWatch
  imports NetWatchdog
begin

text \<open>
  The watching of the network as goroutines: the poller of the local addresses (\<open>newPollWatcher\<close>,
  \<open>run\<close>, \<open>Close\<close> in \<open>direct/netwatch.go\<close>), the goroutine of \<open>startWatcher\<close>
  (\<open>direct/netmigrate_switch.go\<close>) that turns its signals into switch requests, and the end of both.
  The addresses of the machine are what the network shows at each moment.
\<close>

section \<open>The watcher and its two goroutines\<close>

datatype poll_at = PStart | PWait | PGone
datatype fwd_at = FWait | FGot | FGone

text \<open>
  \<open>w_own\<close>: the connection made its own poller, no watcher was injected. \<open>w_buf\<close>: a signal waits in
  the channel of capacity one. \<open>w_stop\<close>: the poller's stop channel is closed. \<open>w_closeCh\<close>: the
  connection's is.
\<close>

record wconf =
  w_own :: bool
  w_addrs :: "err + string list"
  w_prev :: string
  w_buf :: bool
  w_stop :: bool
  w_closeCh :: bool
  w_poll :: poll_at
  w_fwd :: fwd_at
  w_conn :: flowConn

text \<open>The watcher a connection makes for itself; its period only paces the ticks.\<close>

definition newPollWatcher :: "wconf \<Rightarrow> wconf" where
  "newPollWatcher c = c\<lparr>w_own := True, w_buf := False, w_stop := False, w_poll := PStart\<rparr>"

definition startWatcher :: "bool \<Rightarrow> err + string list \<Rightarrow> flowConn \<Rightarrow> wconf" where
  "startWatcher own addrs f =
     (let c = \<lparr>w_own = False, w_addrs = addrs, w_prev = [], w_buf = False, w_stop = False, w_closeCh = False,
        w_poll = PGone, w_fwd = FWait, w_conn = f\<rparr>
      in if own then newPollWatcher c else c)"

text \<open>\<open>run\<close>: the first set, a tick, the stop; and \<open>Close\<close>, which is idempotent.\<close>

definition poll_begin :: "wconf \<Rightarrow> wconf" where
  "poll_begin c = c\<lparr>w_poll := PWait, w_prev := localAddrSet (w_addrs c)\<rparr>"

definition poll_again :: "wconf \<Rightarrow> wconf" where
  "poll_again c = (let (p, b) = poll_tick (w_addrs c) (w_prev c, w_buf c) in c\<lparr>w_prev := p, w_buf := b\<rparr>)"

definition watcher_Close :: "wconf \<Rightarrow> wconf" where "watcher_Close c = (if w_stop c then c else c\<lparr>w_stop := True\<rparr>)"

text \<open>
  \<open>Addrs\<close>: the machine's addresses change. \<open>PollBegin\<close>, \<open>PollTick\<close>, \<open>PollStop\<close>: the poller.
  \<open>FwdTake\<close>, \<open>FwdRequest\<close>, \<open>FwdClose\<close>: the forwarder; \<open>Injected\<close> and \<open>InjectedEnd\<close> are a signal of
  an injected watcher and the closing of its channel. \<open>CloseFlow\<close> and \<open>CloseWatch\<close>: \<open>Close\<close> up to
  the socket, and the closing of the poller. \<open>Other\<close>: anything else that happens to an open connection.
\<close>

datatype wact =
    Addrs "err + string list" | PollBegin | PollTick | PollStop
  | FwdTake | FwdRequest | FwdClose | Injected | InjectedEnd | CloseFlow | CloseWatch | Other flowConn

fun watch_do :: "wact \<Rightarrow> wconf \<Rightarrow> wconf option" where
  "watch_do (Addrs a) c = Some (c\<lparr>w_addrs := a\<rparr>)"
| "watch_do PollBegin c = (if w_poll c = PStart then Some (poll_begin c) else None)"
| "watch_do PollTick c = (if w_poll c = PWait then Some (poll_again c) else None)"
| "watch_do PollStop c = (if w_poll c = PWait \<and> w_stop c then Some (c\<lparr>w_poll := PGone\<rparr>) else None)"
| "watch_do FwdTake c =
     (if w_fwd c = FWait \<and> w_buf c then Some (c\<lparr>w_fwd := FGot, w_buf := False\<rparr>) else None)"
| "watch_do FwdRequest c =
     (if w_fwd c = FGot then Some (c\<lparr>w_fwd := FWait, w_conn := requestSwitch SwitchNetworkEvent (w_conn c)\<rparr>) else None)"
| "watch_do FwdClose c = (if w_fwd c = FWait \<and> w_closeCh c then Some (c\<lparr>w_fwd := FGone\<rparr>) else None)"
| "watch_do Injected c = (if \<not> w_own c \<and> w_fwd c = FWait then Some (c\<lparr>w_fwd := FGot\<rparr>) else None)"
| "watch_do InjectedEnd c = (if \<not> w_own c \<and> w_fwd c = FWait then Some (c\<lparr>w_fwd := FGone\<rparr>) else None)"
| "watch_do CloseFlow c =
     (if w_closeCh c then None else Some (c\<lparr>w_conn := flow_Close (w_conn c), w_closeCh := True\<rparr>))"
| "watch_do CloseWatch c = (if w_closeCh c \<and> w_own c then Some (watcher_Close c) else None)"
| "watch_do (Other f) c = (if fp_closed (w_conn c) \<longleftrightarrow> fp_closed f then Some (c\<lparr>w_conn := f\<rparr>) else None)"

inductive watch_step :: "wconf \<Rightarrow> wact \<Rightarrow> wconf \<Rightarrow> bool" where
  "watch_do a c = Some d \<Longrightarrow> watch_step c a d"

inductive_cases watch_stepE: "watch_step c a d"

definition wstart :: "wconf \<Rightarrow> bool" where
  "wstart c \<longleftrightarrow> (\<exists>own addrs f. \<not> fp_closed f \<and> c = startWatcher own addrs f)"

abbreviation watch_reach :: "wconf \<Rightarrow> bool" where
  "watch_reach \<equiv> reach wstart watch_step"

section \<open>No change is lost\<close>

definition watch_inv :: "wconf \<Rightarrow> bool" where
  "watch_inv c \<longleftrightarrow> (w_buf c \<longrightarrow> w_own c) \<and> (w_poll c \<noteq> PGone \<longrightarrow> w_own c)
     \<and> (fp_closed (w_conn c) \<longleftrightarrow> w_closeCh c) \<and> (w_poll c = PStart \<longrightarrow> \<not> w_buf c)
     \<and> (w_fwd c = FGone \<longrightarrow> w_closeCh c \<or> \<not> w_own c)"

lemma flow_Close_closed [simp]: "fp_closed (flow_Close f)"
  by (simp add: flow_Close_def close_flag_def close_sock_def Let_def)

lemma requestSwitch_closed [simp]: "fp_closed (requestSwitch r f) = fp_closed f"
  by (auto simp: requestSwitch_def request_locked_def split: option.split)

interpretation watching: inductive_invariant wstart watch_step watch_inv
proof
  show "wstart c \<Longrightarrow> watch_inv c" for c
    by (auto simp: wstart_def startWatcher_def newPollWatcher_def watch_inv_def Let_def split: if_splits)
  have "watch_inv d" if "watch_do a c = Some d" "watch_inv c" for a c d
  proof (cases a)
    case PollTick
    then show ?thesis using that
      by (cases "localAddrSet (w_addrs c) = w_prev c") (auto simp: watch_inv_def poll_tick_def poll_again_def split: if_splits)
  qed (use that in \<open>clarsimp simp: watch_inv_def poll_begin_def watcher_Close_def Let_def split: if_splits\<close>)+
  then show "watch_inv d" if "watch_inv c" "watch_step c a d" for c a d
    using that by (elim watch_stepE) blast
qed

abbreviation watch_run :: "wconf \<Rightarrow> wact list \<Rightarrow> wconf option" where
  "watch_run \<equiv> run_steps (\<lambda>c a. watch_do a c)"

text \<open>A signal that waits in the channel, or that the forwarder holds, leaves only with a request.\<close>

definition signalled :: "wconf \<Rightarrow> bool" where "signalled c \<longleftrightarrow> w_buf c \<or> w_fwd c = FGot"

lemma signalled_step: "watch_do a c = Some d \<Longrightarrow> a \<noteq> FwdRequest \<Longrightarrow> signalled c \<Longrightarrow> signalled d"
  by (cases a) (auto simp: signalled_def poll_begin_def poll_again_def poll_tick_def watcher_Close_def Let_def split: if_splits)

lemma signal_requests:
  "watch_run c as = Some d \<Longrightarrow> signalled c \<Longrightarrow> \<not> signalled d \<Longrightarrow>
     \<exists>before later e f. as = before @ FwdRequest # later \<and> watch_run c before = Some e \<and> watch_do FwdRequest e = Some f
       \<and> watch_run f later = Some d \<and> w_conn f = requestSwitch SwitchNetworkEvent (w_conn e)"
proof (induction as arbitrary: c)
  case (Cons a as)
  then obtain c' where c': "watch_do a c = Some c'" "watch_run c' as = Some d" by (auto split: option.splits)
  show ?case
  proof (cases "a = FwdRequest")
    case True
    then show ?thesis using c' by (intro exI[of _ "[]"] exI[of _ as]) (auto split: if_splits)
  next
    case False
    then obtain before later e f where "as = before @ FwdRequest # later" "watch_run c' before = Some e"
        "watch_do FwdRequest e = Some f" "watch_run f later = Some d" "w_conn f = requestSwitch SwitchNetworkEvent (w_conn e)"
      using Cons.IH[OF c'(2)] signalled_step[OF c'(1)] Cons.prems by blast
    then show ?thesis using c'(1) by (intro exI[of _ "a # before"] exI[of _ later]) auto
  qed
qed simp

text \<open>The steps that bring an open connection up to date with the addresses as they are now.\<close>

definition notice_path :: "wconf \<Rightarrow> wact list" where
  "notice_path c =
     (if w_fwd c = FGot then [FwdRequest] else []) @ [PollTick]
     @ (if w_buf c \<or> localAddrSet (w_addrs c) \<noteq> w_prev c then [FwdTake, FwdRequest] else [])"

lemma notice_path_runs:
  assumes "w_poll c = PWait" and "w_fwd c \<noteq> FGone"
  shows "\<exists>d. watch_run c (notice_path c) = Some d \<and> w_prev d = localAddrSet (w_addrs c) \<and> \<not> signalled d
    \<and> w_conn d = (requestSwitch SwitchNetworkEvent ^^ ((if w_fwd c = FGot then 1 else 0)
         + (if w_buf c \<or> localAddrSet (w_addrs c) \<noteq> w_prev c then 1 else 0))) (w_conn c)"
  using assms
  by (cases "w_fwd c") (auto simp: notice_path_def poll_again_def poll_tick_def signalled_def Let_def)

lemma requestSwitch_lastSwitchAt [simp]: "fp_lastSwitchAt (requestSwitch r f) = fp_lastSwitchAt f"
  by (simp add: requestSwitch_def request_locked_def)

text \<open>A request starts a switch, or marks the one that runs, or comes too soon after the last.\<close>

lemma request_takes_effect:
  assumes "\<not> fp_closed f"
  shows "fp_switching (requestSwitch r f) \<and> fp_pending (requestSwitch r f) \<or>
    requestSwitch r f = f \<and> (\<exists>t. fp_lastSwitchAt f = Some t \<and> Sub_time (fp_clock f) t < l_RetryBase (fp_limits f))"
  using assms by (auto simp: requestSwitch_def request_locked_def split: option.split)

text \<open>
  C33: In every interleaving of address changes, ticks, signals, requests and \<open>Close\<close>: a tick that sees another
  set of addresses than the last remembers it and leaves a signal; a signal leaves the channel and the forwarder
  only by a switch request on the connection. As long as the connection is open, a tick and at most three more
  steps remember the machine's present addresses with no signal left, and a change has then asked for a switch:
  one runs, unless the last ended less than the retry base ago. After \<open>Close\<close> a
  request changes nothing and both goroutines end within five steps.
\<close>

theorem address_changes_noticed:
  assumes "watch_reach c"
  shows "(watch_do PollTick c = Some d \<longrightarrow> w_prev d = localAddrSet (w_addrs c)
       \<and> (w_buf d \<longleftrightarrow> w_buf c \<or> localAddrSet (w_addrs c) \<noteq> w_prev c))
    \<and> (w_buf c \<and> watch_run c as = Some d \<and> \<not> w_buf d \<and> w_fwd d \<noteq> FGot \<longrightarrow>
        (\<exists>before later e f. as = before @ FwdRequest # later \<and> watch_run c before = Some e \<and> watch_do FwdRequest e = Some f
           \<and> watch_run f later = Some d \<and> w_conn f = requestSwitch SwitchNetworkEvent (w_conn e)))
    \<and> (w_own c \<and> w_poll c = PWait \<and> \<not> w_closeCh c \<longrightarrow>
        (\<exists>path e. watch_run c path = Some e \<and> length path \<le> 4 \<and> w_prev e = localAddrSet (w_addrs c)
           \<and> \<not> w_buf e \<and> w_fwd e \<noteq> FGot
           \<and> (localAddrSet (w_addrs c) \<noteq> w_prev c \<longrightarrow>
                fp_switching (w_conn e) \<and> fp_pending (w_conn e)
                \<or> (\<exists>t. fp_lastSwitchAt (w_conn c) = Some t
                       \<and> Sub_time (fp_clock (w_conn c)) t < l_RetryBase (fp_limits (w_conn c))))))
    \<and> (w_closeCh c \<longrightarrow> (watch_do FwdRequest c = Some d \<longrightarrow> w_conn d = w_conn c)
        \<and> (\<exists>path e. watch_run c path = Some e \<and> length path \<le> 5 \<and> w_fwd e = FGone \<and> w_poll e = PGone))"
proof (intro conjI impI)
  have inv: "watch_inv c" by (rule watching.reach_inv[OF assms])
  show "w_prev d = localAddrSet (w_addrs c)" "w_buf d \<longleftrightarrow> w_buf c \<or> localAddrSet (w_addrs c) \<noteq> w_prev c"
    if "watch_do PollTick c = Some d"
    using that by (auto simp: poll_again_def poll_tick_def Let_def split: if_splits)
  show "\<exists>before later e f. as = before @ FwdRequest # later \<and> watch_run c before = Some e \<and> watch_do FwdRequest e = Some f
      \<and> watch_run f later = Some d \<and> w_conn f = requestSwitch SwitchNetworkEvent (w_conn e)"
    if "w_buf c \<and> watch_run c as = Some d \<and> \<not> w_buf d \<and> w_fwd d \<noteq> FGot"
    using that by (intro signal_requests) (simp_all add: signalled_def)
  show "\<exists>path e. watch_run c path = Some e \<and> length path \<le> 4 \<and> w_prev e = localAddrSet (w_addrs c) \<and> \<not> w_buf e
      \<and> w_fwd e \<noteq> FGot \<and> (localAddrSet (w_addrs c) \<noteq> w_prev c \<longrightarrow> fp_switching (w_conn e) \<and> fp_pending (w_conn e)
        \<or> (\<exists>t. fp_lastSwitchAt (w_conn c) = Some t \<and> Sub_time (fp_clock (w_conn c)) t < l_RetryBase (fp_limits (w_conn c))))"
    if o: "w_own c \<and> w_poll c = PWait \<and> \<not> w_closeCh c"
  proof -
    let ?ask = "requestSwitch SwitchNetworkEvent"
    have "w_fwd c \<noteq> FGone" using inv o by (auto simp: watch_inv_def)
    then obtain e where e: "watch_run c (notice_path c) = Some e" "w_prev e = localAddrSet (w_addrs c)" "\<not> signalled e"
        "w_conn e = (?ask ^^ ((if w_fwd c = FGot then 1 else 0)
          + (if w_buf c \<or> localAddrSet (w_addrs c) \<noteq> w_prev c then 1 else 0))) (w_conn c)"
      using notice_path_runs o by blast
    have "\<not> fp_closed (w_conn c)" using inv o by (simp add: watch_inv_def)
    then have effect: "fp_switching (?ask f) \<and> fp_pending (?ask f)
        \<or> (\<exists>t. fp_lastSwitchAt (w_conn c) = Some t \<and> Sub_time (fp_clock (w_conn c)) t < l_RetryBase (fp_limits (w_conn c)))"
      if "f = w_conn c \<or> f = ?ask (w_conn c)" for f
      using that request_takes_effect[of f SwitchNetworkEvent] by auto
    have "length (notice_path c) \<le> 4" by (simp add: notice_path_def)
    moreover have "localAddrSet (w_addrs c) \<noteq> w_prev c \<longrightarrow> w_conn e = ?ask (w_conn c) \<or> w_conn e = ?ask (?ask (w_conn c))"
      using e(4) by (simp add: numeral_2_eq_2)
    ultimately show ?thesis using e effect by (intro exI[of _ "notice_path c"] exI[of _ e]) (auto simp: signalled_def)
  qed
  show "w_conn d = w_conn c" if "w_closeCh c" "watch_do FwdRequest c = Some d"
    using that inv by (auto simp: watch_inv_def requestSwitch_def split: if_splits)
  show "\<exists>path e. watch_run c path = Some e \<and> length path \<le> 5 \<and> w_fwd e = FGone \<and> w_poll e = PGone" if cl: "w_closeCh c"
  proof -
    let ?as = "(if w_own c \<and> \<not> w_stop c then [CloseWatch] else []) @ (if w_poll c = PStart then [PollBegin] else [])
      @ (if w_poll c = PGone then [] else [PollStop])
      @ (case w_fwd c of FGot \<Rightarrow> [FwdRequest, FwdClose] | FWait \<Rightarrow> [FwdClose] | FGone \<Rightarrow> [])"
    have "w_poll c = PGone \<or> w_own c" using inv by (auto simp: watch_inv_def)
    then have "\<exists>d. watch_run c ?as = Some d \<and> w_fwd d = FGone \<and> w_poll d = PGone"
      using cl by (cases "w_poll c"; cases "w_fwd c") (auto simp: poll_begin_def watcher_Close_def Let_def)
    moreover have "length ?as \<le> 5" by (simp split: fwd_at.split)
    ultimately show ?thesis by blast
  qed
qed

text \<open>A first connection, an address that goes away, and what the program then does.\<close>

definition roam :: "wact list" where
  "roam = [PollBegin, Addrs (Inr [''10.0.0.2/24''])]"

theorem address_changes_noticed_witness:
  "\<exists>c path e. watch_reach c \<and> watch_run c path = Some e \<and> w_prev c = [] \<and> w_prev e = ''10.0.0.2/24''
     \<and> \<not> fp_switching (w_conn c) \<and> fp_switching (w_conn e)"
proof -
  let ?s = "startWatcher True (Inl (Msg ''none'')) demo_conn"
  obtain c where c: "watch_run ?s roam = Some c" "w_prev c = []" "w_addrs c = Inr [''10.0.0.2/24'']" "w_conn c = demo_conn"
    "w_own c \<and> w_poll c = PWait \<and> \<not> w_closeCh c"
    by (simp add: roam_def startWatcher_def newPollWatcher_def Let_def poll_begin_def localAddrSet_def)
  have "wstart ?s" unfolding wstart_def by (intro exI conjI) (rule demo_conn_eqs(1)[THEN eq_False[THEN iffD1]], rule refl)
  then have r: "watch_reach c"
    using reach_run_steps[of "\<lambda>c a. watch_do a c" watch_step wstart ?s roam c] c(1)
    by (auto intro: watch_step.intros reach_start)
  have l: "localAddrSet (w_addrs c) = ''10.0.0.2/24''" by (simp add: c(3) localAddrSet_def)
  from address_changes_noticed[OF r] c(5) obtain path e where
    "watch_run c path = Some e" "w_prev e = localAddrSet (w_addrs c)"
    "localAddrSet (w_addrs c) \<noteq> w_prev c \<longrightarrow> fp_switching (w_conn e) \<and> fp_pending (w_conn e)
       \<or> (\<exists>t. fp_lastSwitchAt (w_conn c) = Some t \<and> Sub_time (fp_clock (w_conn c)) t < l_RetryBase (fp_limits (w_conn c)))" by blast
  moreover have "\<not> fp_switching (w_conn c)" "fp_lastSwitchAt (w_conn c) = None" by (simp_all add: c(4))
  ultimately show ?thesis using r c(2) l by auto
qed

end
