(* ===== verification/DirectWire.thy ===== *)
theory DirectWire
  imports DirectRequests DirectDial Calls
begin

text \<open>
  A direct session's connections (\<open>conn\<close> of \<open>DirectDial\<close>: \<open>wsConn\<close>, \<open>kcpConn\<close>, \<open>udpConnWrap\<close> in \<open>direct/transport.go\<close>) and a
  request over them: what \<open>writeRequest\<close> sends (\<open>DirectInvoke\<close>) put through each connection, the battle
  server's parser, its reply, and the read loop that settles the request.
\<close>

section \<open>Connections (direct/transport.go)\<close>

definition wsConn_ReadFrame :: "int \<Rightarrow> err + bytes \<Rightarrow> (err + header \<times> bytes) option" where
  "wsConn_ReadFrame maxBodySize r = (case r of Inl x \<Rightarrow> Some (Inl x) | Inr msg \<Rightarrow> DecodeMessage msg maxBodySize)"

definition wsConn_WriteFrame :: "int \<Rightarrow> header \<times> bytes \<Rightarrow> (err + bytes) option" where
  "wsConn_WriteFrame maxBodySize f = Encode (fst f) (snd f) maxBodySize"

definition kcpConn_ReadFrame :: "reader \<Rightarrow> int \<Rightarrow> ((err + header \<times> bytes) \<times> reader) option" where
  "kcpConn_ReadFrame r maxBodySize = Read r maxBodySize"

definition kcpConn_WriteFrame :: "writer \<Rightarrow> header \<Rightarrow> bytes \<Rightarrow> int \<Rightarrow> (err option \<times> writer) option" where
  "kcpConn_WriteFrame w h body maxBodySize = Write (w\<lparr>gathers := False\<rparr>) h body maxBodySize"

fun dover :: "conn \<Rightarrow> header \<times> bytes \<Rightarrow> (err + header \<times> bytes) option" where
  "dover (WsConn _) f = over_message (wsConn_WriteFrame MaxBodySize f) (\<lambda>m. wsConn_ReadFrame MaxBodySize (Inr m))"
| "dover (KcpConn _) (h, b) = over_stream (kcpConn_WriteFrame fresh_writer h b MaxBodySize) (\<lambda>r. kcpConn_ReadFrame r MaxBodySize)"
| "dover (UdpConn _ i) f =
     over_message (direct_udp_WriteFrame i MaxBodySize f)
       (\<lambda>m. case direct_udp_ReadFrame i MaxBodySize [Inr m] of Returned r _ \<Rightarrow> Some r | _ \<Rightarrow> None)"

definition dfits :: "conn \<Rightarrow> bytes \<Rightarrow> bool" where
  "dfits c body \<longleftrightarrow> int (length body) \<le> MaxBodySize
     \<and> (case c of UdpConn _ _ \<Rightarrow> HeaderSize + length body + FlowIDLen \<le> direct_readBuf | _ \<Rightarrow> True)"

lemma dfits_fits: "dfits c body \<Longrightarrow> fits (TcpTransport 0) MaxBodySize body"
  by (simp add: dfits_def fits_def NormalizeMaxBodySize_def MaxBodySize_def)

lemma dover_frame:
  assumes "sendable h b MaxBodySize" and "dfits c b"
  shows "dover c (h, b) = Some (Inr (on_wire h b, b))"
proof (cases c)
  case WsConn
  then show ?thesis
    using Encode_sendable[OF assms(1)] by (auto simp: over_message_def wsConn_WriteFrame_def wsConn_ReadFrame_def)
next
  case KcpConn
  then show ?thesis using over_stream_frame[OF assms(1)] by (simp add: kcpConn_WriteFrame_def kcpConn_ReadFrame_def)
next
  case (UdpConn k i)
  then have "direct_carries MaxBodySize (h, b)" using assms by (simp add: direct_carries_def dfits_def)
  then obtain d where "direct_udp_WriteFrame i MaxBodySize (h, b) = Some (Inr d)"
    "direct_udp_ReadFrame i MaxBodySize [Inr d] = Returned (Inr (on_wire h b, b)) []"
    using dudp.delivers[where maxb = MaxBodySize and i = i and h = h and body = b and js = "[]" and ds = "[]"
        and skip = "\<lambda>x. x = wrap_sentinel ErrFlowIDMismatch"] unfolding direct_udp_ReadFrame_eq by auto
  then show ?thesis using UdpConn by (simp add: over_message_def)
qed

section \<open>The request\<close>

lemma direct_request_built:
  assumes "dinvoke_send e op req s = (DWaiting seq m, t)"
  shows "\<exists>g payload u body. ds_gen s = Some g \<and> marshal_direct e req = Inr payload \<and> newInflight s = (seq, m, u)
    \<and> BuildRequestBodyWithSession (bytes_of_string op) (bytes_of_string (TicketSlot (p_Ticket (ds_plan s)))) [] payload
        = Some (Inr body)
    \<and> t = u\<lparr>ds_wire := ds_wire s @ [(g, request_header s seq, body)]\<rparr>"
proof -
  obtain g payload u where g: "ds_gen s = Some g" "marshal_direct e req = Inr payload" "newInflight s = (seq, m, u)"
    "writeRequest e g seq op payload u = Some (None, t)"
    using assms by (auto simp: dinvoke_send_def split: option.splits sum.splits prod.splits)
  obtain r where r: "BuildRequestBodyWithSession (bytes_of_string op)
      (bytes_of_string (TicketSlot (p_Ticket (ds_plan u)))) [] payload = Some r"
    using g(4) by (auto simp: writeRequest_def bind_eq_Some_conv split: if_splits)
  then obtain body where "r = Inr body" "t = u\<lparr>ds_wire := ds_wire u @ [(g, request_header u seq, body)]\<rparr>"
    using g(4) by (cases r) (auto simp: writeRequest_def Let_def split: if_splits option.splits)
  moreover have "ds_plan u = ds_plan s" "ds_wire u = ds_wire s" "request_header u seq = request_header s seq"
    using g(3) by (auto simp: newInflight_def request_header_def Let_def)
  ultimately show ?thesis using g r by auto
qed

lemma built_parses:
  assumes "BuildRequestBodyWithSession op slot [] payload = Some (Inr body)" and "slot \<noteq> []"
  shows "ParseRequestBodyFull body FlagSession = Some (Inr (op, slot, [], payload))"
proof -
  have "body_ok op slot []"
    using BuildRequestBodyFull_bad[of op slot "[]" payload] assms(1)
    by (auto simp: BuildRequestBodyWithSession_def BuildRequestBodyFull_def)
  then obtain b where "BuildRequestBodyFull op slot [] payload = Some (Inr b)"
    "ParseRequestBodyFull b (body_flags slot []) = Some (Inr (op, slot, [], payload))" using body_round by blast
  then show ?thesis
    using assms by (simp add: BuildRequestBodyWithSession_def BuildRequestBodyFull_def body_flags_def)
qed

section \<open>Waiting through other frames\<close>

text \<open>Every box is used once, and the next one is free.\<close>

definition boxes_ok :: "dsession \<Rightarrow> bool" where
  "boxes_ok s \<longleftrightarrow> distinct (map fst (ds_inflight s)) \<and> distinct (map snd (ds_inflight s))
     \<and> snd ` set (ds_inflight s) \<union> fst ` set (ds_mail s) \<subseteq> {..<ds_next_box s}"

definition dpending :: "byte \<Rightarrow> u32 \<Rightarrow> nat \<Rightarrow> dsession \<Rightarrow> bool" where
  "dpending ver seq m s \<longleftrightarrow> ds_ver s = ver \<and> map_of (ds_inflight s) seq = Some m \<and> m \<notin> fst ` set (ds_mail s)
     \<and> distinct (map fst (ds_inflight s)) \<and> distinct (map snd (ds_inflight s))"

text \<open>Sound replies to other requests, and pushes that do not announce the end of the battle.\<close>

fun dharmless :: "byte \<Rightarrow> u32 \<Rightarrow> header \<times> bytes \<Rightarrow> bool" where
  "dharmless ver seq (hdr, body) =
     (hType hdr = MsgTypeResponse \<and> hVersion hdr = ver \<and> hSeq hdr \<noteq> seq \<and> (\<exists>r. DecodeReply body = Some (Inr r))
      \<or> hType hdr = MsgTypeNotify \<and> (\<forall>op payload. ParseRequestBody body = Some (Inr (op, payload)) \<longrightarrow>
           op \<noteq> bytes_of_string OpBattleEndNotify))"

lemma dpending_settle_other:
  assumes "dpending ver seq m s" and "key \<noteq> seq"
  shows "dpending ver seq m (settle_key key r s)"
proof (cases "map_of (ds_inflight s) key")
  case None
  then show ?thesis using assms(1) by (simp add: settle_key_def LoadAndDelete_def)
next
  case (Some m')
  have p: "map_of (ds_inflight s) seq = Some m" "distinct (map fst (ds_inflight s))" "distinct (map snd (ds_inflight s))"
    "m \<notin> fst ` set (ds_mail s)" "ds_ver s = ver"
    using assms(1) by (simp_all add: dpending_def)
  have "m' \<noteq> m"
  proof
    assume "m' = m"
    then have "(key, m) \<in> set (ds_inflight s)" "(seq, m) \<in> set (ds_inflight s)" using Some p(1) by (auto dest: map_of_SomeD)
    moreover have "inj_on snd (set (ds_inflight s))" using p(3) by (simp add: distinct_map)
    ultimately show False using inj_onD[of snd "set (ds_inflight s)" "(key, m)" "(seq, m)"] assms(2) by simp
  qed
  moreover have "distinct (map snd (AList.delete key (ds_inflight s)))" using distinct_snd_delete[of "ds_inflight s" "[]" key] p(3) by simp
  ultimately show ?thesis
    using p assms(2) Some by (auto simp del: map_of_eq_Some_iff simp: dpending_def settle_key_def LoadAndDelete_def dput_mail_def distinct_delete delete_conv')
qed

lemma dharmless_step:
  assumes "dharmless ver seq (hdr, body)" and "dpending ver seq m s" and "supportedVersion ver"
  shows "\<exists>t. dispatch_direct e hdr body s = Some (None, t) \<and> dpending ver seq m t"
proof (cases "hType hdr = MsgTypeNotify")
  case True
  obtain q where q: "ParseRequestBody body = Some q"
    using parseRequestBody_total[of body 0] by (auto simp: ParseRequestBody_def)
  have "dpending ver seq m (trackFrame e p s)" for p
    using assms(2) by (simp add: dpending_def trackFrame_def del: map_of_eq_Some_iff split: option.split)
  then show ?thesis
    using q True assms(1,2) msg_types
    by (cases q) (auto simp: dispatch_direct_def dispatchNotify_direct_def dpending_def Let_def simp del: map_of_eq_Some_iff)
next
  case False
  then obtain dat st where r: "hType hdr = MsgTypeResponse" "hVersion hdr = ver" "hSeq hdr \<noteq> seq" "DecodeReply body = Some (Inr (dat, st))"
    using assms(1) by auto
  moreover have "ds_ver s = ver" using assms(2) by (simp add: dpending_def)
  ultimately show ?thesis
    using dpending_settle_other[OF assms(2) r(3)] assms(3) by (simp add: dispatch_direct_def dispatchResponse_direct_def)
qed

lemma dharmless_frames:
  assumes "\<forall>f \<in> set noise. dharmless ver seq f" and "dpending ver seq m s" and "supportedVersion ver"
  shows "\<exists>t. dread_frames e g (noise @ fs) s = dread_frames e g fs t \<and> dpending ver seq m t"
  using assms(1,2)
proof (induction noise arbitrary: s)
  case (Cons f noise)
  obtain hdr body where f: "f = (hdr, body)" by (cases f)
  then have "dharmless ver seq (hdr, body)" using Cons.prems(1) by (metis list.set_intros(1))
  then obtain t where "dispatch_direct e hdr body s = Some (None, t)" "dpending ver seq m t"
    using dharmless_step[OF _ Cons.prems(2) assms(3)] by blast
  with Cons.IH[of t] Cons.prems(1) f show ?case by auto
qed auto

lemma await_settled:
  assumes "dpending ver seq m s" and "fate \<noteq> SessionClosed"
  shows "awaitReply e op seq m resp fate (settle_key seq r s) = Some (result e op r resp (settle_key seq r s))"
proof -
  have p: "map_of (ds_inflight s) seq = Some m" "m \<notin> fst ` set (ds_mail s)" "distinct (map fst (ds_inflight s))"
    using assms(1) by (simp_all add: dpending_def)
  note t = dtake_settled[OF p(1,2), of e op resp r]
  have "map_of (ds_inflight (settle_key seq r s)) seq = None"
    using p(1,3) by (simp add: settle_key_set dput_mail_def delete_conv')
  then show ?thesis
    using t assms(2) by (cases fate) (simp_all add: awaitReply_def dtimer_def abort_def LoadAndDelete_def)
qed

lemma result_error: "fst (result e op r resp s) = fst (result e op r resp t)"
  by (auto simp: result_def wrapBusiness_def Let_def split: option.split)

lemma boxes_pending:
  assumes "boxes_ok s" and "newInflight s = (seq, m, u)"
  shows "dpending (ds_ver s) seq m (u\<lparr>ds_wire := w\<rparr>)" and "seq \<noteq> 0"
proof -
  have u: "u = s\<lparr>ds_seq := seq, ds_next_box := Suc m, ds_inflight := AList.update seq m (ds_inflight s)\<rparr>" "m = ds_next_box s"
    using assms(2) by (auto simp: newInflight_def Store_def Let_def)
  have "m \<notin> snd ` set (ds_inflight s)" "m \<notin> fst ` set (ds_mail s)" using assms(1) u(2) by (auto simp: boxes_ok_def)
  moreover have "distinct (map snd (AList.update seq m (ds_inflight s)))"
    using assms(1) calculation(1) by (intro distinct_snd_update) (auto simp: boxes_ok_def)
  ultimately show "dpending (ds_ver s) seq m (u\<lparr>ds_wire := w\<rparr>)"
    using assms(1) unfolding u(1) by (simp add: dpending_def boxes_ok_def distinct_update update_conv' del: map_of_eq_Some_iff)
  show "seq \<noteq> 0" using assms(2) by (auto simp: newInflight_def Let_def split: if_split_asm)
qed

text \<open>
  C18: A battle request over the wire, over every connection. The battle server reads a request frame
  whose body parses to the caller's operation, the ticket in its slot, no request id, and the
  marshalled payload; the reply it sends under the version and sequence number it read is read by
  the session, and after any sound replies to other requests and any pushes but the end of the battle
  it decides the caller's error: none, an undecodable payload, or the rejection with its reason,
  whether the reply, the timer or the context comes first.
\<close>

theorem direct_call_over_the_wire:
  assumes "boxes_ok s" and "p_Ticket (ds_plan s) \<noteq> []" and "supportedVersion (ds_ver s)"
    and "dinvoke_send e op req s = (DWaiting seq m, t)"
    and "ds_wire t = ds_wire s @ [(g, hdr, body)]" and "dfits c body"
    and "dfits c reply" and "DecodeReply reply = Some (Inr (dat, st))"
    and "\<forall>f \<in> set noise. dharmless (ds_ver s) seq f" and "fate \<noteq> SessionClosed"
  shows "\<exists>payload q a u. marshal_direct e req = Inr payload
    \<and> dover c (hdr, body) = Some (Inr (q, body)) \<and> hType q = MsgTypeRequest
    \<and> ParseRequestBodyFull body (hFlags q) = Some (Inr (bytes_of_string op,
         bytes_of_string (TicketSlot (p_Ticket (ds_plan s))), [], payload))
    \<and> dover c (answer q, reply) = Some (Inr a)
    \<and> dinvoke e op req resp (noise @ [a]) fate s
        = Some (fst (result e op \<lparr>r_data = dat, r_st = st, r_err = None\<rparr> resp s), u)"
proof -
  obtain g' payload u body' where b: "ds_gen s = Some g'" "marshal_direct e req = Inr payload" "newInflight s = (seq, m, u)"
    "BuildRequestBodyWithSession (bytes_of_string op) (bytes_of_string (TicketSlot (p_Ticket (ds_plan s)))) [] payload
       = Some (Inr body')" "t = u\<lparr>ds_wire := ds_wire s @ [(g', request_header s seq, body')]\<rparr>"
    using direct_request_built[OF assms(4)] by blast
  have h: "hdr = request_header s seq" "body = body'" using assms(5) b(5) by auto
  note p = boxes_pending(1)[OF assms(1) b(3), of "ds_wire s @ [(g', request_header s seq, body')]", folded b(5)]
  note seq = boxes_pending(2)[OF assms(1) b(3)]
  have v: "IsPayloadVersion (ds_ver s)" "ds_ver s \<noteq> 0"
    using assms(3) by (auto simp: supportedVersion_def IsPayloadVersion_def PayloadVersions_def frame_consts)
  have "sendable hdr body MaxBodySize"
    using dfits_fits[OF assms(6)] v seq by (intro fits_sendable) (simp_all add: h(1) request_header_def reservedFlags_def FlagSession_def FlagRequestID_def)
  then have out: "dover c (hdr, body) = Some (Inr (on_wire hdr body, body))" using dover_frame assms(6) by blast
  let ?q = "on_wire hdr body"
  have q: "hType ?q = MsgTypeRequest" "hFlags ?q = FlagSession" "hSeq ?q = seq" "hVersion ?q = ds_ver s"
    using on_wire_keeps[of hdr body] v by (simp_all add: h(1) request_header_def)
  let ?a = "on_wire (answer ?q) reply"
  have a: "hType ?a = MsgTypeResponse" "hSeq ?a = seq" "hVersion ?a = ds_ver s"
    using on_wire_keeps[of "answer ?q" reply] q v by (simp_all add: answer_def)
  have answered: "dover c (answer ?q, reply) = Some (Inr (?a, reply))"
    using dover_frame assms(7) answer_sendable[OF dfits_fits[OF assms(7)], of ?q] q seq v by simp
  have parse: "ParseRequestBodyFull body FlagSession = Some (Inr (bytes_of_string op,
       bytes_of_string (TicketSlot (p_Ticket (ds_plan s))), [], payload))"
    using built_parses[OF b(4)] assms(2) h(2) by (simp add: TicketSlot_def RawURLEncode_Nil)
  obtain w where w: "dread_frames e (the (ds_gen t)) (noise @ [(?a, reply)]) t = dread_frames e (the (ds_gen t)) [(?a, reply)] w"
    "dpending (ds_ver s) seq m w" using dharmless_frames[OF assms(9) p assms(3)] by blast
  let ?r = "\<lparr>r_data = dat, r_st = st, r_err = None\<rparr>"
  have "dread_frames e (the (ds_gen t)) [(?a, reply)] w = Some (False, settle_key seq ?r w)"
    using a assms(3,8) w(2) by (simp add: dispatch_direct_def dispatchResponse_direct_def dpending_def)
  moreover obtain x y where "result e op ?r resp (settle_key seq ?r w) = (x, y)" by fastforce
  moreover have "x = fst (result e op ?r resp s)" using calculation(2) result_error by (metis fst_conv)
  ultimately have "dinvoke e op req resp (noise @ [(?a, reply)]) fate s
      = Some (fst (result e op ?r resp s), y\<lparr>ds_inflight := Delete seq (ds_inflight y)\<rparr>)"
    using assms(4) w(1) await_settled[OF w(2) assms(10), of e op resp ?r] by (simp add: dinvoke_def)
  then show ?thesis using b(2) out q(1,2) parse answered by auto
qed

text \<open>The probe of a fresh session over a flow, answered with an empty reply after a frame broadcast.\<close>

theorem direct_call_over_the_wire_witness:
  "\<exists>hdr body q a u. dover (UdpConn 0 5) (hdr, body) = Some (Inr (q, body))
     \<and> dover (UdpConn 0 5) (answer q, [0, 0, 0, 0, 0]) = Some (Inr a)
     \<and> dinvoke quiet_denv ''/p'' None False [a] (CtxIsDone (Msg ''late'')) demo_session = Some (None, u)"
proof -
  obtain t where t: "dinvoke_send quiet_denv ''/p'' None demo_session = (DWaiting 1 0, t)" using demo_send by blast
  have slot: "BuildRequestBodyWithSession (bytes_of_string ''/p'') (bytes_of_string (TicketSlot (p_Ticket demo_plan))) [] []
      = Some (Inr [0, 2, 47, 112, 0, 4, 65, 81, 73, 68])" by code_simp
  obtain g body where w: "ds_wire t = ds_wire demo_session @ [(g, request_header demo_session 1, body)]"
    and "BuildRequestBodyWithSession (bytes_of_string ''/p'') (bytes_of_string (TicketSlot (p_Ticket demo_plan))) [] []
      = Some (Inr body)"
    using direct_request_built[OF t] by (auto simp: marshal_direct_def)
  then have "length body = 10" using slot by auto
  then have f: "dfits (UdpConn 0 5) body" "dfits (UdpConn 0 5) [0, 0, 0, 0, 0]"
    by (simp_all add: dfits_def MaxBodySize_def HeaderSize_def FlowIDLen_def direct_readBuf_def)
  have ok: "boxes_ok demo_session" "p_Ticket (ds_plan demo_session) \<noteq> []" "supportedVersion (ds_ver demo_session)"
    by (simp_all add: boxes_ok_def demo_plan_def supportedVersion_def frame_consts(3))
  have r: "DecodeReply [0, 0, 0, 0, 0] = Some (Inr ([], None))"
    by (simp add: DecodeReply_def read_uint32_at_def uint32_be_def)
  show ?thesis
    using direct_call_over_the_wire[OF ok t w f r, of "[]" "CtxIsDone (Msg ''late'')" False]
    by (fastforce simp: result_def)
qed

end
