(* ===== verification/Serializers.thy ===== *)
theory Serializers
  imports Invoke
begin

text \<open>
  The three serializers (\<open>client/serializer.go\<close>, \<open>contrib/protobuf/serializer.go\<close>): which encoding a
  value takes and what a serializer refuses. The JSON, protojson and protobuf libraries are a
  record of their functions; a value is a protobuf message or something else.
\<close>

section \<open>Values and libraries\<close>

datatype 'm dto = Message 'm | Plain nat

text \<open>Decoding takes the value decoded into and returns what it holds then; \<open>zero_of\<close> is the zero value of a value's type.\<close>

record 'm codecs =
  protojson_Marshal :: "'m \<Rightarrow> err + bytes"
  protojson_Unmarshal :: "bytes \<Rightarrow> 'm \<Rightarrow> err + 'm"
  json_Marshal :: "'m dto \<Rightarrow> err + bytes"
  json_Unmarshal :: "bytes \<Rightarrow> 'm dto \<Rightarrow> err + 'm dto"
  proto_Marshal :: "'m \<Rightarrow> err + bytes"
  proto_Unmarshal :: "bytes \<Rightarrow> 'm \<Rightarrow> err + 'm"
  zero_of :: "'m dto \<Rightarrow> 'm dto"

datatype serializer_kind = ProtoJSONKind | JSONKind | ProtobufKind

definition ProtoJSON_Marshal :: "'m codecs \<Rightarrow> 'm dto \<Rightarrow> err + bytes" where
  "ProtoJSON_Marshal L v = (case v of Message m \<Rightarrow> protojson_Marshal L m | Plain _ \<Rightarrow> json_Marshal L v)"

definition ProtoJSON_Unmarshal :: "'m codecs \<Rightarrow> bytes \<Rightarrow> 'm dto \<Rightarrow> err + 'm dto" where
  "ProtoJSON_Unmarshal L dat v =
     (case v of Message m \<Rightarrow> map_sum id Message (protojson_Unmarshal L dat m) | Plain _ \<Rightarrow> json_Unmarshal L dat v)"

definition JSON_Marshal :: "'m codecs \<Rightarrow> 'm dto \<Rightarrow> err + bytes" where "JSON_Marshal L v = json_Marshal L v"

definition JSON_Unmarshal :: "'m codecs \<Rightarrow> bytes \<Rightarrow> 'm dto \<Rightarrow> err + 'm dto" where
  "JSON_Unmarshal L dat v = json_Unmarshal L dat v"

definition Protobuf_Marshal :: "'m codecs \<Rightarrow> 'm dto \<Rightarrow> err + bytes" where
  "Protobuf_Marshal L v =
     (case v of Message m \<Rightarrow> proto_Marshal L m | Plain _ \<Rightarrow> Inl (Msg ''protobuf: not a message''))"

definition Protobuf_Unmarshal :: "'m codecs \<Rightarrow> bytes \<Rightarrow> 'm dto \<Rightarrow> err + 'm dto" where
  "Protobuf_Unmarshal L dat v =
     (case v of
        Message m \<Rightarrow> map_sum id Message (proto_Unmarshal L dat m)
      | Plain _ \<Rightarrow> Inl (Msg ''protobuf: not a message''))"

definition Protobuf_Version :: byte where "Protobuf_Version = Version2"

text \<open>A serializer by its kind, and the version the client finds declared on it.\<close>

fun Marshal :: "'m codecs \<Rightarrow> serializer_kind \<Rightarrow> 'm dto \<Rightarrow> err + bytes" where
  "Marshal L ProtoJSONKind v = ProtoJSON_Marshal L v"
| "Marshal L JSONKind v = JSON_Marshal L v"
| "Marshal L ProtobufKind v = Protobuf_Marshal L v"

fun Unmarshal :: "'m codecs \<Rightarrow> serializer_kind \<Rightarrow> bytes \<Rightarrow> 'm dto \<Rightarrow> err + 'm dto" where
  "Unmarshal L ProtoJSONKind dat v = ProtoJSON_Unmarshal L dat v"
| "Unmarshal L JSONKind dat v = JSON_Unmarshal L dat v"
| "Unmarshal L ProtobufKind dat v = Protobuf_Unmarshal L dat v"

fun declares :: "serializer_kind \<Rightarrow> Serializer" where
  "declares ProtobufKind = \<lparr>declared = Some Protobuf_Version\<rparr>"
| "declares _ = \<lparr>declared = None\<rparr>"

section \<open>Round trips and refusals\<close>

text \<open>
  What the libraries promise: a message decodes from its own encoding whatever the target held, a plain
  value when the target is the zero value of its type.
\<close>

definition faithful :: "'m codecs \<Rightarrow> bool" where
  "faithful L \<longleftrightarrow>
     (\<forall>m b w. protojson_Marshal L m = Inr b \<longrightarrow> protojson_Unmarshal L b w = Inr m)
     \<and> (\<forall>v b. json_Marshal L v = Inr b \<longrightarrow> json_Unmarshal L b (zero_of L v) = Inr v)
     \<and> (\<forall>m b w. proto_Marshal L m = Inr b \<longrightarrow> proto_Unmarshal L b w = Inr m)
     \<and> (\<forall>v. case zero_of L v of Message _ \<Rightarrow> \<exists>m. v = Message m | Plain _ \<Rightarrow> \<exists>x. v = Plain x)"

text \<open>
  Every serializer decodes what it encoded into a zero value of the type; each declares a version
  the client accepts, protobuf 2 and the others 1; and a value that is no message never leaves the
  client under protobuf: the request fails with a protocol error before a sequence number is taken.
\<close>

theorem serializers_sound:
  assumes "faithful L" and "Marshal L k v = Inr b"
    and "\<forall>r. e_marshal e r = Marshal L ProtobufKind (val r)" and "val r0 = Plain x" and "genPtr ch = Some g"
    and "\<not> ch_closed ch" and "ch_state ch \<noteq> StateReconnecting"
  shows "Unmarshal L k b (zero_of L v) = Inr v
    \<and> serializerVersion (declares k) = Inr (if k = ProtobufKind then 2 else 1)
    \<and> (\<exists>y. invokeOnce_send e op (Some r0) rid ch = (Failed (NewProtocolError y), ch))"
proof (intro conjI)
  have z: "case zero_of L v of Message _ \<Rightarrow> \<exists>m. v = Message m | Plain _ \<Rightarrow> \<exists>x. v = Plain x"
    using assms(1) by (simp add: faithful_def)
  show "Unmarshal L k b (zero_of L v) = Inr v"
    using assms(1,2) z
    by (cases k; cases v; cases "zero_of L v")
      (auto simp: faithful_def ProtoJSON_Marshal_def ProtoJSON_Unmarshal_def JSON_Marshal_def
        JSON_Unmarshal_def Protobuf_Marshal_def Protobuf_Unmarshal_def, metis+)
  show "serializerVersion (declares k) = Inr (if k = ProtobufKind then 2 else 1)"
    by (cases k) (simp_all add: serializerVersion_def Protobuf_Version_def frame_consts)
  show "\<exists>y. invokeOnce_send e op (Some r0) rid ch = (Failed (NewProtocolError y), ch)"
    using assms(3-7) by (simp add: invokeOnce_send_def marshalRequest_def Protobuf_Marshal_def)
qed

end
