(* ===== verification/Spec2Isabelle.thy ===== *)
theory Spec2Isabelle
  imports Supervisor Transports ClientSession DirectPushes DirectRace DirectLeaks NetSwitch
  Facade DirectDial Calls Redial SessionMessages NetWatch
  DirectWire Serializers
begin

text \<open>
  \<^bold>\<open>The client side of the Atlas SDK for Go, modelled and verified.\<close>

  The SDK has two ways to a game server. The \<open>client\<close> package keeps one or two long-lived
  channels to the gateway: a channel frames requests (\<open>frame\<close>), matches replies by sequence number,
  queues requests while it is down, reconnects with a session hook, dispatches pushes, and carries a
  session (login, token, kick). The \<open>direct\<close> package opens a battle session from a match
  notification: a plan names the access layer's endpoints and a ticket, the access layer answers a
  hello with a flow id, and the session sends requests, receives pushes, reconnects with a replay,
  ends for one of four reasons, and, over KCP, moves to another network without reconnecting.

  \<^bold>\<open>Theories and sources.\<close> Each theory models its files function by function, in
  the order of the file; names are the source's, with a suffix where two packages use the same.

  \<^item> \<open>Prelude\<close>: checked slices (\<open>None\<close> is a run-time panic), big-endian words, durations as
    signed 64-bit integers with \<open>wrap64\<close>, \<open>io.ReadFull\<close>, step systems with \<open>reach\<close>, \<open>run_steps\<close> and the
    locale \<open>inductive_invariant\<close>.
  \<^item> \<open>GoErrors\<close> (\<open>client/errors.go\<close> and all sentinel variables): errors as trees, \<open>errors.Is\<close> and
    \<open>errors.As\<close> as walks over them. Error texts are short labels.
  \<^item> \<open>FrameCodec\<close> (\<open>frame/gen\<close>, \<open>frame/frame.go\<close>, \<open>frame/message.go\<close>), \<open>Body\<close> (\<open>frame/body.go\<close>),
    \<open>Reply\<close> (\<open>frame/reply.go\<close>, \<open>status.go\<close>, \<open>class.go\<close>): the wire formats.
  \<^item> \<open>Backoff\<close>: the locale of a doubling, capped delay; \<open>ClientOptions\<close> and \<open>DirectPlan\<close> interpret it.
  \<^item> \<open>ClientOptions\<close> (\<open>client/options.go\<close>, \<open>log.go\<close>, \<open>client.go\<close>, \<open>reconnect.go\<close>): settings, the dial family,
    dual roles, chained hooks.
  \<^item> \<open>Base64\<close>, \<open>Claims\<close>: unpadded base64 and the in-flight table as a \<open>sync.Map\<close>, with the race of all
    parties that may settle a request.
  \<^item> \<open>Channel\<close>, \<open>Invoke\<close>, \<open>Teardown\<close>, \<open>Supervisor\<close> (\<open>client/channel.go\<close>, \<open>invoke.go\<close>, \<open>queue.go\<close>,
    \<open>heartbeat.go\<close>): a channel's state, requests, what ends them, the generations' life cycle.
  \<^item> \<open>Notify\<close> (\<open>client/notify.go\<close>): keyed subscriptions. \<open>ClientSession\<close> (\<open>client/session*.go\<close>): the session.
    \<open>SessionMessages\<close> (\<open>client/session_message.go\<close>): its requests as protobuf messages, over descriptors.
  \<^item> \<open>Facade\<close> (\<open>client/client.go\<close>): the client and its views over one store of channels.
  \<^item> \<open>StreamTransports\<close> (\<open>client/transport.go\<close>, \<open>transport_kcp.go\<close>, \<open>internal/kcpcfg\<close>): TCP and KCP, and the
    dial of every client transport. \<open>Redial\<close> (reconnecting in \<open>client/channel.go\<close>, \<open>dialKCP\<close>): the connections
    of a channel under its supervisor, its dial goroutines, its heartbeats and \<open>Close\<close>. \<open>Calls\<close>: a request and its
    reply through channel, body codec, frames and transport to the server and back. \<open>Serializers\<close>
    (\<open>client/serializer.go\<close>, \<open>contrib/protobuf\<close>): which encoding a value takes.
  \<^item> \<open>Edge\<close> (\<open>direct/gen/edge\<close>, \<open>direct/hello.go\<close>), \<open>Transports\<close> (\<open>client/transport_ws.go\<close>,
    \<open>transport_udp.go\<close>, \<open>direct/transport.go\<close>): hello, flow ids, and frames over datagrams and messages.
  \<^item> \<open>DirectPlan\<close> (\<open>direct/plan.go\<close>, \<open>notify.go\<close>, \<open>options.go\<close>, \<open>version.go\<close>): plan and options.
  \<^item> \<open>DirectStats\<close> (\<open>direct/stats.go\<close>), \<open>DirectTerminal\<close> (\<open>direct/terminal.go\<close>, \<open>ended.go\<close>, the state of
    \<open>session.go\<close>), \<open>DirectInvoke\<close> (\<open>direct/session_invoke.go\<close>, \<open>session_push.go\<close>, \<open>heartbeat.go\<close>, read loop and
    \<open>Close\<close> of \<open>session.go\<close>): a direct session as functions on its state. \<open>DirectRequests\<close> and
    \<open>DirectPushes\<close> hold what follows from them.
  \<^item> \<open>DirectRace\<close>: the pieces of \<open>markEnded\<close> interleaved with callers, setters and \<open>Close\<close>.
  \<^item> \<open>DirectReconnect\<close>, \<open>DirectSupervise\<close> (\<open>direct/session_reconnect.go\<close>): one round of reconnecting, and
    the supervising goroutines as a step system. \<open>DirectLeaks\<close>: what \<open>Close\<close> of \<open>session.go\<close> waits for
    after outages.
  \<^item> \<open>DirectDial\<close> (dialling in \<open>direct/transport.go\<close>, the URLs of \<open>direct/hello.go\<close>): dialling over any transport.
    \<open>DirectWire\<close> (the connections of \<open>direct/transport.go\<close>): a battle request to the server and back.
  \<^item> \<open>NetMigrate\<close>, \<open>NetWatchdog\<close>, \<open>NetSwitch\<close> (\<open>direct/netmigrate*.go\<close>, \<open>netwatch.go\<close>): the packet
    connection under a KCP session; what it does by itself; switches interleaved with writers,
    the reader and \<open>Close\<close>. \<open>NetWatch\<close>: the address poller and the goroutine that turns its signals
    into switch requests.

  \<^bold>\<open>How the code is rendered.\<close> A struct is a record, a method a function from the receiver's
  state to its result and the new state, a Go error an \<open>err option\<close>, a fallible result \<open>err + 'a\<close>, a
  possible panic an outer \<open>option\<close>. Sequence numbers, lengths, flags and counters are words of their
  width. A call that waits takes what happens meanwhile as an argument (frames that arrive,
  how the wait ends, what a dial gives), and a theorem about it holds for every such argument. A
  loop over inputs is a recursion over their list and returns \<open>None\<close>, or says that it is still
  waiting, when the list ends; the theorems that something returns give the length that is
  enough: four exchanges for a hello, two migrations for a switch, the ticks up to the idle deadline,
  any frames at all for a request. What several goroutines do is a step relation \<open>act_do\<close>,
  \<open>life_do\<close>, \<open>race_do\<close>, \<open>sup_do\<close>, \<open>ndo\<close>, \<open>redial_do\<close>, \<open>watch_do\<close> whose steps are the pieces between two lock or atomic operations; the
  invariants are proved once per relation through \<open>inductive_invariant\<close>, and a bug that needs a
  particular order is a reachable state given by its schedule.

  \<^bold>\<open>What the lemmas show.\<close> Wire formats: encoders and decoders are inverse on what they accept,
  decoders are total and classify their errors, and reading a stream is decoding it. Channel: a result is delivered exactly once under
  every interleaving; requests return and leave nothing behind; a failed read, a close and a
  drain settle everything; the queue opens only behind the session hook. Subscriptions refine a map from
  keys to handlers. A client is the product of its channels. Session: credentials come only from a matching reply, and go with a
  logout or a kick; its requests carry them in the agreed fields. A call over any transport reaches the server as it was made and its reply decides the
  result. No connection a redial opens is lost, and \<open>Close\<close> waits for the network only while a UDP dial resolves its
  address. Direct session: rejections keep the server's data, and local and remote endings are told by the same tests; a terminal state is never left, at most
  one frame is written after it, and everyone who waits is released; the end notification is
  reported once; the catch-up base only rises; reconnecting perseveres exactly through retryable
  failures of dials and replays; a caller of \<open>Reconnect\<close> is answered at most once; after outages \<open>Close\<close> waits for the connections that multiplied supervisors left open, and for nothing else. Network migration: one migration at a time, no socket leaked or closed twice, swallowed
  writes within their budget, a silent link given up within one tick of its deadline unless a switch succeeds or a
  datagram arrives, no change of address without a request for a switch.

  The schedules \<open>terminated_but_connected\<close>, \<open>lost_subscription\<close>, \<open>ended_before_failed\<close>, \<open>supervisors_double\<close>, \<open>close_waits_forever\<close>,
  \<open>reconnect_waiter_lost\<close>, \<open>stale_write_fails\<close>, \<open>switch_request_lost\<close>, \<open>hang_ups_leak\<close> and
  \<open>timed_out_write_desyncs\<close>, and \<open>restore_drops_token\<close>, are
  behaviours of the code that its comments or its purpose exclude.

  \<^bold>\<open>Locales.\<close> \<open>inductive_invariant\<close> (a start, a step, an invariant kept), \<open>backoff\<close> (a delay that doubles up to a cap) in
  \<open>Backoff\<close>, \<open>claim_table\<close> (a table whose entries are claimed once) in \<open>Claims\<close>, \<open>message_transport\<close> (frames
  over messages) in \<open>Transports\<close>; each is interpreted on the model's own definitions where they are defined.

  \<^bold>\<open>Not modelled.\<close> Sockets, the \<open>net\<close>, \<open>kcp-go\<close> and WebSocket libraries (their results are inputs); the
  JSON and protobuf libraries (parameters with the laws used; a message is its descriptor and string fields); the text
  of errors and log lines; goroutine scheduling inside one lock region; recovered panics of handlers
  beyond their having no effect on the state; example programs, scripts and generated messages.
  Reading the clock just before taking a lock is one step with what happens under the lock.
\<close>

end
